(* ===== verification/Prelude.thy ===== *)
theory Prelude
  imports Main "HOL-Library.Word" "HOL-Library.Finite_Map" "HOL-Library.Monad_Syntax"
begin

text \<open>
  What every component shares: the machine integers of the code, byte order conversions, the
  socket addresses of the Rust standard library, checked indexing (an index or a slice out of
  range panics in Rust, and a panic is the value \<open>None\<close> of a handler's result), the operations of
  the concurrent hash maps the tunnels keep their clients in, and the run of a handler over a
  list of events.
\<close>

unbundle bit_operations_syntax

named_theorems frame_simps \<open>fields that an operation leaves alone\<close>

section \<open>Machine integers\<close>

type_synonym u8 = "8 word"
type_synonym u16 = "16 word"
type_synonym u32 = "32 word"
type_synonym u64 = "64 word"

text \<open>An \<open>i16\<close> is its sixteen bits; \<open>sint\<close> reads them as two's complement.\<close>

type_synonym i16 = "16 word"

abbreviation u32_MAX :: u32 where
  "u32_MAX \<equiv> - 1"

definition saturating_sub :: "'a::len word \<Rightarrow> 'a word \<Rightarrow> 'a word" where
  "saturating_sub a b = (if b \<le> a then a - b else 0)"

lemma unat_saturating_sub: "unat (saturating_sub a b) = unat a - unat b"
  by (auto simp: saturating_sub_def unat_sub word_le_nat_alt)

section \<open>Byte order\<close>

definition u16_from_be_bytes :: "u8 \<Rightarrow> u8 \<Rightarrow> u16" where
  "u16_from_be_bytes a b = push_bit 8 (ucast a) OR ucast b"

definition u16_to_be_bytes :: "u16 \<Rightarrow> u8 \<times> u8" where
  "u16_to_be_bytes w = (ucast (drop_bit 8 w), ucast w)"

definition u32_from_le_bytes :: "u8 \<Rightarrow> u8 \<Rightarrow> u8 \<Rightarrow> u8 \<Rightarrow> u32" where
  "u32_from_le_bytes a b c d =
     ucast a OR push_bit 8 (ucast b) OR push_bit 16 (ucast c) OR push_bit 24 (ucast d)"

definition u32_from_be_bytes :: "u8 \<Rightarrow> u8 \<Rightarrow> u8 \<Rightarrow> u8 \<Rightarrow> u32" where
  "u32_from_be_bytes a b c d = u32_from_le_bytes d c b a"

definition u32_to_le_bytes :: "u32 \<Rightarrow> u8 list" where
  "u32_to_le_bytes w =
     [ucast w, ucast (drop_bit 8 w), ucast (drop_bit 16 w), ucast (drop_bit 24 w)]"

lemma u16_be_round_trip:
  "u16_from_be_bytes (fst (u16_to_be_bytes w)) (snd (u16_to_be_bytes w)) = w"
  unfolding u16_from_be_bytes_def u16_to_be_bytes_def
  by (rule bit_word_eqI) (auto simp: bit_simps)

lemma u32_le_round_trip:
  "u32_from_le_bytes (ucast w) (ucast (drop_bit 8 w)) (ucast (drop_bit 16 w))
     (ucast (drop_bit 24 w)) = w"
proof (rule bit_word_eqI)
  fix n assume "n < LENGTH(32)"
  then consider "n < 8" | "8 \<le> n" "n < 16" | "16 \<le> n" "n < 24" | "24 \<le> n" "n < 32"
    by fastforce
  then show "bit (u32_from_le_bytes (ucast w) (ucast (drop_bit 8 w)) (ucast (drop_bit 16 w))
     (ucast (drop_bit 24 w))) n = bit w n"
    by cases (auto simp: u32_from_le_bytes_def bit_simps)
qed

lemma bit_u8_high: "8 \<le> n \<Longrightarrow> \<not> bit (a :: u8) n"
  using bit_imp_le_length [of a n] by auto

lemma u32_le_bytes_parts:
  "ucast (u32_from_le_bytes a b c d) = a"
  "ucast (drop_bit 8 (u32_from_le_bytes a b c d)) = b"
  "ucast (drop_bit 16 (u32_from_le_bytes a b c d)) = c"
  "ucast (drop_bit 24 (u32_from_le_bytes a b c d)) = d"
  by (rule bit_word_eqI, simp add: u32_from_le_bytes_def bit_simps bit_u8_high)+

section \<open>Socket addresses\<close>

text \<open>
  \<open>std::net::IpAddr\<close> and \<open>std::net::SocketAddr\<close>. Two IPv6 socket addresses are equal only when
  flow information and scope agree as well.
\<close>

datatype ip_addr = V4 u8 u8 u8 u8 | V6 "128 word"

datatype socket_addr =
    SocketV4 u8 u8 u8 u8 (sock_port: u16)
  | SocketV6 "128 word" (sock_port: u16) (flowinfo: u32) (scope_id: u32)

primrec sock_ip :: "socket_addr \<Rightarrow> ip_addr" where
  "sock_ip (SocketV4 a b c d p) = V4 a b c d"
| "sock_ip (SocketV6 w p f s) = V6 w"

section \<open>Indexing that can panic\<close>

definition index :: "'a list \<Rightarrow> nat \<Rightarrow> 'a option" where
  "index xs i = (if i < length xs then Some (xs ! i) else None)"

definition slice :: "'a list \<Rightarrow> nat \<Rightarrow> nat \<Rightarrow> 'a list option" where
  "slice xs i j = (if i \<le> j \<and> j \<le> length xs then Some (take (j - i) (drop i xs)) else None)"

lemma index_in_range [simp]: "i < length xs \<Longrightarrow> index xs i = Some (xs ! i)"
  by (simp add: index_def)

lemma slice_in_range [simp]:
  "i \<le> j \<Longrightarrow> j \<le> length xs \<Longrightarrow> slice xs i j = Some (take (j - i) (drop i xs))"
  by (simp add: slice_def)

lemma index_None_iff [simp]: "index xs i = None \<longleftrightarrow> length xs \<le> i"
  by (auto simp: index_def)

lemma slice_None_iff [simp]: "slice xs i j = None \<longleftrightarrow> \<not> (i \<le> j \<and> j \<le> length xs)"
  by (simp add: slice_def)

section \<open>Hash maps\<close>

text \<open>
  A \<open>DashMap\<close> as the tunnels use it: a finite map under its documented operations. Each
  operation of a handler is one atomic step here.
\<close>

definition dm_len :: "('k, 'v) fmap \<Rightarrow> nat" where
  "dm_len m = fcard (fmdom m)"

definition dm_retain :: "('k \<Rightarrow> 'v \<Rightarrow> bool) \<Rightarrow> ('k, 'v) fmap \<Rightarrow> ('k, 'v) fmap" where
  "dm_retain keep m =
     fmfilter (\<lambda>k. case fmlookup m k of None \<Rightarrow> False | Some v \<Rightarrow> keep k v) m"

text \<open>\<open>get_mut\<close> or a method of a shared value: the entry is changed when there is one.\<close>

definition dm_modify :: "'k \<Rightarrow> ('v \<Rightarrow> 'v) \<Rightarrow> ('k, 'v) fmap \<Rightarrow> ('k, 'v) fmap" where
  "dm_modify k f m = (case fmlookup m k of None \<Rightarrow> m | Some v \<Rightarrow> fmupd k (f v) m)"

definition dm_contains :: "('k, 'v) fmap \<Rightarrow> 'k \<Rightarrow> bool" where
  "dm_contains m k = (fmlookup m k \<noteq> None)"

text \<open>The contract of such a map, over any representation of it.\<close>

locale client_map =
  fixes get :: "'m \<Rightarrow> 'k \<Rightarrow> 'v option"
    and insert :: "'k \<Rightarrow> 'v \<Rightarrow> 'm \<Rightarrow> 'm"
    and remove :: "'k \<Rightarrow> 'm \<Rightarrow> 'm"
    and modify :: "'k \<Rightarrow> ('v \<Rightarrow> 'v) \<Rightarrow> 'm \<Rightarrow> 'm"
    and retain :: "('k \<Rightarrow> 'v \<Rightarrow> bool) \<Rightarrow> 'm \<Rightarrow> 'm"
    and len :: "'m \<Rightarrow> nat"
  assumes get_insert: "get (insert k v m) j = (if j = k then Some v else get m j)"
    and get_remove: "get (remove k m) j = (if j = k then None else get m j)"
    and get_modify: "get (modify k f m) j = (if j = k then map_option f (get m j) else get m j)"
    and get_retain:
      "get (retain keep m) j =
         (case get m j of None \<Rightarrow> None | Some v \<Rightarrow> if keep j v then Some v else None)"
    and len_card: "len m = card (dom (get m))"
    and finite_keys: "finite (dom (get m))"
begin

lemma len_insert: "len (insert k v m) = (if get m k = None then Suc (len m) else len m)"
proof -
  have "dom (get (insert k v m)) = Set.insert k (dom (get m))"
    by (auto simp: get_insert dom_def)
  then show ?thesis
    by (simp add: len_card card_insert_if finite_keys domIff)
qed

lemma len_modify: "len (modify k f m) = len m"
proof -
  have "dom (get (modify k f m)) = dom (get m)"
    by (auto simp: get_modify dom_def split: if_splits)
  then show ?thesis by (simp add: len_card)
qed

lemma len_retain: "len (retain keep m) \<le> len m"
proof -
  have "dom (get (retain keep m)) \<subseteq> dom (get m)"
    by (auto simp: get_retain dom_def split: option.splits)
  then show ?thesis by (simp add: len_card card_mono finite_keys)
qed

lemma len_remove: "len (remove k m) = (if get m k = None then len m else len m - 1)"
proof -
  have "dom (get (remove k m)) = dom (get m) - {k}"
    by (auto simp: get_remove dom_def)
  then show ?thesis
    by (simp add: len_card finite_keys card_Diff_singleton_if domIff)
qed

lemma len_pos: "get m k = Some v \<Longrightarrow> 0 < len m"
  by (auto simp: len_card card_gt_0_iff finite_keys)

lemma room_after_insert: "len m < cap \<Longrightarrow> len (insert k v m) \<le> cap"
  by (simp add: len_insert)

end

lemma dm_lookup_retain [simp]:
  "fmlookup (dm_retain keep m) j =
     (case fmlookup m j of None \<Rightarrow> None | Some v \<Rightarrow> if keep j v then Some v else None)"
  by (auto simp: dm_retain_def split: option.splits)

lemma dm_lookup_modify:
  "fmlookup (dm_modify k f m) j =
     (if j = k then map_option f (fmlookup m j) else fmlookup m j)"
  by (auto simp: dm_modify_def split: option.splits)

interpretation dm: client_map fmlookup fmupd fmdrop dm_modify dm_retain dm_len
proof
  fix m :: "('k, 'v) fmap"
  show "dm_len m = card (dom (fmlookup m))"
    by (simp add: dm_len_def fcard.rep_eq fmdom.rep_eq)
qed (auto simp: dm_lookup_modify split: option.splits)

lemma dm_len_empty [simp]: "dm_len fmempty = 0"
  by (simp add: dm_len_def)

lemma dm_fmdom_modify [simp]: "fmdom (dm_modify k f m) = fmdom m"
  by (auto simp: dm_modify_def fmlookup_dom_iff split: option.splits)

section \<open>Running a handler over a list of events\<close>

primrec run_all :: "('e \<Rightarrow> 's \<Rightarrow> 's option) \<Rightarrow> 'e list \<Rightarrow> 's \<Rightarrow> 's option" where
  "run_all step [] s = Some s"
| "run_all step (e # es) s = Option.bind (step e s) (run_all step es)"

lemma run_all_invariant:
  assumes "run_all step es s = Some s'" and "I s"
    and "\<And>e s s'. I s \<Longrightarrow> step e s = Some s' \<Longrightarrow> I s'"
  shows "I s'"
  using assms(1,2)
proof (induction es arbitrary: s)
  case Nil
  then show ?case by simp
next
  case (Cons e es)
  then show ?case using assms(3) by (auto simp: bind_eq_Some_conv)
qed

lemma run_all_total:
  assumes "I s" and "\<And>e s. I s \<Longrightarrow> \<exists>s'. step e s = Some s' \<and> I s'"
  shows "\<exists>s'. run_all step es s = Some s' \<and> I s'"
  using assms(1)
proof (induction es arbitrary: s)
  case Nil
  then show ?case by simp
next
  case (Cons e es)
  from assms(2) [OF Cons.prems] obtain s1 where "step e s = Some s1" "I s1" by blast
  then show ?case using Cons.IH [of s1] by auto
qed

lemma run_all_append:
  "run_all step (es @ fs) s = Option.bind (run_all step es s) (run_all step fs)"
  by (induction es arbitrary: s) (auto intro: Option.bind_cong)

end
