(* ===== verification/Metrics.thy ===== *)
theory Metrics
  imports Prelude
begin

text \<open>
  \<open>src/metrics.rs\<close>: the server's atomic counters, the batch in which a receive worker collects its
  packet and byte counts between flushes, and the update of the Prometheus metrics at a scrape.
  An \<open>AtomicU64\<close> is a \<open>u64\<close> whose \<open>fetch_add\<close> wraps, an \<open>AtomicUsize\<close> a \<open>nat\<close> (it is only
  stored to). The objects of the \<open>prometheus\<close> crate are not modelled; the calls made on them are
  the result of the update.
\<close>

section \<open>The counters\<close>

record metrics =
  v3_packets_received :: u64
  v3_packets_sent :: u64
  v3_bytes_received :: u64
  v3_bytes_sent :: u64
  v3_active_clients :: nat
  v3_ping_requests :: u64
  v2_packets_received :: u64
  v2_packets_sent :: u64
  v2_bytes_received :: u64
  v2_bytes_sent :: u64
  v2_active_clients :: nat
  v2_http_requests :: u64
  v2_ping_requests :: u64
  p2p_requests :: u64
  p2p_responses :: u64
  rate_limit_hits :: u64
  dropped_packets :: u64
  dropped_connections :: u64
  invalid_packets :: u64
  last_v3_rx :: u64
  last_v3_tx :: u64
  last_v3_bytes_rx :: u64
  last_v3_bytes_tx :: u64
  last_v2_rx :: u64
  last_v2_tx :: u64
  last_v2_http :: u64
  last_rate_limits :: u64
  last_dropped_pkts :: u64
  last_dropped_conns :: u64

definition metrics_new :: metrics where
  "metrics_new = \<lparr>
     v3_packets_received = 0, v3_packets_sent = 0, v3_bytes_received = 0, v3_bytes_sent = 0,
     v3_active_clients = 0, v3_ping_requests = 0,
     v2_packets_received = 0, v2_packets_sent = 0, v2_bytes_received = 0, v2_bytes_sent = 0,
     v2_active_clients = 0, v2_http_requests = 0, v2_ping_requests = 0,
     p2p_requests = 0, p2p_responses = 0,
     rate_limit_hits = 0, dropped_packets = 0, dropped_connections = 0, invalid_packets = 0,
     last_v3_rx = 0, last_v3_tx = 0, last_v3_bytes_rx = 0, last_v3_bytes_tx = 0,
     last_v2_rx = 0, last_v2_tx = 0, last_v2_http = 0,
     last_rate_limits = 0, last_dropped_pkts = 0, last_dropped_conns = 0\<rparr>"

section \<open>The per-worker batch\<close>

record local_metrics_batch =
  v3_packets_rx :: u32
  v3_packets_tx :: u32
  v3_bytes_rx :: u64
  v3_bytes_tx :: u64
  v2_packets_rx :: u32
  v2_packets_tx :: u32
  v2_bytes_rx :: u64
  v2_bytes_tx :: u64
  counter :: u16

definition FLUSH_INTERVAL :: u16 where
  "FLUSH_INTERVAL = 64"

definition batch_new :: local_metrics_batch where
  "batch_new = \<lparr>
     v3_packets_rx = 0, v3_packets_tx = 0, v3_bytes_rx = 0, v3_bytes_tx = 0,
     v2_packets_rx = 0, v2_packets_tx = 0, v2_bytes_rx = 0, v2_bytes_tx = 0, counter = 0\<rparr>"

definition record_v3_rx :: "u64 \<Rightarrow> local_metrics_batch \<Rightarrow> local_metrics_batch" where
  "record_v3_rx bytes b =
     b\<lparr>v3_packets_rx := v3_packets_rx b + 1, v3_bytes_rx := v3_bytes_rx b + bytes\<rparr>"

definition record_v3_tx :: "u64 \<Rightarrow> local_metrics_batch \<Rightarrow> local_metrics_batch" where
  "record_v3_tx bytes b =
     b\<lparr>v3_packets_tx := v3_packets_tx b + 1, v3_bytes_tx := v3_bytes_tx b + bytes\<rparr>"

definition record_v2_rx :: "u64 \<Rightarrow> local_metrics_batch \<Rightarrow> local_metrics_batch" where
  "record_v2_rx bytes b =
     b\<lparr>v2_packets_rx := v2_packets_rx b + 1, v2_bytes_rx := v2_bytes_rx b + bytes\<rparr>"

definition record_v2_tx :: "u64 \<Rightarrow> local_metrics_batch \<Rightarrow> local_metrics_batch" where
  "record_v2_tx bytes b =
     b\<lparr>v2_packets_tx := v2_packets_tx b + 1, v2_bytes_tx := v2_bytes_tx b + bytes\<rparr>"

definition flush :: "local_metrics_batch \<times> metrics \<Rightarrow> local_metrics_batch \<times> metrics" where
  "flush bm =
     (let (b, m) = bm;
        (b, m) = (if 0 < v3_packets_rx b
          then (b\<lparr>v3_packets_rx := 0\<rparr>,
                m\<lparr>v3_packets_received := v3_packets_received m + ucast (v3_packets_rx b)\<rparr>)
          else (b, m));
        (b, m) = (if 0 < v3_packets_tx b
          then (b\<lparr>v3_packets_tx := 0\<rparr>,
                m\<lparr>v3_packets_sent := v3_packets_sent m + ucast (v3_packets_tx b)\<rparr>)
          else (b, m));
        (b, m) = (if 0 < v3_bytes_rx b
          then (b\<lparr>v3_bytes_rx := 0\<rparr>,
                m\<lparr>v3_bytes_received := v3_bytes_received m + v3_bytes_rx b\<rparr>)
          else (b, m));
        (b, m) = (if 0 < v3_bytes_tx b
          then (b\<lparr>v3_bytes_tx := 0\<rparr>, m\<lparr>v3_bytes_sent := v3_bytes_sent m + v3_bytes_tx b\<rparr>)
          else (b, m));
        (b, m) = (if 0 < v2_packets_rx b
          then (b\<lparr>v2_packets_rx := 0\<rparr>,
                m\<lparr>v2_packets_received := v2_packets_received m + ucast (v2_packets_rx b)\<rparr>)
          else (b, m));
        (b, m) = (if 0 < v2_packets_tx b
          then (b\<lparr>v2_packets_tx := 0\<rparr>,
                m\<lparr>v2_packets_sent := v2_packets_sent m + ucast (v2_packets_tx b)\<rparr>)
          else (b, m));
        (b, m) = (if 0 < v2_bytes_rx b
          then (b\<lparr>v2_bytes_rx := 0\<rparr>,
                m\<lparr>v2_bytes_received := v2_bytes_received m + v2_bytes_rx b\<rparr>)
          else (b, m))
      in (if 0 < v2_bytes_tx b
          then (b\<lparr>v2_bytes_tx := 0\<rparr>, m\<lparr>v2_bytes_sent := v2_bytes_sent m + v2_bytes_tx b\<rparr>)
          else (b, m)))"

definition maybe_flush :: "local_metrics_batch \<times> metrics \<Rightarrow> local_metrics_batch \<times> metrics" where
  "maybe_flush bm =
     (let (b, m) = bm; b = b\<lparr>counter := counter b + 1\<rparr>
      in if counter b mod FLUSH_INTERVAL = 0 then flush (b, m) else (b, m))"

lemma drained:
  "v3_packets_rx b = 0 \<Longrightarrow> b\<lparr>v3_packets_rx := 0\<rparr> = b"
  "v3_packets_tx b = 0 \<Longrightarrow> b\<lparr>v3_packets_tx := 0\<rparr> = b"
  "v3_bytes_rx b = 0 \<Longrightarrow> b\<lparr>v3_bytes_rx := 0\<rparr> = b"
  "v3_bytes_tx b = 0 \<Longrightarrow> b\<lparr>v3_bytes_tx := 0\<rparr> = b"
  "v2_packets_rx b = 0 \<Longrightarrow> b\<lparr>v2_packets_rx := 0\<rparr> = b"
  "v2_packets_tx b = 0 \<Longrightarrow> b\<lparr>v2_packets_tx := 0\<rparr> = b"
  "v2_bytes_rx b = 0 \<Longrightarrow> b\<lparr>v2_bytes_rx := 0\<rparr> = b"
  "v2_bytes_tx b = 0 \<Longrightarrow> b\<lparr>v2_bytes_tx := 0\<rparr> = b"
  by (cases b; simp)+

lemma if_positive_word:
  fixes x :: "'a::len word"
  assumes "x = 0 \<Longrightarrow> p = q"
  shows "(if 0 < x then p else q) = p"
  using assms by (cases "x = 0") (auto simp: word_neq_0_conv)

text \<open>The eight tests only save atomic operations: a flush always moves everything.\<close>

lemma flush_eq:
  "flush (b, m) =
     (batch_new\<lparr>counter := counter b\<rparr>,
      m\<lparr>v3_packets_received := v3_packets_received m + ucast (v3_packets_rx b),
        v3_packets_sent := v3_packets_sent m + ucast (v3_packets_tx b),
        v3_bytes_received := v3_bytes_received m + v3_bytes_rx b,
        v3_bytes_sent := v3_bytes_sent m + v3_bytes_tx b,
        v2_packets_received := v2_packets_received m + ucast (v2_packets_rx b),
        v2_packets_sent := v2_packets_sent m + ucast (v2_packets_tx b),
        v2_bytes_received := v2_bytes_received m + v2_bytes_rx b,
        v2_bytes_sent := v2_bytes_sent m + v2_bytes_tx b\<rparr>)"
  unfolding flush_def
  by (simp add: if_positive_word drained batch_new_def Let_def)


lemma maybe_flush_eq:
  "maybe_flush (b, m) =
     (if (counter b + 1) mod 64 = 0 then flush (b\<lparr>counter := counter b + 1\<rparr>, m)
      else (b\<lparr>counter := counter b + 1\<rparr>, m))"
  by (simp add: maybe_flush_def Let_def FLUSH_INTERVAL_def)

subsection \<open>What is pending plus what is published\<close>

text \<open>
  The counts of one tunnel version: packets and bytes received and sent, published in the
  metrics or still pending in the worker's batch.
\<close>

definition v3_counts :: "local_metrics_batch \<times> metrics \<Rightarrow> u64 \<times> u64 \<times> u64 \<times> u64" where
  "v3_counts bm = (let (b, m) = bm in
     (v3_packets_received m + ucast (v3_packets_rx b), v3_packets_sent m + ucast (v3_packets_tx b),
      v3_bytes_received m + v3_bytes_rx b, v3_bytes_sent m + v3_bytes_tx b))"

definition v2_counts :: "local_metrics_batch \<times> metrics \<Rightarrow> u64 \<times> u64 \<times> u64 \<times> u64" where
  "v2_counts bm = (let (b, m) = bm in
     (v2_packets_received m + ucast (v2_packets_rx b), v2_packets_sent m + ucast (v2_packets_tx b),
      v2_bytes_received m + v2_bytes_rx b, v2_bytes_sent m + v2_bytes_tx b))"

lemma flush_counts [simp]:
  "v3_counts (flush bm) = v3_counts bm" "v2_counts (flush bm) = v2_counts bm"
  by (cases bm; simp add: flush_eq v3_counts_def v2_counts_def batch_new_def Let_def)+

lemma maybe_flush_counts [simp]:
  "v3_counts (maybe_flush bm) = v3_counts bm" "v2_counts (maybe_flush bm) = v2_counts bm"
proof -
  obtain b m where bm: "bm = (b, m)" by (cases bm)
  have "v3_counts (b\<lparr>counter := c\<rparr>, m) = v3_counts (b, m)"
    and "v2_counts (b\<lparr>counter := c\<rparr>, m) = v2_counts (b, m)" for c
    by (simp_all add: v3_counts_def v2_counts_def)
  then show "v3_counts (maybe_flush bm) = v3_counts bm" "v2_counts (maybe_flush bm) = v2_counts bm"
    by (simp_all add: bm maybe_flush_eq)
qed

subsection \<open>The batch stays small\<close>

text \<open>
  Between flushes a batch holds at most as many packets as its counter has gone past the last
  multiple of the flush interval, so the 32-bit packet counts never wrap. The 16-bit counter
  itself wraps at a multiple of the interval.
\<close>

definition batch_ok :: "local_metrics_batch \<Rightarrow> bool" where
  "batch_ok b \<longleftrightarrow>
     (\<forall>n \<in> set [v3_packets_rx b, v3_packets_tx b, v2_packets_rx b, v2_packets_tx b].
        unat n \<le> unat (counter b) mod 64)"

definition one_packet :: "local_metrics_batch \<Rightarrow> local_metrics_batch \<Rightarrow> bool" where
  "one_packet b b' \<longleftrightarrow>
     counter b' = counter b \<and>
     unat (v3_packets_rx b') \<le> Suc (unat (v3_packets_rx b)) \<and>
     unat (v3_packets_tx b') \<le> Suc (unat (v3_packets_tx b)) \<and>
     unat (v2_packets_rx b') \<le> Suc (unat (v2_packets_rx b)) \<and>
     unat (v2_packets_tx b') \<le> Suc (unat (v2_packets_tx b))"

lemma batch_ok_bounds:
  assumes "batch_ok b"
  shows "unat (v3_packets_rx b) < 64" "unat (v3_packets_tx b) < 64"
    "unat (v2_packets_rx b) < 64" "unat (v2_packets_tx b) < 64"
  using assms mod_less_divisor [of 64 "unat (counter b)"]
  by (auto simp: batch_ok_def simp del: mod_less_divisor intro: le_less_trans)

lemma unat_Suc_le: "unat (w + 1) \<le> Suc (unat w)"
  using unat_add_lem [of w 1] by (simp add: unat_word_ariths)

lemma batch_new_ok [simp]: "batch_ok batch_new"
  by (simp add: batch_ok_def batch_new_def)

lemma counter_mod: "unat (c + 1 :: u16) mod 64 = Suc (unat c mod 64) mod 64"
proof -
  have "unat (c + 1) mod 64 = (unat c + 1) mod 65536 mod 64"
    by (simp add: unat_word_ariths)
  also have "\<dots> = (unat c + 1) mod 64" by (rule mod_mod_cancel) simp
  finally show ?thesis by (simp add: mod_Suc_eq)
qed

lemma counter_flush_iff: "(c + 1 :: u16) mod 64 = 0 \<longleftrightarrow> Suc (unat c mod 64) mod 64 = 0"
  by (simp add: word_unat_eq_iff unat_mod counter_mod)

lemma batch_step_ok:
  assumes "batch_ok b" and "one_packet b b'"
  shows "batch_ok (fst (maybe_flush (b', m)))"
proof (cases "Suc (unat (counter b) mod 64) mod 64 = 0")
  case True
  with assms(2) have "(counter b' + 1) mod 64 = 0" by (simp add: one_packet_def counter_flush_iff)
  then show ?thesis by (simp add: maybe_flush_eq flush_eq batch_ok_def batch_new_def)
next
  case False
  have "unat (counter b) mod 64 < 64" by simp
  with False have "Suc (unat (counter b) mod 64) mod 64 = Suc (unat (counter b) mod 64)"
    by (auto simp: mod_Suc split: if_splits)
  with assms False show ?thesis
    by (auto simp: maybe_flush_eq one_packet_def counter_flush_iff batch_ok_def counter_mod
        intro: le_trans)
qed

lemma batch_flush_ok: "batch_ok (fst (flush (b, m)))"
  by (simp add: flush_eq batch_ok_def batch_new_def)

lemma one_packet_refl [simp]: "one_packet b b"
  by (simp add: one_packet_def)

lemma one_packet_v3:
  "one_packet b (record_v3_rx n b)"
  "one_packet b (record_v3_tx k (record_v3_rx n b))"
  by (simp_all add: one_packet_def record_v3_rx_def record_v3_tx_def unat_Suc_le)

lemma one_packet_v2:
  "one_packet b (record_v2_rx n b)"
  "one_packet b (record_v2_tx k (record_v2_rx n b))"
  by (simp_all add: one_packet_def record_v2_rx_def record_v2_tx_def unat_Suc_le)

text \<open>One packet received, one datagram sent, in the counts; the counts are 64-bit numbers.\<close>

type_synonym counts = "u64 \<times> u64 \<times> u64 \<times> u64"

fun count_rx :: "nat \<Rightarrow> counts \<Rightarrow> counts" where
  "count_rx n (a, b, c, d) = (a + 1, b, c + of_nat n, d)"

fun count_tx :: "nat \<Rightarrow> counts \<Rightarrow> counts" where
  "count_tx n (a, b, c, d) = (a, b + 1, c, d + of_nat n)"

lemma ucast_Suc: "unat (w :: u32) < 64 \<Longrightarrow> (ucast (w + 1) :: u64) = ucast w + 1"
  by (rule word_unat_eq_iff [THEN iffD2])
     (simp add: unat_word_ariths unsigned_ucast_eq take_bit_eq_mod)

lemma record_counts:
  "unat (v3_packets_rx b) < 64 \<Longrightarrow> v3_counts (record_v3_rx (of_nat n) b, m) = count_rx n (v3_counts (b, m))"
  "unat (v3_packets_tx b) < 64 \<Longrightarrow> v3_counts (record_v3_tx (of_nat n) b, m) = count_tx n (v3_counts (b, m))"
  "unat (v2_packets_rx b) < 64 \<Longrightarrow> v2_counts (record_v2_rx (of_nat n) b, m) = count_rx n (v2_counts (b, m))"
  "unat (v2_packets_tx b) < 64 \<Longrightarrow> v2_counts (record_v2_tx (of_nat n) b, m) = count_tx n (v2_counts (b, m))"
  by (simp_all add: v3_counts_def v2_counts_def record_v3_rx_def record_v3_tx_def record_v2_rx_def
      record_v2_tx_def ucast_Suc)

lemma record_rx_tx [simp]:
  "v3_packets_tx (record_v3_rx n b) = v3_packets_tx b" "v2_packets_tx (record_v2_rx n b) = v2_packets_tx b"
  by (simp_all add: record_v3_rx_def record_v2_rx_def)

section \<open>Prometheus\<close>

text \<open>The \<open>IntCounter\<close>s and \<open>IntGauge\<close>s of the struct, and the calls an update makes on them.\<close>

datatype prom_counter =
    PromV3PacketsReceived | PromV3PacketsSent | PromV3BytesReceived | PromV3BytesSent
  | PromV2PacketsReceived | PromV2PacketsSent | PromV2HttpRequests
  | PromRateLimitHits | PromDroppedPackets | PromDroppedConnections

datatype prom_gauge = PromV3ActiveClients | PromV2ActiveClients | PromUptimeSeconds

datatype prom_call = Inc_by prom_counter u64 | Set_gauge prom_gauge u64

definition update_prometheus :: "u64 \<Rightarrow> metrics \<Rightarrow> prom_call list \<times> metrics" where
  "update_prometheus uptime m =
     (let v3_rx = v3_packets_received m; v3_tx = v3_packets_sent m;
          v3_brx = v3_bytes_received m; v3_btx = v3_bytes_sent m;
          v2_rx = v2_packets_received m; v2_tx = v2_packets_sent m;
          v2_http = v2_http_requests m;
          limits = rate_limit_hits m; pkts = dropped_packets m; conns = dropped_connections m;
          m' = m\<lparr>last_v3_rx := v3_rx, last_v3_tx := v3_tx,
                 last_v3_bytes_rx := v3_brx, last_v3_bytes_tx := v3_btx,
                 last_v2_rx := v2_rx, last_v2_tx := v2_tx, last_v2_http := v2_http,
                 last_rate_limits := limits, last_dropped_pkts := pkts,
                 last_dropped_conns := conns\<rparr>
      in ([Inc_by PromV3PacketsReceived (saturating_sub v3_rx (last_v3_rx m)),
           Inc_by PromV3PacketsSent (saturating_sub v3_tx (last_v3_tx m)),
           Inc_by PromV3BytesReceived (saturating_sub v3_brx (last_v3_bytes_rx m)),
           Inc_by PromV3BytesSent (saturating_sub v3_btx (last_v3_bytes_tx m)),
           Set_gauge PromV3ActiveClients (of_nat (v3_active_clients m)),
           Inc_by PromV2PacketsReceived (saturating_sub v2_rx (last_v2_rx m)),
           Inc_by PromV2PacketsSent (saturating_sub v2_tx (last_v2_tx m)),
           Set_gauge PromV2ActiveClients (of_nat (v2_active_clients m)),
           Inc_by PromV2HttpRequests (saturating_sub v2_http (last_v2_http m)),
           Inc_by PromRateLimitHits (saturating_sub limits (last_rate_limits m)),
           Inc_by PromDroppedPackets (saturating_sub pkts (last_dropped_pkts m)),
           Inc_by PromDroppedConnections (saturating_sub conns (last_dropped_conns m)),
           Set_gauge PromUptimeSeconds uptime], m'))"

text \<open>The server's counter behind each Prometheus counter, and its value at the last scrape.\<close>

primrec current_of :: "prom_counter \<Rightarrow> metrics \<Rightarrow> u64" where
  "current_of PromV3PacketsReceived = v3_packets_received"
| "current_of PromV3PacketsSent = v3_packets_sent"
| "current_of PromV3BytesReceived = v3_bytes_received"
| "current_of PromV3BytesSent = v3_bytes_sent"
| "current_of PromV2PacketsReceived = v2_packets_received"
| "current_of PromV2PacketsSent = v2_packets_sent"
| "current_of PromV2HttpRequests = v2_http_requests"
| "current_of PromRateLimitHits = rate_limit_hits"
| "current_of PromDroppedPackets = dropped_packets"
| "current_of PromDroppedConnections = dropped_connections"

primrec last_of :: "prom_counter \<Rightarrow> metrics \<Rightarrow> u64" where
  "last_of PromV3PacketsReceived = last_v3_rx"
| "last_of PromV3PacketsSent = last_v3_tx"
| "last_of PromV3BytesReceived = last_v3_bytes_rx"
| "last_of PromV3BytesSent = last_v3_bytes_tx"
| "last_of PromV2PacketsReceived = last_v2_rx"
| "last_of PromV2PacketsSent = last_v2_tx"
| "last_of PromV2HttpRequests = last_v2_http"
| "last_of PromRateLimitHits = last_rate_limits"
| "last_of PromDroppedPackets = last_dropped_pkts"
| "last_of PromDroppedConnections = last_dropped_conns"

fun inc_total :: "prom_counter \<Rightarrow> prom_call list \<Rightarrow> nat" where
  "inc_total c [] = 0"
| "inc_total c (Inc_by d v # cs) = (if d = c then unat v else 0) + inc_total c cs"
| "inc_total c (Set_gauge g v # cs) = inc_total c cs"

lemma inc_total_append: "inc_total c (xs @ ys) = inc_total c xs + inc_total c ys"
  by (induction c xs rule: inc_total.induct) auto

lemma update_prometheus_increment:
  "inc_total c (fst (update_prometheus up m)) = unat (current_of c m) - unat (last_of c m)"
  by (cases c) (simp_all add: update_prometheus_def Let_def unat_saturating_sub)

lemma update_prometheus_last: "last_of c (snd (update_prometheus up m)) = current_of c m"
  by (cases c) (simp_all add: update_prometheus_def Let_def)

lemma update_prometheus_current:
  "current_of c (snd (update_prometheus up m)) = current_of c m"
  by (cases c) (simp_all add: update_prometheus_def Let_def)

text \<open>
  A history of scrapes: each entry is the uptime and a snapshot of the counters at the moment of
  the scrape; the swap cells are those the previous scrape left. The result is all calls made on
  the Prometheus objects, in order.
\<close>

definition with_last_of :: "metrics \<Rightarrow> metrics \<Rightarrow> metrics" where
  "with_last_of m n = n\<lparr>
     last_v3_rx := last_v3_rx m, last_v3_tx := last_v3_tx m,
     last_v3_bytes_rx := last_v3_bytes_rx m, last_v3_bytes_tx := last_v3_bytes_tx m,
     last_v2_rx := last_v2_rx m, last_v2_tx := last_v2_tx m, last_v2_http := last_v2_http m,
     last_rate_limits := last_rate_limits m, last_dropped_pkts := last_dropped_pkts m,
     last_dropped_conns := last_dropped_conns m\<rparr>"

fun scrapes :: "metrics \<Rightarrow> (u64 \<times> metrics) list \<Rightarrow> prom_call list" where
  "scrapes m [] = []"
| "scrapes m ((up, n) # ns) =
     (let (calls, m') = update_prometheus up (with_last_of m n) in calls @ scrapes m' ns)"

lemma with_last_of [simp]:
  "last_of c (with_last_of m n) = last_of c m" "current_of c (with_last_of m n) = current_of c n"
  by (cases c; simp add: with_last_of_def)+

lemma scrapes_total:
  assumes "sorted (unat (last_of c m) # map (\<lambda>(up, n). unat (current_of c n)) ns)"
  shows "unat (last_of c m) + inc_total c (scrapes m ns) =
           last (unat (last_of c m) # map (\<lambda>(up, n). unat (current_of c n)) ns)"
  using assms
proof (induction m ns rule: scrapes.induct)
  case (1 m)
  then show ?case by simp
next
  case (2 m up n ns)
  obtain calls m' where u: "update_prometheus up (with_last_of m n) = (calls, m')"
    by (cases "update_prometheus up (with_last_of m n)")
  have calls: "inc_total c calls = unat (current_of c n) - unat (last_of c m)"
    using update_prometheus_increment [of c up "with_last_of m n"] by (simp add: u)
  have m': "last_of c m' = current_of c n"
    using update_prometheus_last [of c up "with_last_of m n"] by (simp add: u)
  have tail: "unat (last_of c m') + inc_total c (scrapes m' ns) =
      last (unat (last_of c m') # map (\<lambda>(up, n). unat (current_of c n)) ns)"
    using 2 by (simp add: u m')
  have split: "inc_total c (scrapes m ((up, n) # ns)) =
      unat (current_of c n) - unat (last_of c m) + inc_total c (scrapes m' ns)"
    by (simp add: u inc_total_append calls)
  have "unat (last_of c m) \<le> unat (current_of c n)" using 2 by simp
  with tail split have "unat (last_of c m) + inc_total c (scrapes m ((up, n) # ns)) =
      last (unat (current_of c n) # map (\<lambda>(up, n). unat (current_of c n)) ns)"
    unfolding m' by linarith
  then show ?case by simp
qed

lemma last_of_new [simp]: "last_of c metrics_new = 0"
  by (cases c) (simp_all add: metrics_new_def)

section \<open>Properties\<close>

text \<open>
  C37: A scrape never loses or repeats a count. Over any history of scrapes from a fresh server, as
  long as the server's counter has not gone down between scrapes, the total added to a Prometheus
  counter is the server's counter at the last scrape.
\<close>

theorem prometheus_totals:
  assumes "sorted (map (\<lambda>(up, n). unat (current_of c n)) history)"
  shows "inc_total c (scrapes metrics_new history) =
    last (0 # map (\<lambda>(up, n). unat (current_of c n)) history)"
  using scrapes_total [of c metrics_new history] assms by simp

theorem prometheus_totals_witness:
  "inc_total PromV3PacketsSent (scrapes metrics_new
     [(1, metrics_new\<lparr>v3_packets_sent := 5\<rparr>), (2, metrics_new\<lparr>v3_packets_sent := 9\<rparr>)]) = 9"
  using prometheus_totals [of PromV3PacketsSent
      "[(1, metrics_new\<lparr>v3_packets_sent := 5\<rparr>), (2, metrics_new\<lparr>v3_packets_sent := 9\<rparr>)]"]
  by (simp add: metrics_new_def)

text \<open>
  Batching is invisible. A flush, with all its tests for empty counters, moves every pending
  count into the metrics and leaves none behind, and a conditional flush, whether it happens or
  not, changes no total of published and pending counts, for both tunnel versions.
\<close>

theorem flush_transparent:
  "fst (flush (b, m)) = batch_new\<lparr>counter := counter b\<rparr> \<and>
   v3_counts (batch_new, snd (flush (b, m))) = v3_counts (b, m) \<and>
   v2_counts (batch_new, snd (flush (b, m))) = v2_counts (b, m) \<and>
   v3_counts (maybe_flush (b, m)) = v3_counts (b, m) \<and>
   v2_counts (maybe_flush (b, m)) = v2_counts (b, m)"
  by (simp add: flush_eq) (simp add: v3_counts_def v2_counts_def batch_new_def)

end
