(* ===== verification/Libraries.thy ===== *)
theory Libraries
  imports Prelude
begin

text \<open>
  The code outside the repository, as parameters of the model. Each record below lists the
  functions of one library that the server calls; every definition of the model that calls them
  takes the record as an argument. What the server relies on is stated as a predicate on the
  record and appears as a hypothesis of the theorems that need it. Functions that read the
  library's clock take the reading, a value of the type \<open>'i\<close>, as their last argument.

  At the end stands one concrete instance of every record, which the witnesses use to show that
  the hypotheses can hold.
\<close>

section \<open>udp\_relay\_core\<close>

text \<open>
  \<open>TunnelClient\<close> is \<open>'c\<close>, \<open>QualityAnalyzer\<close> is \<open>'q\<close>. The methods of a client that take
  \<open>&self\<close> return the client after its interior mutation.
\<close>

record ('c, 'q, 'i) relay_core =
  validate_address :: "socket_addr \<Rightarrow> bool"
  client_new :: "u64 \<Rightarrow> 'i \<Rightarrow> 'c"
  client_new_with_endpoint :: "socket_addr \<Rightarrow> u64 \<Rightarrow> 'i \<Rightarrow> 'c"
  remote_ep :: "'c \<Rightarrow> socket_addr option"
  is_timed_out :: "'c \<Rightarrow> 'i \<Rightarrow> bool"
  set_last_receive_tick_at :: "u64 \<Rightarrow> 'c \<Rightarrow> 'c"
  update_stats :: "nat \<Rightarrow> nat \<Rightarrow> u64 \<Rightarrow> 'c \<Rightarrow> 'c"
  current_timestamp :: "'i \<Rightarrow> u64"
  analyzer_new :: "'i \<Rightarrow> 'q"
  record_packet :: "bool \<Rightarrow> 'i \<Rightarrow> 'q \<Rightarrow> 'q"

text \<open>
  The constructors set the endpoint, and the field \<open>remote_ep\<close>, which is no atomic, cannot be
  written through a shared reference.
\<close>

definition endpoint_laws :: "('c, 'q, 'i) relay_core \<Rightarrow> bool" where
  "endpoint_laws R \<longleftrightarrow>
     (\<forall>s i. remote_ep R (client_new R s i) = None) \<and>
     (\<forall>a s i. remote_ep R (client_new_with_endpoint R a s i) = Some a) \<and>
     (\<forall>n c. remote_ep R (set_last_receive_tick_at R n c) = remote_ep R c) \<and>
     (\<forall>rx tx n c. remote_ep R (update_stats R rx tx n c) = remote_ep R c)"

text \<open>
  The timeout: a client is timed out when it was last heard of more than its timeout ago, so a
  client is not timed out at the instant it was created or heard of, and statistics of sent
  packets do not matter.
\<close>

definition timeout_laws :: "('c, 'q, 'i) relay_core \<Rightarrow> bool" where
  "timeout_laws R \<longleftrightarrow>
     (\<forall>s i. \<not> is_timed_out R (client_new R s i) i) \<and>
     (\<forall>a s i. \<not> is_timed_out R (client_new_with_endpoint R a s i) i) \<and>
     (\<forall>c i. \<not> is_timed_out R (set_last_receive_tick_at R (current_timestamp R i) c) i) \<and>
     (\<forall>rx tx n c i. is_timed_out R (update_stats R rx tx n c) i = is_timed_out R c i)"

lemma endpoint_lawsD:
  assumes "endpoint_laws R"
  shows "remote_ep R (client_new R s i) = None"
    and "remote_ep R (client_new_with_endpoint R a s i) = Some a"
    and "remote_ep R (set_last_receive_tick_at R n c) = remote_ep R c"
    and "remote_ep R (update_stats R rx tx n c) = remote_ep R c"
  using assms by (auto simp: endpoint_laws_def)

lemma timeout_lawsD:
  assumes "timeout_laws R"
  shows "\<not> is_timed_out R (client_new R s i) i"
    and "\<not> is_timed_out R (client_new_with_endpoint R a s i) i"
    and "\<not> is_timed_out R (set_last_receive_tick_at R (current_timestamp R i) c) i"
    and "is_timed_out R (update_stats R rx tx n c) i = is_timed_out R c i"
  using assms by (auto simp: timeout_laws_def)

section \<open>rater\<close>

text \<open>
  \<open>IpRateLimiterManager\<close> is \<open>'m\<close> and its \<open>RateLimiterConfig\<close> is \<open>'g\<close>. \<open>try_acquire\<close>
  returns whether a token was taken, and the manager afterwards.
\<close>

record ('m, 'g, 'i) rater =
  rater_config :: "u64 \<Rightarrow> u32 \<Rightarrow> u64 \<Rightarrow> 'g"
  with_cleanup_settings :: "'g \<Rightarrow> u64 \<Rightarrow> u64 \<Rightarrow> 'm"
  manager_try_acquire :: "'m \<Rightarrow> ip_addr \<Rightarrow> 'i \<Rightarrow> bool \<times> 'm"
  manager_clear :: "'m \<Rightarrow> 'm"
  manager_active_ips :: "'m \<Rightarrow> nat"

section \<open>Tokio semaphore and watch channel\<close>

record 's semaphore =
  semaphore_new :: "nat \<Rightarrow> 's"
  try_acquire_owned :: "'s \<Rightarrow> 's option"
  release_permit :: "'s \<Rightarrow> 's"

text \<open>A semaphore counts permits: \<open>avail\<close> is the count.\<close>

definition semaphore_laws :: "'s semaphore \<Rightarrow> ('s \<Rightarrow> nat) \<Rightarrow> bool" where
  "semaphore_laws S avail \<longleftrightarrow>
     (\<forall>n. avail (semaphore_new S n) = n) \<and>
     (\<forall>s. try_acquire_owned S s = None \<longleftrightarrow> avail s = 0) \<and>
     (\<forall>s s'. try_acquire_owned S s = Some s' \<longrightarrow> avail s = Suc (avail s')) \<and>
     (\<forall>s. avail (release_permit S s) = Suc (avail s))"

record 'w watch =
  watch_channel :: "bool \<Rightarrow> 'w"
  send_replace :: "bool \<Rightarrow> 'w \<Rightarrow> 'w"
  wait_for_true_ready :: "'w \<Rightarrow> bool"

text \<open>\<open>wait_for\<close> on any receiver of the channel completes when the current value satisfies it.\<close>

definition watch_laws :: "'w watch \<Rightarrow> bool" where
  "watch_laws W \<longleftrightarrow>
     (\<forall>b. wait_for_true_ready W (watch_channel W b) = b) \<and>
     (\<forall>b w. wait_for_true_ready W (send_replace W b w) = b)"

section \<open>A concrete instance\<close>

text \<open>
  Seconds are \<open>nat\<close>; a client is its endpoint, the tick it was last heard of, its timeout and its
  byte counts; an analyzer counts lost packets; a rate limiter manager is its capacity and the
  tokens every address has used.
\<close>

record sample_client =
  sc_ep :: "socket_addr option"
  sc_last :: u64
  sc_timeout :: u64
  sc_rx :: nat
  sc_tx :: nat

definition sample_core :: "(sample_client, nat, nat) relay_core" where
  "sample_core = \<lparr>
     validate_address = (\<lambda>a. sock_port a \<noteq> 0),
     client_new = (\<lambda>s i. \<lparr>sc_ep = None, sc_last = of_nat i, sc_timeout = s, sc_rx = 0, sc_tx = 0\<rparr>),
     client_new_with_endpoint =
       (\<lambda>a s i. \<lparr>sc_ep = Some a, sc_last = of_nat i, sc_timeout = s, sc_rx = 0, sc_tx = 0\<rparr>),
     remote_ep = sc_ep,
     is_timed_out = (\<lambda>c i. saturating_sub (of_nat i) (sc_last c) > sc_timeout c),
     set_last_receive_tick_at = (\<lambda>n c. c\<lparr>sc_last := n\<rparr>),
     update_stats = (\<lambda>rx tx n c. c\<lparr>sc_rx := sc_rx c + rx, sc_tx := sc_tx c + tx\<rparr>),
     current_timestamp = of_nat,
     analyzer_new = (\<lambda>_. 0),
     record_packet = (\<lambda>lost _ q. if lost then Suc q else q)\<rparr>"

lemma sample_endpoint_laws [simp]: "endpoint_laws sample_core"
  by (simp add: endpoint_laws_def sample_core_def)

lemma sample_timeout_laws [simp]: "timeout_laws sample_core"
  by (simp add: timeout_laws_def sample_core_def saturating_sub_def)

record sample_manager =
  sm_capacity :: nat
  sm_used :: "(ip_addr, nat) fmap"

definition sample_rater :: "(sample_manager, nat, nat) rater" where
  "sample_rater = \<lparr>
     rater_config = (\<lambda>a b c. unat b),
     with_cleanup_settings = (\<lambda>g a b. \<lparr>sm_capacity = g, sm_used = fmempty\<rparr>),
     manager_try_acquire = (\<lambda>m ip i.
       let used = (case fmlookup (sm_used m) ip of None \<Rightarrow> 0 | Some n \<Rightarrow> n)
       in if used < sm_capacity m then (True, m\<lparr>sm_used := fmupd ip (Suc used) (sm_used m)\<rparr>)
          else (False, m)),
     manager_clear = (\<lambda>m. m\<lparr>sm_used := fmempty\<rparr>),
     manager_active_ips = (\<lambda>m. dm_len (sm_used m))\<rparr>"

definition sample_semaphore :: "nat semaphore" where
  "sample_semaphore = \<lparr>
     semaphore_new = id,
     try_acquire_owned = (\<lambda>n. case n of 0 \<Rightarrow> None | Suc k \<Rightarrow> Some k),
     release_permit = Suc\<rparr>"

lemma sample_semaphore_laws [simp]: "semaphore_laws sample_semaphore id"
  by (auto simp: semaphore_laws_def sample_semaphore_def split: nat.splits)

definition sample_watch :: "bool watch" where
  "sample_watch = \<lparr>
     watch_channel = id,
     send_replace = (\<lambda>b _. b),
     wait_for_true_ready = id\<rparr>"

lemma sample_watch_laws [simp]: "watch_laws sample_watch"
  by (simp add: watch_laws_def sample_watch_def)

end
