(* ===== verification/Udp_Service.thy ===== *)
theory Udp_Service
  imports Metrics Libraries
begin

text \<open>
  What the three UDP services have in common: the environment of one handler call, the effects a
  handler accumulates, the events of a receive loop, and the contract the services share. The
  contract is a locale: a service panics of no event but those that are said to be fatal, keeps its
  invariant, and answers an event with at most one datagram that is no longer than the one received.
  A second locale is that of a service to which no event is fatal. A relay refines it: what it sends is
  the echo of a ping, or the received packet, unchanged, to a registered endpoint other than the
  sender.
\<close>

section \<open>Environment and effects\<close>

text \<open>
  The readings of the clocks during the call and the outcome of \<open>send_to\<close>. A handler runs as one
  atomic step, so one reading serves all its calls into the libraries.
\<close>

record 'i env =
  instant :: 'i
  uptime_secs :: u64
  send_succeeds :: "socket_addr \<Rightarrow> u8 list \<Rightarrow> bool"

type_synonym datagram = "socket_addr \<times> u8 list"

text \<open>
  The metrics all services share, the batch of the worker that runs the handler, and the calls of
  \<open>send_to\<close> made so far, failed ones included.
\<close>

record io =
  io_metrics :: metrics
  io_batch :: local_metrics_batch
  io_sent :: "datagram list"

definition sample_env :: "nat \<Rightarrow> nat env" where
  "sample_env t = \<lparr>instant = t, uptime_secs = of_nat t, send_succeeds = (\<lambda>_ _. True)\<rparr>"

definition io_new :: io where
  "io_new = \<lparr>io_metrics = metrics_new, io_batch = batch_new, io_sent = []\<rparr>"

definition io_send :: "socket_addr \<Rightarrow> u8 list \<Rightarrow> io \<Rightarrow> io" where
  "io_send dest payload io = io\<lparr>io_sent := io_sent io @ [(dest, payload)]\<rparr>"

definition io_flush :: "io \<Rightarrow> io" where
  "io_flush io = (let bm = flush (io_batch io, io_metrics io)
                  in io\<lparr>io_batch := fst bm, io_metrics := snd bm\<rparr>)"

definition io_maybe_flush :: "io \<Rightarrow> io" where
  "io_maybe_flush io = (let bm = maybe_flush (io_batch io, io_metrics io)
                        in io\<lparr>io_batch := fst bm, io_metrics := snd bm\<rparr>)"

definition io_counts_v3 :: "io \<Rightarrow> u64 \<times> u64 \<times> u64 \<times> u64" where
  "io_counts_v3 io = v3_counts (io_batch io, io_metrics io)"

definition io_counts_v2 :: "io \<Rightarrow> u64 \<times> u64 \<times> u64 \<times> u64" where
  "io_counts_v2 io = v2_counts (io_batch io, io_metrics io)"

lemma io_flush_frame [simp]:
  "io_sent (io_flush io) = io_sent io" "io_sent (io_maybe_flush io) = io_sent io"
  "io_counts_v3 (io_flush io) = io_counts_v3 io"
  "io_counts_v3 (io_maybe_flush io) = io_counts_v3 io"
  "io_counts_v2 (io_flush io) = io_counts_v2 io"
  "io_counts_v2 (io_maybe_flush io) = io_counts_v2 io"
  by (simp_all add: io_flush_def io_maybe_flush_def io_counts_v3_def io_counts_v2_def Let_def)

text \<open>The gauges are not touched by a flush.\<close>

lemma io_flush_gauges [simp]:
  "v3_active_clients (io_metrics (io_flush io)) = v3_active_clients (io_metrics io)"
  "v3_active_clients (io_metrics (io_maybe_flush io)) = v3_active_clients (io_metrics io)"
  "v2_active_clients (io_metrics (io_flush io)) = v2_active_clients (io_metrics io)"
  "v2_active_clients (io_metrics (io_maybe_flush io)) = v2_active_clients (io_metrics io)"
  by (simp_all add: io_flush_def io_maybe_flush_def maybe_flush_eq flush_eq Let_def)

lemma io_send_simps [simp]:
  "io_sent (io_send d p io) = io_sent io @ [(d, p)]"
  "io_metrics (io_send d p io) = io_metrics io"
  "io_batch (io_send d p io) = io_batch io"
  by (simp_all add: io_send_def)

lemma io_maybe_flush_batch:
  "batch_ok b \<Longrightarrow> one_packet b (io_batch io) \<Longrightarrow> batch_ok (io_batch (io_maybe_flush io))"
  using batch_step_ok [of b "io_batch io" "io_metrics io"]
  by (simp add: io_maybe_flush_def Let_def)

lemma io_flush_batch [simp]: "batch_ok (io_batch (io_flush io))"
  using batch_flush_ok [of "io_batch io" "io_metrics io"]
  by (simp add: io_flush_def Let_def)

text \<open>\<open>recv_from\<close>: the bytes read into the worker's buffer and their source, or an error.\<close>

datatype recv_result = Received "u8 list" socket_addr | Receive_Error

section \<open>Client tables\<close>

text \<open>The endpoint registered for each client id, if any.\<close>

definition ep_table ::
    "('c, 'q, 'i) relay_core \<Rightarrow> ('k, 'c) fmap \<Rightarrow> 'k \<Rightarrow> socket_addr option" where
  "ep_table R m = (\<lambda>k. Option.bind (fmlookup m k) (remote_ep R))"

lemma ep_table_upd [simp]: "ep_table R (fmupd k c m) = (ep_table R m)(k := remote_ep R c)"
  by (auto simp: ep_table_def)

lemma ep_table_modify:
  "(\<And>c. remote_ep R (f c) = remote_ep R c) \<Longrightarrow> ep_table R (dm_modify k f m) = ep_table R m"
proof
  fix j assume "\<And>c. remote_ep R (f c) = remote_ep R c"
  then show "ep_table R (dm_modify k f m) j = ep_table R m j"
    by (cases "fmlookup m j") (auto simp: ep_table_def dm.get_modify)
qed

lemma ep_table_retain:
  "ep_table R (dm_retain keep m) k =
     (case fmlookup m k of None \<Rightarrow> None | Some c \<Rightarrow> if keep k c then remote_ep R c else None)"
  by (auto simp: ep_table_def split: option.splits)

lemma ep_table_lookup [simp]:
  "fmlookup m k = Some c \<Longrightarrow> ep_table R m k = remote_ep R c"
  "fmlookup m k = None \<Longrightarrow> ep_table R m k = None"
  by (simp_all add: ep_table_def)

lemma ep_table_empty [simp]: "ep_table R fmempty = Map.empty"
  by (simp add: ep_table_def)

text \<open>The counters published in the metrics; what a handler records goes through its batch.\<close>

definition published :: "metrics \<Rightarrow> (u64 \<times> u64 \<times> u64 \<times> u64) \<times> (u64 \<times> u64 \<times> u64 \<times> u64)" where
  "published m =
     ((v3_packets_received m, v3_packets_sent m, v3_bytes_received m, v3_bytes_sent m),
      (v2_packets_received m, v2_packets_sent m, v2_bytes_received m, v2_bytes_sent m))"

section \<open>Abstract relay tables\<close>

text \<open>
  A table from client ids to endpoints, the verdict on the sender of a packet, the table after
  it, and the datagrams it makes the relay send.
\<close>

type_synonym 'k endpoint_table = "'k \<Rightarrow> socket_addr option"

datatype verdict = Known | Rebind | Register | Refuse

definition table_after :: "verdict \<Rightarrow> 'k endpoint_table \<Rightarrow> 'k \<Rightarrow> socket_addr \<Rightarrow> 'k endpoint_table" where
  "table_after v table sid src =
     (if v = Rebind \<or> v = Register then table(sid \<mapsto> src) else table)"

definition forwards ::
    "verdict \<Rightarrow> 'k endpoint_table \<Rightarrow> 'k \<Rightarrow> socket_addr \<Rightarrow> u8 list \<Rightarrow> datagram list" where
  "forwards v table rid src packet =
     (case table rid of
        Some ep \<Rightarrow> if v = Refuse \<or> ep = src then [] else [(ep, packet)]
      | None \<Rightarrow> [])"

text \<open>What a packet is, read off its header and its length.\<close>

datatype 'k packet_kind = Command | Invalid | Ping | Not_Ping | Data 'k 'k

text \<open>
  The effects of a handler call on a packet: the datagrams \<open>new\<close> are sent, the packet is counted
  as received in the batch \<open>b\<close>, every successful send is counted by \<open>rec\<close>, and nothing is
  published yet.
\<close>

definition record_sends ::
    "(u64 \<Rightarrow> local_metrics_batch \<Rightarrow> local_metrics_batch) \<Rightarrow> 'i env \<Rightarrow> datagram list
       \<Rightarrow> local_metrics_batch \<Rightarrow> local_metrics_batch" where
  "record_sends rec E new b =
     fold (\<lambda>(d, p) b. if send_succeeds E d p then rec (of_nat (length p)) b else b) new b"

definition handler_effect ::
    "(u64 \<Rightarrow> local_metrics_batch \<Rightarrow> local_metrics_batch) \<Rightarrow> 'i env \<Rightarrow> io \<Rightarrow> local_metrics_batch
       \<Rightarrow> datagram list \<Rightarrow> io \<Rightarrow> bool" where
  "handler_effect rec E io b new io' \<longleftrightarrow>
     io_sent io' = io_sent io @ new \<and>
     io_batch io' = record_sends rec E new b \<and>
     published (io_metrics io') = published (io_metrics io)"

lemma record_sends_Nil: "record_sends rec E [] b = b"
  by (simp add: record_sends_def)

lemma handler_effect_nothing [simp]: "handler_effect rec E io (io_batch io) [] io"
  by (simp add: handler_effect_def record_sends_Nil)

text \<open>The packet is counted before it is handled.\<close>

lemma handler_effect_counted:
  "handler_effect rec E (io_batch_update f io) (f (io_batch io)) new io' \<Longrightarrow>
     handler_effect rec E io (f (io_batch io)) new io'"
  by (simp add: handler_effect_def)

lemma record_sends_simps [simp]:
  "record_sends rec E [] b = b"
  "record_sends rec E [(d, p)] b =
     (if send_succeeds E d p then rec (of_nat (length p)) b else b)"
  by (simp_all add: record_sends_def)

definition count_sends :: "'i env \<Rightarrow> datagram list \<Rightarrow> counts \<Rightarrow> counts" where
  "count_sends E new n =
     fold (\<lambda>(d, p) n. if send_succeeds E d p then count_tx (length p) n else n) new n"

lemma counts_published:
  "published m' = published m \<Longrightarrow> v3_counts (b, m') = v3_counts (b, m)"
  "published m' = published m \<Longrightarrow> v2_counts (b, m') = v2_counts (b, m)"
  by (simp_all add: published_def v3_counts_def v2_counts_def)

section \<open>The contract of a UDP service\<close>

definition payload_bytes :: "datagram list \<Rightarrow> nat" where
  "payload_bytes ds = sum_list (map (\<lambda>(d, p). length p) ds)"

text \<open>The datagram an event delivers to the service, if any.\<close>

definition received_bytes :: "('e \<Rightarrow> recv_result option) \<Rightarrow> 'e list \<Rightarrow> nat" where
  "received_bytes rx es =
     sum_list (map (\<lambda>e. case rx e of Some (Received p src) \<Rightarrow> length p | _ \<Rightarrow> 0) es)"

definition answers :: "recv_result option \<Rightarrow> datagram list \<Rightarrow> bool" where
  "answers r new \<longleftrightarrow>
     new = [] \<or>
     (\<exists>d q p src. new = [(d, q)] \<and> r = Some (Received p src) \<and> length q \<le> length p)"

text \<open>
  A service that may die of an event, a panic of the process: \<open>fatal\<close> says which event that is in
  which state.
\<close>

locale fallible_service =
  fixes step :: "'e \<Rightarrow> 's \<Rightarrow> 's option"
    and rx :: "'e \<Rightarrow> recv_result option"
    and sent :: "'s \<Rightarrow> datagram list"
    and inv :: "'s \<Rightarrow> bool"
    and fatal :: "'e \<Rightarrow> 's \<Rightarrow> bool"
  assumes step_lives: "inv s \<Longrightarrow> \<not> fatal e s \<Longrightarrow> \<exists>s'. step e s = Some s' \<and> inv s'"
    and step_dies: "fatal e s \<Longrightarrow> step e s = None"
    and step_answers: "inv s \<Longrightarrow> step e s = Some s' \<Longrightarrow> \<exists>new. sent s' = sent s @ new \<and> answers (rx e) new"
begin

lemma step_inv: "inv s \<Longrightarrow> step e s = Some s' \<Longrightarrow> inv s'"
  using step_lives [of s e] step_dies [of e s] by fastforce

lemma run_inv:
  assumes "inv s" and "run_all step es s = Some s'"
  shows "inv s'"
  using assms(2,1) by (rule run_all_invariant) (rule step_inv)

lemma run_frame:
  assumes "\<And>e s s'. inv s \<Longrightarrow> step e s = Some s' \<Longrightarrow> f s' = f s"
  shows "inv s \<Longrightarrow> run_all step es s = Some s' \<Longrightarrow> f s' = f s"
proof (induction es arbitrary: s)
  case Nil
  then show ?case by simp
next
  case (Cons e es)
  then obtain s1 where s1: "step e s = Some s1" "run_all step es s1 = Some s'"
    by (auto simp: bind_eq_Some_conv)
  from Cons.IH [OF step_inv [OF Cons.prems(1) s1(1)] s1(2)] assms [OF Cons.prems(1) s1(1)]
  show ?case by simp
qed

lemma run_sent:
  "inv s \<Longrightarrow> run_all step es s = Some s' \<Longrightarrow>
     \<exists>new. sent s' = sent s @ new \<and> length new \<le> length es \<and>
           payload_bytes new \<le> received_bytes rx es"
proof (induction es arbitrary: s)
  case Nil
  then show ?case by (simp add: payload_bytes_def)
next
  case (Cons e es)
  then obtain s1 where s1: "step e s = Some s1" "run_all step es s1 = Some s'"
    by (auto simp: bind_eq_Some_conv)
  from Cons.IH [OF step_inv [OF Cons.prems(1) s1(1)] s1(2)] obtain new where new: "sent s' = sent s1 @ new"
    "length new \<le> length es" "payload_bytes new \<le> received_bytes rx es" by blast
  from step_answers [OF Cons.prems(1) s1(1)] obtain first where
    first: "sent s1 = sent s @ first" "answers (rx e) first" by blast
  have "length first \<le> 1" "payload_bytes first \<le> received_bytes rx [e]"
    using first(2) by (auto simp: answers_def payload_bytes_def received_bytes_def)
  with new first(1) show ?case
    by (intro exI [of _ "first @ new"]) (auto simp: payload_bytes_def received_bytes_def)
qed

end

text \<open>A service that never dies.\<close>

locale udp_service =
  fixes step :: "'e \<Rightarrow> 's \<Rightarrow> 's option"
    and rx :: "'e \<Rightarrow> recv_result option"
    and sent :: "'s \<Rightarrow> datagram list"
    and inv :: "'s \<Rightarrow> bool"
  assumes step_ok: "inv s \<Longrightarrow> \<exists>s'. step e s = Some s' \<and> inv s'"
    and step_replies: "inv s \<Longrightarrow> step e s = Some s' \<Longrightarrow> \<exists>new. sent s' = sent s @ new \<and> answers (rx e) new"
begin

lemma run_ok: "inv s \<Longrightarrow> \<exists>s'. run_all step es s = Some s' \<and> inv s'"
  by (rule run_all_total) (auto dest: step_ok)

end

sublocale udp_service \<subseteq> fallible_service step rx sent inv "\<lambda>e s. False"
  by unfold_locales (auto dest: step_ok step_replies)

section \<open>The contract of a relay\<close>

text \<open>
  A relayed datagram, seen from the packet \<open>p\<close> received from \<open>src\<close>: the twelve byte echo of a
  fifty byte ping goes back to the sender, everything else is the packet itself on its way to
  another endpoint.
\<close>

definition ping_echo :: "u8 list \<Rightarrow> socket_addr \<Rightarrow> datagram \<Rightarrow> bool" where
  "ping_echo p src d \<longleftrightarrow> length p = 50 \<and> d = (src, take 12 p)"

definition verbatim :: "u8 list \<Rightarrow> socket_addr \<Rightarrow> datagram \<Rightarrow> bool" where
  "verbatim p src d \<longleftrightarrow> snd d = p \<and> fst d \<noteq> src"

locale relay = udp_service step rx sent inv
  for step :: "'e \<Rightarrow> 's \<Rightarrow> 's option" and rx sent inv +
  fixes registered :: "'s \<Rightarrow> socket_addr \<Rightarrow> bool"
    and closed :: "'s \<Rightarrow> bool"
  assumes step_relays:
    "inv s \<Longrightarrow> step e s = Some s' \<Longrightarrow> sent s' = sent s @ [d] \<Longrightarrow> rx e = Some (Received p src) \<Longrightarrow>
       ping_echo p src d \<or> (verbatim p src d \<and> registered s' (fst d) \<and> \<not> closed s)"
begin

lemma run_origin:
  "inv s \<Longrightarrow> run_all step es s = Some s' \<Longrightarrow> d \<in> set (drop (length (sent s)) (sent s')) \<Longrightarrow>
     \<exists>e \<in> set es. \<exists>p src. rx e = Some (Received p src) \<and> (ping_echo p src d \<or> verbatim p src d)"
proof (induction es arbitrary: s)
  case Nil
  then show ?case by simp
next
  case (Cons e es)
  then obtain s1 where s1: "step e s = Some s1" "run_all step es s1 = Some s'"
    by (auto simp: bind_eq_Some_conv)
  with Cons.prems step_ok [of s e] have inv1: "inv s1" by auto
  from run_sent [OF inv1 s1(2)] obtain new where new: "sent s' = sent s1 @ new" by blast
  from step_answers [OF Cons.prems(1) s1(1)] obtain first where
    first: "sent s1 = sent s @ first" "answers (rx e) first" by blast
  from Cons.prems(3) new first have "d \<in> set first \<or> d \<in> set new" by simp
  then show ?case
  proof
    assume "d \<in> set new"
    with new have "d \<in> set (drop (length (sent s1)) (sent s'))" by simp
    from Cons.IH [OF inv1 s1(2) this] show ?thesis by auto
  next
    assume "d \<in> set first"
    with first obtain p src where e: "rx e = Some (Received p src)" "sent s1 = sent s @ [d]"
      by (auto simp: answers_def)
    from step_relays [OF Cons.prems(1) s1(1) e(2,1)] e(1) show ?thesis by auto
  qed
qed

lemma closed_only_pings:
  assumes "inv s" and "closed s" and "step e s = Some s'" and "rx e = Some (Received p src)"
  shows "sent s' = sent s \<or> sent s' = sent s @ [(src, take 12 p)]"
proof -
  from step_answers [OF assms(1,3)] obtain new where
    new: "sent s' = sent s @ new" "answers (rx e) new" by blast
  show ?thesis
  proof (cases "new = []")
    case True
    with new(1) show ?thesis by simp
  next
    case False
    with new(2) obtain d where "new = [d]" by (auto simp: answers_def)
    with step_relays [OF assms(1,3) _ assms(4)] assms(2) new(1) show ?thesis
      by (auto simp: ping_echo_def)
  qed
qed

end

end
