(* ===== verification/Rate_Limiter.thy ===== *)
theory Rate_Limiter
  imports Libraries
begin

text \<open>
  \<open>src/rate_limiter.rs\<close>: the two wrappers around the token bucket manager of the \<open>rater\<close> crate.
  Both limit attempts per source address; only the request limiter can be reset.
\<close>

record 'm connection_rate_limiter =
  conn_manager :: 'm

record 'm rate_limiter =
  req_manager :: 'm

definition connection_rate_limiter_new ::
    "('m, 'g, 'i) rater \<Rightarrow> u32 \<Rightarrow> 'm connection_rate_limiter" where
  "connection_rate_limiter_new L max_per_ip =
     (let config = rater_config L (ucast max_per_ip) max_per_ip 60000
      in \<lparr>conn_manager = with_cleanup_settings L config 60000 300000\<rparr>)"

definition try_acquire ::
    "('m, 'g, 'i) rater \<Rightarrow> 'm connection_rate_limiter \<Rightarrow> ip_addr \<Rightarrow> 'i
       \<Rightarrow> bool \<times> 'm connection_rate_limiter" where
  "try_acquire L l ip now =
     (let (ok, m) = manager_try_acquire L (conn_manager l) ip now
      in (ok, l\<lparr>conn_manager := m\<rparr>))"

definition get_active_ip_count :: "('m, 'g, 'i) rater \<Rightarrow> 'm connection_rate_limiter \<Rightarrow> nat" where
  "get_active_ip_count L l = manager_active_ips L (conn_manager l)"

definition rate_limiter_new :: "('m, 'g, 'i) rater \<Rightarrow> u64 \<Rightarrow> u32 \<Rightarrow> 'm rate_limiter" where
  "rate_limiter_new L window_seconds max_per_ip =
     (let config = rater_config L (ucast max_per_ip) max_per_ip (window_seconds * 1000)
      in \<lparr>req_manager =
            with_cleanup_settings L config (window_seconds * 1000) (window_seconds * 5000)\<rparr>)"

definition check_and_increment ::
    "('m, 'g, 'i) rater \<Rightarrow> 'm rate_limiter \<Rightarrow> ip_addr \<Rightarrow> 'i \<Rightarrow> bool \<times> 'm rate_limiter" where
  "check_and_increment L l ip now =
     (let (ok, m) = manager_try_acquire L (req_manager l) ip now
      in (ok, l\<lparr>req_manager := m\<rparr>))"

definition reset :: "('m, 'g, 'i) rater \<Rightarrow> 'm rate_limiter \<Rightarrow> 'm rate_limiter" where
  "reset L l = l\<lparr>req_manager := manager_clear L (req_manager l)\<rparr>"

end
