(* ===== verification/Rust_Strings.thy ===== *)
theory Rust_Strings
  imports Prelude
begin

text \<open>
  The string operations of the Rust standard library that the server uses. A Rust string is its
  UTF-8 bytes, and an Isabelle \<open>char\<close> is a byte, so a Rust string is a \<open>string\<close>. Here are
  \<open>split\<close> on a character, \<open>starts_with\<close>, \<open>strip_prefix\<close>, \<open>trim\<close>, \<open>replace\<close> of a
  character by nothing, and the decimal printing and parsing of integers, with the round trips
  between printing and parsing and between joining and splitting.
\<close>

section \<open>Splitting and prefixes\<close>

text \<open>\<open>s.split(c)\<close>: never the empty list; \<open>"".split(c)\<close> yields one empty piece.\<close>

fun split_on :: "char \<Rightarrow> string \<Rightarrow> string list" where
  "split_on c [] = [[]]"
| "split_on c (x # xs) =
     (if x = c then [] # split_on c xs
      else (case split_on c xs of [] \<Rightarrow> [[x]] | w # ws \<Rightarrow> (x # w) # ws))"

fun join_with :: "string \<Rightarrow> string list \<Rightarrow> string" where
  "join_with sep [] = []"
| "join_with sep [w] = w"
| "join_with sep (w # v # ws) = w @ sep @ join_with sep (v # ws)"

definition starts_with :: "string \<Rightarrow> string \<Rightarrow> bool" where
  "starts_with s p = (take (length p) s = p)"

definition strip_prefix :: "string \<Rightarrow> string \<Rightarrow> string option" where
  "strip_prefix s p = (if starts_with s p then Some (drop (length p) s) else None)"

lemma split_on_not_Nil [simp]: "split_on c s \<noteq> []"
  by (induction s) (auto split: list.splits)

lemma split_on_no_sep: "c \<notin> set s \<Longrightarrow> split_on c s = [s]"
  by (induction s) auto

lemma split_on_append_sep: "c \<notin> set w \<Longrightarrow> split_on c (w @ c # s) = w # split_on c s"
  by (induction w) auto

lemma split_on_pieces: "w \<in> set (split_on c s) \<Longrightarrow> c \<notin> set w"
  by (induction s arbitrary: w) (auto split: if_splits list.splits)

lemma split_on_join_with:
  "ws \<noteq> [] \<Longrightarrow> \<forall>w \<in> set ws. c \<notin> set w \<Longrightarrow> split_on c (join_with [c] ws) = ws"
proof (induction "[c]" ws rule: join_with.induct)
  case (3 w v ws)
  then show ?case by (simp add: split_on_append_sep)
qed (auto simp: split_on_no_sep)

lemma starts_with_append [simp]: "starts_with (p @ s) p"
  by (simp add: starts_with_def)

lemma strip_prefix_append [simp]: "strip_prefix (p @ s) p = Some s"
  by (simp add: strip_prefix_def)

lemma starts_withD: "starts_with s p \<Longrightarrow> \<exists>r. s = p @ r"
  unfolding starts_with_def by (metis append_take_drop_id)

section \<open>Trimming\<close>

text \<open>
  \<open>str::trim\<close> removes the characters with the Unicode property White\_Space from both ends. On
  UTF-8 bytes these are the sequences below (U+0009 to U+000D, U+0020, U+0085, U+00A0, U+1680,
  U+2000 to U+200A, U+2028, U+2029, U+202F, U+205F, U+3000). UTF-8 is self-synchronising, so such
  a sequence at either end of a valid string is that character.
\<close>

definition white_space :: "string list" where
  "white_space =
     map (\<lambda>n. [char_of (n :: nat)]) [9, 10, 11, 12, 13, 32]
     @ map (map (char_of :: nat \<Rightarrow> char))
        [[0xC2, 0x85], [0xC2, 0xA0], [0xE1, 0x9A, 0x80], [0xE2, 0x80, 0xA8], [0xE2, 0x80, 0xA9],
         [0xE2, 0x80, 0xAF], [0xE2, 0x81, 0x9F], [0xE3, 0x80, 0x80]]
     @ map (\<lambda>n. map (char_of :: nat \<Rightarrow> char) [0xE2, 0x80, n]) [0x80..<0x8B]"

lemma white_space_nonempty: "w \<in> set white_space \<Longrightarrow> w \<noteq> []"
  by (auto simp: white_space_def)

function trim_start :: "string \<Rightarrow> string" where
  "trim_start s =
     (case find (starts_with s) white_space of
        None \<Rightarrow> s
      | Some w \<Rightarrow> trim_start (drop (length w) s))"
  by pat_completeness auto
termination
proof (relation "measure length")
  fix s w
  assume "find (starts_with s) white_space = Some w"
  then have "starts_with s w" "w \<noteq> []"
    by (auto simp: find_Some_iff dest: white_space_nonempty [OF nth_mem])
  moreover from this have "s \<noteq> []" by (auto simp: starts_with_def)
  ultimately show "(drop (length w) s, s) \<in> measure length" by simp
qed simp

declare trim_start.simps [simp del]

definition ends_with :: "string \<Rightarrow> string \<Rightarrow> bool" where
  "ends_with s p = starts_with (rev s) (rev p)"

function trim_end :: "string \<Rightarrow> string" where
  "trim_end s =
     (case find (ends_with s) white_space of
        None \<Rightarrow> s
      | Some w \<Rightarrow> trim_end (take (length s - length w) s))"
  by pat_completeness auto
termination
proof (relation "measure length")
  fix s w
  assume "find (ends_with s) white_space = Some w"
  then have "ends_with s w" "w \<noteq> []"
    by (auto simp: find_Some_iff dest: white_space_nonempty [OF nth_mem])
  moreover from this have "s \<noteq> []" by (auto simp: ends_with_def starts_with_def)
  ultimately show "(take (length s - length w) s, s) \<in> measure length" by simp
qed simp

declare trim_end.simps [simp del]

definition trim :: "string \<Rightarrow> string" where
  "trim s = trim_end (trim_start s)"

definition remove_char :: "char \<Rightarrow> string \<Rightarrow> string" where
  "remove_char c s = filter (\<lambda>x. x \<noteq> c) s"

lemma set_trim_start: "set (trim_start s) \<subseteq> set s"
proof (induction s rule: trim_start.induct)
  case (1 s)
  show ?case
  proof (cases "find (starts_with s) white_space")
    case None
    then show ?thesis by (simp add: trim_start.simps [of s])
  next
    case (Some w)
    with 1 have "set (trim_start (drop (length w) s)) \<subseteq> set (drop (length w) s)" by blast
    with Some show ?thesis
      by (auto simp: trim_start.simps [of s] dest: in_set_dropD)
  qed
qed

lemma set_trim_end: "set (trim_end s) \<subseteq> set s"
proof (induction s rule: trim_end.induct)
  case (1 s)
  show ?case
  proof (cases "find (ends_with s) white_space")
    case None
    then show ?thesis by (simp add: trim_end.simps [of s])
  next
    case (Some w)
    with 1 have "set (trim_end (take (length s - length w) s))
        \<subseteq> set (take (length s - length w) s)" by blast
    with Some show ?thesis
      by (auto simp: trim_end.simps [of s] dest: in_set_takeD)
  qed
qed

lemma set_trim: "set (trim s) \<subseteq> set s"
  using set_trim_start set_trim_end unfolding trim_def by blast

lemma trim_end_no_white: "w \<in> set white_space \<Longrightarrow> \<not> ends_with (trim_end s) w"
proof (induction s rule: trim_end.induct)
  case (1 s)
  show ?case
  proof (cases "find (ends_with s) white_space")
    case None
    then have "trim_end s = s" by (simp add: trim_end.simps [of s])
    with None 1 show ?thesis by (auto simp: find_None_iff)
  next
    case (Some v)
    with 1 show ?thesis by (simp add: trim_end.simps [of s])
  qed
qed

section \<open>Decimal numbers\<close>

fun nat_to_string :: "nat \<Rightarrow> string" where
  "nat_to_string n =
     (if n < 10 then [char_of (48 + n)] else nat_to_string (n div 10) @ [char_of (48 + n mod 10)])"

declare nat_to_string.simps [simp del]

definition digit_val :: "char \<Rightarrow> nat option" where
  "digit_val c = (let n = of_char c in if 48 \<le> n \<and> n \<le> 57 then Some (n - 48) else None)"

text \<open>
  The loop of \<open>from_str_radix\<close>: every digit is multiplied in with a check, so the first overflow
  is an error, as is the first character that is no digit.
\<close>

fun parse_digits :: "nat \<Rightarrow> nat \<Rightarrow> string \<Rightarrow> nat option" where
  "parse_digits mx acc [] = Some acc"
| "parse_digits mx acc (c # cs) =
     (case digit_val c of
        None \<Rightarrow> None
      | Some d \<Rightarrow> if acc * 10 + d > mx then None else parse_digits mx (acc * 10 + d) cs)"

text \<open>
  \<open>parse::<usize>\<close> (64 bits) takes a leading plus sign, \<open>parse::<i16>\<close> either sign; a lone sign
  and the empty string are errors.
\<close>

definition parse_usize :: "string \<Rightarrow> nat option" where
  "parse_usize s =
     (case s of
        [] \<Rightarrow> None
      | [c] \<Rightarrow> parse_digits (2 ^ 64 - 1) 0 [c]
      | c # cs \<Rightarrow> if c = CHR ''+'' then parse_digits (2 ^ 64 - 1) 0 cs
                 else parse_digits (2 ^ 64 - 1) 0 (c # cs))"

definition parse_i16 :: "string \<Rightarrow> i16 option" where
  "parse_i16 s =
     (case s of
        [] \<Rightarrow> None
      | [c] \<Rightarrow> map_option of_nat (parse_digits 32767 0 [c])
      | c # cs \<Rightarrow>
          if c = CHR ''+'' then map_option of_nat (parse_digits 32767 0 cs)
          else if c = CHR ''-'' then map_option (\<lambda>n. - of_nat n) (parse_digits 32768 0 cs)
          else map_option of_nat (parse_digits 32767 0 (c # cs)))"

definition i16_to_string :: "i16 \<Rightarrow> string" where
  "i16_to_string w =
     (if sint w < 0 then CHR ''-'' # nat_to_string (nat (- sint w))
      else nat_to_string (nat (sint w)))"

lemma digit_val_digit [simp]: "d < 10 \<Longrightarrow> digit_val (char_of (48 + d)) = Some d"
  by (simp add: digit_val_def Let_def)

lemma nat_to_string_not_Nil [simp]: "nat_to_string n \<noteq> []"
  by (subst nat_to_string.simps) simp

lemma nat_to_string_digits: "c \<in> set (nat_to_string n) \<Longrightarrow> digit_val c \<noteq> None"
proof (induction n rule: nat_to_string.induct)
  case (1 n)
  then show ?case
    by (auto simp: nat_to_string.simps [of n] split: if_splits)
qed

lemma parse_digits_append:
  "parse_digits mx acc (xs @ ys) = Option.bind (parse_digits mx acc xs) (\<lambda>a. parse_digits mx a ys)"
  by (induction mx acc xs rule: parse_digits.induct) (auto split: option.splits)

lemma parse_nat_to_string: "n \<le> mx \<Longrightarrow> parse_digits mx 0 (nat_to_string n) = Some n"
proof (induction n rule: nat_to_string.induct)
  case (1 n)
  show ?case
  proof (cases "n < 10")
    case True
    with 1 show ?thesis by (simp add: nat_to_string.simps [of n])
  next
    case False
    with 1 have "parse_digits mx 0 (nat_to_string (n div 10)) = Some (n div 10)" by simp
    with False 1 show ?thesis
      by (simp add: nat_to_string.simps [of n] parse_digits_append)
  qed
qed

lemma digit_val_sign [simp]:
  "digit_val (CHR ''+'') = None" "digit_val (CHR ''-'') = None"
  "digit_val (CHR ''&'') = None" "digit_val (CHR '','') = None"
  by (simp_all add: digit_val_def)

lemma nat_to_string_no_sign [simp]:
  "CHR ''+'' \<notin> set (nat_to_string n)" "CHR ''-'' \<notin> set (nat_to_string n)"
  "CHR ''&'' \<notin> set (nat_to_string n)" "CHR '','' \<notin> set (nat_to_string n)"
  using nat_to_string_digits by force+

lemma parse_usize_no_plus:
  assumes "s \<noteq> []" and "CHR ''+'' \<notin> set s"
  shows "parse_usize s = parse_digits (2 ^ 64 - 1) 0 s"
  using assms by (auto simp: parse_usize_def split: list.splits)

lemma parse_usize_round_trip: "n < 2 ^ 64 \<Longrightarrow> parse_usize (nat_to_string n) = Some n"
  by (subst parse_usize_no_plus) (auto intro: parse_nat_to_string)

lemma parse_i16_unsigned:
  assumes "s \<noteq> []" and "CHR ''+'' \<notin> set s" and "CHR ''-'' \<notin> set s"
  shows "parse_i16 s = map_option of_nat (parse_digits 32767 0 s)"
  using assms by (auto simp: parse_i16_def split: list.splits)

lemma parse_i16_negative:
  assumes "s \<noteq> []"
  shows "parse_i16 (CHR ''-'' # s) = map_option (\<lambda>n. - of_nat n) (parse_digits 32768 0 s)"
  using assms by (auto simp: parse_i16_def split: list.splits)

lemma i16_range: "- 32768 \<le> sint (w :: i16)" "sint (w :: i16) \<le> 32767"
  using sint_ge [of w] sint_lt [of w] by simp_all

lemma i16_round_trip: "parse_i16 (i16_to_string w) = Some w"
proof (cases "sint w < 0")
  case True
  then have "nat (- sint w) \<le> 32768" using i16_range [of w] by simp
  then have "parse_digits 32768 0 (nat_to_string (nat (- sint w))) = Some (nat (- sint w))"
    by (rule parse_nat_to_string)
  with True show ?thesis
    by (simp add: i16_to_string_def parse_i16_negative)
next
  case False
  then have "nat (sint w) \<le> 32767" using i16_range [of w] by simp
  then have "parse_digits 32767 0 (nat_to_string (nat (sint w))) = Some (nat (sint w))"
    by (rule parse_nat_to_string)
  with False show ?thesis
    by (simp add: i16_to_string_def parse_i16_unsigned)
qed

lemma i16_to_string_no_comma: "CHR '','' \<notin> set (i16_to_string w)"
  by (simp add: i16_to_string_def)

lemma parse_digits_bound: "acc \<le> mx \<Longrightarrow> parse_digits mx acc s = Some n \<Longrightarrow> n \<le> mx"
  by (induction mx acc s rule: parse_digits.induct) (auto split: option.splits if_splits)

end
