(* ===== verification/Config.thy ===== *)
theory Config
  imports Rust_Strings
begin

text \<open>
  \<open>src/config.rs\<close> and the argument record of \<open>src/main.rs\<close>: the validation that turns command
  line arguments into a server configuration. An early \<open>bail!\<close> is an \<open>Inl\<close>. A \<open>usize\<close> is a
  \<open>nat\<close>.
\<close>

record args =
  arg_port :: u16
  arg_portv2 :: u16
  arg_name :: string
  arg_maxclients :: nat
  arg_nomaster :: bool
  arg_masterpw :: string
  arg_maintpw :: string
  arg_master :: string
  arg_iplimit :: nat
  arg_iplimitv2 :: nat
  arg_nop2p :: bool
  arg_workers :: nat
  arg_metrics_port :: u16
  arg_log_level :: string
  arg_log_format :: string

text \<open>The defaults the argument parser fills in.\<close>

definition default_args :: args where
  "default_args = \<lparr>
     arg_port = 50001, arg_portv2 = 50000, arg_name = ''Unnamed server'',
     arg_maxclients = 200, arg_nomaster = False, arg_masterpw = '''',
     arg_maintpw = ''test123456'', arg_master = ''http://cncnet.org/master-announce'',
     arg_iplimit = 8, arg_iplimitv2 = 4, arg_nop2p = False, arg_workers = 0,
     arg_metrics_port = 9090, arg_log_level = ''info'', arg_log_format = ''pretty''\<rparr>"

record server_config =
  tunnel_port :: u16
  tunnel_v2_port :: u16
  server_name :: string
  max_clients :: nat
  no_master_announce :: bool
  master_password :: string
  maintenance_password :: string
  master_server_url :: string
  ip_limit :: nat
  ip_limit_v2 :: nat
  no_p2p :: bool
  metrics_port :: u16

datatype config_error = PortRequiresRoot u16 | MaxClientsTooSmall | MaxClientsTooLarge

primrec config_error_message :: "config_error \<Rightarrow> string" where
  "config_error_message (PortRequiresRoot p) =
     ''Port '' @ nat_to_string (unat p)
     @ '' requires root privileges. Use a port > 1024 or 0 for auto''"
| "config_error_message MaxClientsTooSmall = ''Max clients must be at least 2''"
| "config_error_message MaxClientsTooLarge = ''Max clients cannot exceed 10000 for safety''"

text \<open>\<open>max(1).min(100)\<close>\<close>

definition clamp_limit :: "nat \<Rightarrow> nat" where
  "clamp_limit n = min (max n 1) 100"

lemma clamp_limit_bounds [simp]: "Suc 0 \<le> clamp_limit n" "clamp_limit n \<le> 100"
  by (simp_all add: clamp_limit_def)

lemma clamp_limit_id: "clamp_limit n = n \<longleftrightarrow> 1 \<le> n \<and> n \<le> 100"
  by (auto simp: clamp_limit_def)

definition from_args :: "args \<Rightarrow> config_error + server_config" where
  "from_args a =
     (if arg_port a \<le> 1024 \<and> arg_port a \<noteq> 0 then Inl (PortRequiresRoot (arg_port a))
      else if arg_portv2 a \<le> 1024 \<and> arg_portv2 a \<noteq> 0 then Inl (PortRequiresRoot (arg_portv2 a))
      else if arg_maxclients a < 2 then Inl MaxClientsTooSmall
      else if arg_maxclients a > 10000 then Inl MaxClientsTooLarge
      else Inr \<lparr>
        tunnel_port = arg_port a,
        tunnel_v2_port = arg_portv2 a,
        server_name = trim (remove_char (CHR '';'') (arg_name a)),
        max_clients = arg_maxclients a,
        no_master_announce = arg_nomaster a,
        master_password = arg_masterpw a,
        maintenance_password = arg_maintpw a,
        master_server_url = arg_master a,
        ip_limit = clamp_limit (arg_iplimit a),
        ip_limit_v2 = clamp_limit (arg_iplimitv2 a),
        no_p2p = arg_nop2p a,
        metrics_port = arg_metrics_port a\<rparr>)"

text \<open>What every part of the server relies on in its configuration.\<close>

definition config_ok :: "server_config \<Rightarrow> bool" where
  "config_ok c \<longleftrightarrow>
     (tunnel_port c = 0 \<or> 1024 < tunnel_port c) \<and>
     (tunnel_v2_port c = 0 \<or> 1024 < tunnel_v2_port c) \<and>
     2 \<le> max_clients c \<and> max_clients c \<le> 10000 \<and>
     1 \<le> ip_limit c \<and> ip_limit c \<le> 100 \<and> 1 \<le> ip_limit_v2 c \<and> ip_limit_v2 c \<le> 100 \<and>
     CHR '';'' \<notin> set (server_name c) \<and>
     list_all (\<lambda>w. \<not> ends_with (server_name c) w) white_space"

lemma trimmed_name:
  "CHR '';'' \<notin> set (trim (remove_char (CHR '';'') s))"
  "list_all (\<lambda>w. \<not> ends_with (trim s) w) white_space"
proof -
  have "CHR '';'' \<notin> set (remove_char (CHR '';'') s)" by (simp add: remove_char_def)
  then show "CHR '';'' \<notin> set (trim (remove_char (CHR '';'') s))"
    using set_trim by blast
  show "list_all (\<lambda>w. \<not> ends_with (trim s) w) white_space"
    by (simp add: list_all_iff trim_def trim_end_no_white)
qed

lemma from_args_config_ok:
  assumes "from_args a = Inr c"
  shows "config_ok c"
proof -
  from assms have "\<not> (arg_port a \<le> 1024 \<and> arg_port a \<noteq> 0)"
    "\<not> (arg_portv2 a \<le> 1024 \<and> arg_portv2 a \<noteq> 0)"
    "2 \<le> arg_maxclients a" "arg_maxclients a \<le> 10000"
    by (simp_all add: from_args_def split: if_splits)
  with assms show ?thesis
    by (auto simp: from_args_def config_ok_def trimmed_name clamp_limit_bounds)
qed

lemma from_args_error_iff:
  "(\<exists>e. from_args a = Inl e) \<longleftrightarrow>
     (arg_port a \<noteq> 0 \<and> arg_port a \<le> 1024) \<or> (arg_portv2 a \<noteq> 0 \<and> arg_portv2 a \<le> 1024) \<or>
     arg_maxclients a < 2 \<or> 10000 < arg_maxclients a"
  by (auto simp: from_args_def)

text \<open>
  C40: Configuration validation. Whatever arguments are given, \<open>from_args\<close> either fails, and then
  only because a tunnel port lies in 1 to 1024 or the client limit lies outside 2 to 10000, or it
  yields a configuration with a tunnel port of 0 or above 1024 and all limits within their bounds:
  the per address limits are the arguments' own exactly if these lie in 1 to 100, the name is the
  argument without semicolons, trimmed, and holds no semicolon and ends in no white space, and
  every other field is the argument's own.
\<close>

theorem from_args_validates:
  "case from_args a of
     Inl e \<Rightarrow> (arg_port a \<noteq> 0 \<and> arg_port a \<le> 1024) \<or> (arg_portv2 a \<noteq> 0 \<and> arg_portv2 a \<le> 1024) \<or>
              arg_maxclients a < 2 \<or> 10000 < arg_maxclients a
   | Inr c \<Rightarrow> config_ok c \<and> tunnel_port c = arg_port a \<and> tunnel_v2_port c = arg_portv2 a \<and>
              metrics_port c = arg_metrics_port a \<and> max_clients c = arg_maxclients a \<and>
              no_p2p c = arg_nop2p a \<and> no_master_announce c = arg_nomaster a \<and>
              master_password c = arg_masterpw a \<and> maintenance_password c = arg_maintpw a \<and>
              master_server_url c = arg_master a \<and>
              server_name c = trim (remove_char (CHR '';'') (arg_name a)) \<and>
              (ip_limit c = arg_iplimit a \<longleftrightarrow> 1 \<le> arg_iplimit a \<and> arg_iplimit a \<le> 100) \<and>
              (ip_limit_v2 c = arg_iplimitv2 a \<longleftrightarrow> 1 \<le> arg_iplimitv2 a \<and> arg_iplimitv2 a \<le> 100)"
proof (cases "from_args a")
  case (Inl e)
  then show ?thesis using from_args_error_iff [of a] by auto
next
  case (Inr c)
  then have "config_ok c" by (rule from_args_config_ok)
  with Inr from_args_error_iff [of a] show ?thesis
    by (auto simp: from_args_def clamp_limit_id split: if_splits)
qed

end
