(* ===== verification/Announce.thy ===== *)
theory Announce
  imports Config
begin

text \<open>
  The query string of the announcement that both tunnels send to the master server, and the way
  the version 2 tunnel reads one parameter off a query string. The percent encoding of the
  \<open>urlencoding\<close> crate is a parameter.
\<close>

definition announce_query ::
    "(string \<Rightarrow> string) \<Rightarrow> nat \<Rightarrow> server_config \<Rightarrow> u16 \<Rightarrow> nat \<Rightarrow> bool \<Rightarrow> string" where
  "announce_query encode version config port clients maintenance =
     ''version='' @ nat_to_string version @ ''&name='' @ encode (server_name config)
     @ ''&port='' @ nat_to_string (unat port) @ ''&clients='' @ nat_to_string clients
     @ ''&maxclients='' @ nat_to_string (max_clients config)
     @ ''&masterpw='' @ encode (master_password config)
     @ ''&maintenance='' @ (if maintenance then ''1'' else ''0'')"

text \<open>\<open>split('&').find(starts_with(key)).and_then(strip_prefix(key))\<close>\<close>

definition query_param :: "string \<Rightarrow> string \<Rightarrow> string option" where
  "query_param key q =
     Option.bind (find (\<lambda>p. starts_with p key) (split_on (CHR ''&'') q)) (\<lambda>p. strip_prefix p key)"

lemma announce_query_pieces:
  assumes "\<And>s. CHR ''&'' \<notin> set (encode s)"
  shows "split_on (CHR ''&'') (announce_query encode v c port n mm) =
    [''version='' @ nat_to_string v, ''name='' @ encode (server_name c),
     ''port='' @ nat_to_string (unat port), ''clients='' @ nat_to_string n,
     ''maxclients='' @ nat_to_string (max_clients c), ''masterpw='' @ encode (master_password c),
     ''maintenance='' @ (if mm then ''1'' else ''0'')]" (is "_ = ?ws")
proof -
  have "announce_query encode v c port n mm = join_with [CHR ''&''] ?ws"
    by (simp add: announce_query_def)
  moreover have "\<forall>w \<in> set ?ws. CHR ''&'' \<notin> set w"
    using assms by simp
  ultimately show ?thesis by (simp only: split_on_join_with list.distinct not_False_eq_True)
qed

text \<open>
  The announcement. Whatever the server's name and passwords are, a reader who splits the
  announced query at ampersands finds the port, the number of clients, the client limit and the
  maintenance flag the server put in, and the encoded name, provided the encoding never yields an
  ampersand. The number read back is the number of clients.
\<close>

theorem announce_round_trip:
  assumes "\<And>s. CHR ''&'' \<notin> set (encode s)" and "clients < 2 ^ 64"
  shows "query_param ''name='' (announce_query encode v c port clients mm) = Some (encode (server_name c)) \<and>
    query_param ''port='' (announce_query encode v c port clients mm) = Some (nat_to_string (unat port)) \<and>
    Option.bind (query_param ''clients='' (announce_query encode v c port clients mm)) parse_usize =
      Some clients \<and>
    query_param ''maxclients='' (announce_query encode v c port clients mm) =
      Some (nat_to_string (max_clients c)) \<and>
    query_param ''maintenance='' (announce_query encode v c port clients mm) =
      Some (if mm then ''1'' else ''0'')"
  using assms(2)
  by (simp add: query_param_def announce_query_pieces [OF assms(1)] starts_with_def
      strip_prefix_def parse_usize_round_trip)


definition sample_config :: server_config where
  "sample_config = \<lparr>
     tunnel_port = 50001, tunnel_v2_port = 50000, server_name = ''A & B'', max_clients = 2,
     no_master_announce = False, master_password = '''', maintenance_password = ''pw'',
     master_server_url = ''http://m'', ip_limit = 8, ip_limit_v2 = 4, no_p2p = False,
     metrics_port = 9090\<rparr>"

theorem announce_round_trip_witness:
  "query_param ''name='' (announce_query (remove_char (CHR ''&'')) 3 sample_config 50001 2 False) =
     Some ''A  B'' \<and>
   Option.bind (query_param ''clients=''
     (announce_query (remove_char (CHR ''&'')) 3 sample_config 50001 2 False)) parse_usize = Some 2"
proof -
  have "CHR ''&'' \<notin> set (remove_char (CHR ''&'') s)" for s by (simp add: remove_char_def)
  moreover have "(2 :: nat) < 2 ^ 64" by simp
  ultimately show ?thesis
    using announce_round_trip [of "remove_char (CHR ''&'')" 2 3 sample_config 50001 False]
    by (simp add: remove_char_def sample_config_def)
qed

end
