(* ===== verification/Tunnel_V3.thy ===== *)
theory Tunnel_V3
  imports Udp_Service Rate_Limiter Announce
begin

text \<open>
  \<open>src/tunnel_v3.rs\<close>: the tunnel with 32-bit client ids. A client registers itself by sending its
  first packet; later packets must come from the same address, unless the client has timed out.
  One definition models one function of the file, in its order; an index or slice that is out of
  range would be the result \<open>None\<close>. The last section puts the tasks of \<open>start\<close> together: the
  receive workers and the heartbeat.
\<close>

section \<open>State\<close>

definition V3_VERSION :: nat where
  "V3_VERSION = 3"

definition COMMAND_RATE_LIMIT_SECS :: u64 where
  "COMMAND_RATE_LIMIT_SECS = 60"

definition V3_MAX_PINGS_PER_IP :: u32 where
  "V3_MAX_PINGS_PER_IP = 20"

definition V3_TIMEOUT_SECONDS :: u64 where
  "V3_TIMEOUT_SECONDS = 30"

definition V3_MAX_PACKET_SIZE :: nat where
  "V3_MAX_PACKET_SIZE = 1472"

text \<open>
  The metrics are shared and live in \<^typ>\<open>io\<close>; the boot instant is read through
  \<open>uptime_secs\<close>; the HTTP client has no state of its own.
\<close>

record ('c, 'q, 'm) tunnel_v3 =
  v3_config :: server_config
  v3_mappings :: "(u32, 'c) fmap"
  v3_connection_limiter :: "'m connection_rate_limiter"
  v3_ping_limiter :: "'m rate_limiter"
  v3_maintenance_mode :: bool
  v3_last_command_tick :: u64
  v3_maintenance_password_sha1 :: "u8 list option"
  v3_quality_analyzers :: "(u32, 'q) fmap"

definition string_bytes :: "string \<Rightarrow> u8 list" where
  "string_bytes s = map of_char s"

definition tunnel_v3_new ::
    "('m, 'g, 'i) rater \<Rightarrow> (u8 list \<Rightarrow> u8 list) \<Rightarrow> server_config \<Rightarrow> ('c, 'q, 'm) tunnel_v3" where
  "tunnel_v3_new L sha1 config = \<lparr>
     v3_config = config,
     v3_mappings = fmempty,
     v3_connection_limiter = connection_rate_limiter_new L (of_nat (ip_limit config)),
     v3_ping_limiter = rate_limiter_new L 60 V3_MAX_PINGS_PER_IP,
     v3_maintenance_mode = False,
     v3_last_command_tick = 0,
     v3_maintenance_password_sha1 =
       (if maintenance_password config \<noteq> []
        then Some (sha1 (string_bytes (maintenance_password config))) else None),
     v3_quality_analyzers = fmempty\<rparr>"

type_synonym ('c, 'q, 'm) v3_state = "('c, 'q, 'm) tunnel_v3 \<times> io"

section \<open>Packet header\<close>

definition v3_parse_packet_header :: "u8 list \<Rightarrow> (u32 \<times> u32) option" where
  "v3_parse_packet_header p =
     (if length p < 8 then None
      else Some (u32_from_le_bytes (p ! 0) (p ! 1) (p ! 2) (p ! 3),
                 u32_from_le_bytes (p ! 4) (p ! 5) (p ! 6) (p ! 7)))"

text \<open>
  The \<open>aarch64\<close> build reads the four bytes in the machine's own order and converts with
  \<open>to_le\<close>, which swaps the bytes on a big-endian machine.
\<close>

datatype endianness = Little | Big

primrec read_native :: "endianness \<Rightarrow> u8 \<Rightarrow> u8 \<Rightarrow> u8 \<Rightarrow> u8 \<Rightarrow> u32" where
  "read_native Little a b c d = u32_from_le_bytes a b c d"
| "read_native Big a b c d = u32_from_be_bytes a b c d"

definition swap_bytes :: "u32 \<Rightarrow> u32" where
  "swap_bytes w =
     u32_from_be_bytes (ucast w) (ucast (drop_bit 8 w)) (ucast (drop_bit 16 w))
       (ucast (drop_bit 24 w))"

primrec to_le :: "endianness \<Rightarrow> u32 \<Rightarrow> u32" where
  "to_le Little w = w"
| "to_le Big w = swap_bytes w"

definition v3_parse_packet_header_unaligned :: "endianness \<Rightarrow> u8 list \<Rightarrow> (u32 \<times> u32) option" where
  "v3_parse_packet_header_unaligned e p =
     (if length p < 8 then None
      else Some (to_le e (read_native e (p ! 0) (p ! 1) (p ! 2) (p ! 3)),
                 to_le e (read_native e (p ! 4) (p ! 5) (p ! 6) (p ! 7))))"

text \<open>What a client puts in front of its payload.\<close>

definition v3_packet :: "u32 \<Rightarrow> u32 \<Rightarrow> u8 list \<Rightarrow> u8 list" where
  "v3_packet sender_id receiver_id payload =
     u32_to_le_bytes sender_id @ u32_to_le_bytes receiver_id @ payload"

section \<open>Packet handling\<close>

definition v3_validate_packet ::
    "('c, 'q, 'i) relay_core \<Rightarrow> u32 \<Rightarrow> u32 \<Rightarrow> socket_addr \<Rightarrow> bool" where
  "v3_validate_packet R sender_id receiver_id addr =
     (if sender_id = receiver_id \<and> sender_id \<noteq> 0 then False else validate_address R addr)"

definition v3_handle_ping ::
    "'i env \<Rightarrow> u8 list \<Rightarrow> socket_addr \<Rightarrow> ('c, 'q, 'm) v3_state \<Rightarrow> ('c, 'q, 'm) v3_state" where
  "v3_handle_ping E packet remote s =
     (let (t, io) = s;
          io = io_metrics_update (v3_ping_requests_update (\<lambda>n. n + 1)) io;
          response = take (min 12 (length packet)) packet;
          io = io_send remote response io
      in (t, if send_succeeds E remote response
             then io_batch_update (record_v3_tx (of_nat (length response))) io else io))"

text \<open>
  The block that decides \<open>sender_valid\<close>: a known client, a client that comes back after its
  timeout, a new client, or a refusal.
\<close>

definition v3_admit_sender ::
    "('c, 'q, 'i) relay_core \<Rightarrow> ('m, 'g, 'i) rater \<Rightarrow> 'i env \<Rightarrow> u32 \<Rightarrow> u8 list \<Rightarrow> socket_addr \<Rightarrow> u64
       \<Rightarrow> ('c, 'q, 'm) v3_state \<Rightarrow> bool \<times> ('c, 'q, 'm) v3_state" where
  "v3_admit_sender R L E sender_id packet remote now s =
     (let (t, io) = s in
      case fmlookup (v3_mappings t) sender_id of
        Some client \<Rightarrow>
          (case remote_ep R client of
             Some ep \<Rightarrow>
               if ep \<noteq> remote then
                 if is_timed_out R client (instant E) then
                   let (ok, l) = try_acquire L (v3_connection_limiter t) (sock_ip remote) (instant E);
                       t = t\<lparr>v3_connection_limiter := l\<rparr>
                   in if ok then
                        (True,
                         t\<lparr>v3_mappings := fmupd sender_id
                              (client_new_with_endpoint R remote V3_TIMEOUT_SECONDS (instant E))
                              (v3_mappings t),
                           v3_quality_analyzers := fmupd sender_id (analyzer_new R (instant E))
                              (v3_quality_analyzers t)\<rparr>, io)
                      else (False, t, io)
                 else (False, t, io)
               else
                 (True,
                  t\<lparr>v3_mappings := dm_modify sender_id
                       (update_stats R (length packet) 0 now \<circ> set_last_receive_tick_at R now)
                       (v3_mappings t),
                    v3_quality_analyzers := dm_modify sender_id (record_packet R False (instant E))
                       (v3_quality_analyzers t)\<rparr>, io)
           | None \<Rightarrow> (False, t, io))
      | None \<Rightarrow>
          if dm_len (v3_mappings t) < max_clients (v3_config t) then
            let (ok, l) = try_acquire L (v3_connection_limiter t) (sock_ip remote) (instant E);
                t = t\<lparr>v3_connection_limiter := l\<rparr>
            in if ok then
                 let t = t\<lparr>v3_mappings := fmupd sender_id
                              (client_new_with_endpoint R remote V3_TIMEOUT_SECONDS (instant E))
                              (v3_mappings t),
                           v3_quality_analyzers := fmupd sender_id (analyzer_new R (instant E))
                              (v3_quality_analyzers t)\<rparr>
                 in (True, t,
                     io_metrics_update (v3_active_clients_update (\<lambda>_. dm_len (v3_mappings t))) io)
               else (False, t, io_metrics_update (rate_limit_hits_update (\<lambda>n. n + 1)) io)
          else (False, t, io_metrics_update (dropped_packets_update (\<lambda>n. n + 1)) io))"

text \<open>The receiver's endpoint, unless it is the sender's own address.\<close>

definition v3_forward_info ::
    "('c, 'q, 'i) relay_core \<Rightarrow> u32 \<Rightarrow> socket_addr \<Rightarrow> ('c, 'q, 'm) tunnel_v3 \<Rightarrow> socket_addr option" where
  "v3_forward_info R receiver_id remote t =
     do {
       receiver \<leftarrow> fmlookup (v3_mappings t) receiver_id;
       ep \<leftarrow> remote_ep R receiver;
       if ep = remote then None else Some ep
     }"

definition v3_handle_data_forward ::
    "('c, 'q, 'i) relay_core \<Rightarrow> ('m, 'g, 'i) rater \<Rightarrow> 'i env \<Rightarrow> u32 \<Rightarrow> u32 \<Rightarrow> u8 list \<Rightarrow> socket_addr \<Rightarrow> u64
       \<Rightarrow> ('c, 'q, 'm) v3_state \<Rightarrow> ('c, 'q, 'm) v3_state" where
  "v3_handle_data_forward R L E sender_id receiver_id packet remote now s =
     (let (sender_valid, t, io) = v3_admit_sender R L E sender_id packet remote now s in
      if \<not> sender_valid then (t, io)
      else case v3_forward_info R receiver_id remote t of
        None \<Rightarrow> (t, io)
      | Some receiver_ep \<Rightarrow>
          let io = io_send receiver_ep packet io in
          if send_succeeds E receiver_ep packet then
            (t\<lparr>v3_mappings := dm_modify receiver_id (update_stats R 0 (length packet) now)
                 (v3_mappings t)\<rparr>,
             io_batch_update (record_v3_tx (of_nat (length packet))) io)
          else
            (t\<lparr>v3_quality_analyzers := dm_modify receiver_id (record_packet R True (instant E))
                 (v3_quality_analyzers t)\<rparr>, io))"

text \<open>The analyzers of the removed clients go with them.\<close>

definition v3_cleanup_expired_mappings ::
    "('c, 'q, 'i) relay_core \<Rightarrow> ('m, 'g, 'i) rater \<Rightarrow> 'i env
       \<Rightarrow> ('c, 'q, 'm) v3_state \<Rightarrow> ('c, 'q, 'm) v3_state" where
  "v3_cleanup_expired_mappings R L E s =
     (let (t, io) = s;
          expired = (\<lambda>k. case fmlookup (v3_mappings t) k of
                       None \<Rightarrow> False | Some c \<Rightarrow> is_timed_out R c (instant E));
          t = t\<lparr>v3_mappings := dm_retain (\<lambda>k c. \<not> is_timed_out R c (instant E)) (v3_mappings t),
                v3_quality_analyzers := fmfilter (\<lambda>k. \<not> expired k) (v3_quality_analyzers t)\<rparr>;
          io = io_metrics_update (v3_active_clients_update (\<lambda>_. dm_len (v3_mappings t))) io
      in (t\<lparr>v3_ping_limiter := reset L (v3_ping_limiter t)\<rparr>, io))"

definition v3_execute_command ::
    "('c, 'q, 'i) relay_core \<Rightarrow> ('m, 'g, 'i) rater \<Rightarrow> 'i env \<Rightarrow> u8 list
       \<Rightarrow> ('c, 'q, 'm) v3_state \<Rightarrow> ('c, 'q, 'm) v3_state option" where
  "v3_execute_command R L E packet s =
     (let (t, io) = s; elapsed_secs = uptime_secs E; last = v3_last_command_tick t in
      if saturating_sub elapsed_secs last < COMMAND_RATE_LIMIT_SECS
         \<or> v3_maintenance_password_sha1 t = None
      then Some (t, io)
      else let t = t\<lparr>v3_last_command_tick := elapsed_secs\<rparr> in
        do {
          command \<leftarrow> index packet 8;
          password_sha1 \<leftarrow> slice packet 9 29;
          (case v3_maintenance_password_sha1 t of
             None \<Rightarrow> Some (t, io)
           | Some expected_sha1 \<Rightarrow>
               if password_sha1 = expected_sha1 then
                 if command = 0 then
                   Some (t\<lparr>v3_maintenance_mode := \<not> v3_maintenance_mode t\<rparr>, io)
                 else if command = 1 then Some (v3_cleanup_expired_mappings R L E (t, io))
                 else Some (t, io)
               else Some (t, io))
        })"

definition v3_on_receive ::
    "('c, 'q, 'i) relay_core \<Rightarrow> ('m, 'g, 'i) rater \<Rightarrow> 'i env \<Rightarrow> u8 list \<Rightarrow> socket_addr
       \<Rightarrow> ('c, 'q, 'm) v3_state \<Rightarrow> ('c, 'q, 'm) v3_state option" where
  "v3_on_receive R L E packet remote s =
     (case v3_parse_packet_header packet of
        None \<Rightarrow> Some s
      | Some (sender_id, receiver_id) \<Rightarrow>
          let (t, io) = s; io = io_batch_update (record_v3_rx (of_nat (length packet))) io in
          if sender_id = 0 \<and> receiver_id = u32_MAX \<and> 29 \<le> length packet
          then v3_execute_command R L E packet (t, io)
          else if \<not> v3_validate_packet R sender_id receiver_id remote then Some (t, io)
          else if sender_id = 0 \<and> receiver_id = 0 then
            if length packet = 50 then
              let (ok, l) = check_and_increment L (v3_ping_limiter t) (sock_ip remote) (instant E);
                  t = t\<lparr>v3_ping_limiter := l\<rparr>
              in Some (if ok then v3_handle_ping E packet remote (t, io) else (t, io))
            else Some (t, io)
          else if v3_maintenance_mode t then Some (t, io)
          else Some (v3_handle_data_forward R L E sender_id receiver_id packet remote
                       (current_timestamp R (instant E)) (t, io)))"

text \<open>
  One turn of the receive loop. Its local counter of consecutive receive errors is part of the
  worker's state.
\<close>

definition v3_receive_step ::
    "('c, 'q, 'i) relay_core \<Rightarrow> ('m, 'g, 'i) rater \<Rightarrow> 'i env \<Rightarrow> recv_result
       \<Rightarrow> u32 \<times> ('c, 'q, 'm) v3_state \<Rightarrow> (u32 \<times> ('c, 'q, 'm) v3_state) option" where
  "v3_receive_step R L E r s =
     (let (receive_errors, t, io) = s in
      case r of
        Received packet addr \<Rightarrow>
          if 8 \<le> length packet \<and> length packet \<le> V3_MAX_PACKET_SIZE then
            do {
              (t, io) \<leftarrow> v3_on_receive R L E packet addr (t, io);
              Some (0, t, io_maybe_flush io)
            }
          else Some (0, t, io_metrics_update (invalid_packets_update (\<lambda>n. n + 1)) io)
      | Receive_Error \<Rightarrow>
          let io = io_flush io; receive_errors = receive_errors + 1
          in Some (if receive_errors > 100 then 0 else receive_errors, t, io))"

section \<open>Announcement and heartbeat\<close>

text \<open>The URL of the announcement to the master server.\<close>

definition v3_announce_url :: "(string \<Rightarrow> string) \<Rightarrow> ('c, 'q, 'm) tunnel_v3 \<Rightarrow> string" where
  "v3_announce_url encode t =
     master_server_url (v3_config t) @ ''?''
     @ announce_query encode V3_VERSION (v3_config t) (tunnel_port (v3_config t)) (dm_len (v3_mappings t))
         (v3_maintenance_mode t)"

text \<open>
  One turn of the heartbeat loop: the counter, the cleanup every third tick, and the URL
  announced, if any. The statistics logged every fifth tick change nothing.
\<close>

definition v3_heartbeat_tick ::
    "('c, 'q, 'i) relay_core \<Rightarrow> ('m, 'g, 'i) rater \<Rightarrow> (string \<Rightarrow> string) \<Rightarrow> 'i env
       \<Rightarrow> u8 \<times> ('c, 'q, 'm) v3_state \<Rightarrow> string option \<times> u8 \<times> ('c, 'q, 'm) v3_state" where
  "v3_heartbeat_tick R L encode E s =
     (let (cleanup_counter, t, io) = s;
          cleanup_counter = cleanup_counter + 1;
          (t, io) = (if cleanup_counter mod 3 = 0 then v3_cleanup_expired_mappings R L E (t, io)
                     else (t, io));
          announced = (if no_master_announce (v3_config t) then None
                       else Some (v3_announce_url encode t))
      in (announced, cleanup_counter, t, io))"

end
