(* ===== verification/V3_Service.thy ===== *)
theory V3_Service
  imports Tunnel_V3
begin

text \<open>
  The version 3 tunnel as a running service, and what it guarantees. First the abstract view of a
  tunnel, a table from client ids to endpoints, and the proof that the handlers implement the
  table's rules. Then the invariant of the tunnel, the service with its workers and its heartbeat
  as an instance of the relay contract, and the properties.
\<close>

section \<open>The abstract tunnel\<close>

text \<open>
  For a packet from \<open>src\<close> with sender id \<open>sid\<close>, a verdict that depends
  on the table, on whether there is room, on whether the client has timed out and on whether the
  source has a connection token.
\<close>

definition verdict_of ::
    "u32 endpoint_table \<Rightarrow> bool \<Rightarrow> bool \<Rightarrow> bool \<Rightarrow> u32 \<Rightarrow> socket_addr \<Rightarrow> verdict" where
  "verdict_of table room expired token sid src =
     (case table sid of
        Some ep \<Rightarrow> if ep = src then Known else if expired \<and> token then Rebind else Refuse
      | None \<Rightarrow> if room \<and> token then Register else Refuse)"

text \<open>The abstraction of a concrete tunnel and of the facts a verdict depends on.\<close>

definition v3_table :: "('c, 'q, 'i) relay_core \<Rightarrow> ('c, 'q, 'm) tunnel_v3 \<Rightarrow> u32 endpoint_table" where
  "v3_table R t = ep_table R (v3_mappings t)"

definition v3_verdict ::
    "('c, 'q, 'i) relay_core \<Rightarrow> ('m, 'g, 'i) rater \<Rightarrow> 'i env \<Rightarrow> ('c, 'q, 'm) tunnel_v3
       \<Rightarrow> u32 \<Rightarrow> socket_addr \<Rightarrow> verdict" where
  "v3_verdict R L E t sid src =
     verdict_of (v3_table R t)
       (dm_len (v3_mappings t) < max_clients (v3_config t))
       (\<exists>c. fmlookup (v3_mappings t) sid = Some c \<and> is_timed_out R c (instant E))
       (fst (try_acquire L (v3_connection_limiter t) (sock_ip src) (instant E)))
       sid src"

section \<open>The invariant\<close>

text \<open>
  Every client has an endpoint, every client and no one else has a quality analyzer, and the
  number of clients stays within the limit.
\<close>

definition clients_ok ::
    "('c, 'q, 'i) relay_core \<Rightarrow> nat \<Rightarrow> (u32, 'c) fmap \<Rightarrow> (u32, 'q) fmap \<Rightarrow> bool" where
  "clients_ok R limit clients analyzers \<longleftrightarrow>
     fmpred (\<lambda>k c. remote_ep R c \<noteq> None) clients \<and>
     fmdom analyzers = fmdom clients \<and> dm_len clients \<le> limit"

definition v3_tunnel_ok :: "('c, 'q, 'i) relay_core \<Rightarrow> ('c, 'q, 'm) tunnel_v3 \<Rightarrow> bool" where
  "v3_tunnel_ok R t \<longleftrightarrow>
     clients_ok R (max_clients (v3_config t)) (v3_mappings t) (v3_quality_analyzers t)"

text \<open>The gauge in the metrics is the number of clients.\<close>

definition v3_state_ok :: "('c, 'q, 'i) relay_core \<Rightarrow> ('c, 'q, 'm) v3_state \<Rightarrow> bool" where
  "v3_state_ok R s \<longleftrightarrow>
     endpoint_laws R \<and> v3_tunnel_ok R (fst s) \<and>
     v3_active_clients (io_metrics (snd s)) = dm_len (v3_mappings (fst s))"

section \<open>The handlers keep the invariant and implement the table\<close>

lemma clients_ok_upd:
  assumes "clients_ok R n m q" and "remote_ep R c \<noteq> None" and "fmlookup m k \<noteq> None \<or> dm_len m < n"
  shows "clients_ok R n (fmupd k c m) (fmupd k a q)"
  using assms by (auto simp: clients_ok_def dm.len_insert fmpred_iff)

lemma clients_ok_modify:
  assumes "clients_ok R n m q"
  shows "(\<And>c. remote_ep R (f c) = remote_ep R c) \<Longrightarrow> clients_ok R n (dm_modify k f m) q"
    and "clients_ok R n m (dm_modify j g q)"
  using assms by (auto simp: clients_ok_def dm.len_modify fmpred_iff dm.get_modify split: if_splits)

lemma clients_ok_retain:
  assumes "clients_ok R n m q"
    and "\<And>k. (case fmlookup m k of None \<Rightarrow> True | Some c \<Rightarrow> keep k c) = keep' k"
  shows "clients_ok R n (dm_retain keep m) (fmfilter keep' q)"
proof -
  have "fmdom (dm_retain keep m) = ffilter keep' (fmdom m)"
  proof (rule fset_eqI)
    fix k show "k |\<in>| fmdom (dm_retain keep m) \<longleftrightarrow> k |\<in>| ffilter keep' (fmdom m)"
      using assms(2) [of k] by (cases "fmlookup m k") (auto simp: fmlookup_dom_iff)
  qed
  with assms(1) show ?thesis
    using dm.len_retain [of keep m]
    by (auto simp: clients_ok_def fmpred_iff split: option.splits if_splits)
qed

text \<open>The six ways through the admission of a sender.\<close>

lemma v3_admit_sender_cases [consumes 1, case_names Known Timed_Out Foreign New Limited Full]:
  assumes ok: "v3_state_ok R (t, io)"
  obtains
    c where "fmlookup (v3_mappings t) sid = Some c" "remote_ep R c = Some src"
      "v3_admit_sender R L E sid p src now (t, io) =
         (True, t\<lparr>v3_mappings := dm_modify sid
                     (update_stats R (length p) 0 now \<circ> set_last_receive_tick_at R now) (v3_mappings t),
                  v3_quality_analyzers :=
                    dm_modify sid (record_packet R False (instant E)) (v3_quality_analyzers t)\<rparr>, io)"
  | c ep l b where "fmlookup (v3_mappings t) sid = Some c" "remote_ep R c = Some ep" "ep \<noteq> src"
      "is_timed_out R c (instant E)"
      "try_acquire L (v3_connection_limiter t) (sock_ip src) (instant E) = (b, l)"
      "v3_admit_sender R L E sid p src now (t, io) =
         (b, if b then t\<lparr>v3_connection_limiter := l,
               v3_mappings := fmupd sid (client_new_with_endpoint R src V3_TIMEOUT_SECONDS (instant E))
                 (v3_mappings t),
               v3_quality_analyzers := fmupd sid (analyzer_new R (instant E)) (v3_quality_analyzers t)\<rparr>
             else t\<lparr>v3_connection_limiter := l\<rparr>, io)"
  | c ep where "fmlookup (v3_mappings t) sid = Some c" "remote_ep R c = Some ep" "ep \<noteq> src"
      "\<not> is_timed_out R c (instant E)"
      "v3_admit_sender R L E sid p src now (t, io) = (False, t, io)"
  | l t' where "fmlookup (v3_mappings t) sid = None"
      "dm_len (v3_mappings t) < max_clients (v3_config t)"
      "try_acquire L (v3_connection_limiter t) (sock_ip src) (instant E) = (True, l)"
      "t' = t\<lparr>v3_connection_limiter := l,
               v3_mappings := fmupd sid (client_new_with_endpoint R src V3_TIMEOUT_SECONDS (instant E))
                 (v3_mappings t),
               v3_quality_analyzers := fmupd sid (analyzer_new R (instant E)) (v3_quality_analyzers t)\<rparr>"
      "v3_admit_sender R L E sid p src now (t, io) =
         (True, t', io_metrics_update (v3_active_clients_update (\<lambda>_. dm_len (v3_mappings t'))) io)"
  | l where "fmlookup (v3_mappings t) sid = None"
      "dm_len (v3_mappings t) < max_clients (v3_config t)"
      "try_acquire L (v3_connection_limiter t) (sock_ip src) (instant E) = (False, l)"
      "v3_admit_sender R L E sid p src now (t, io) =
         (False, t\<lparr>v3_connection_limiter := l\<rparr>,
          io_metrics_update (rate_limit_hits_update (\<lambda>n. n + 1)) io)"
  | "fmlookup (v3_mappings t) sid = None"
      "\<not> dm_len (v3_mappings t) < max_clients (v3_config t)"
      "v3_admit_sender R L E sid p src now (t, io) =
         (False, t, io_metrics_update (dropped_packets_update (\<lambda>n. n + 1)) io)"
proof (cases "fmlookup (v3_mappings t) sid")
  case None
  obtain b l where acq: "try_acquire L (v3_connection_limiter t) (sock_ip src) (instant E) = (b, l)"
    by fastforce
  show ?thesis
  proof (cases "dm_len (v3_mappings t) < max_clients (v3_config t)")
    case True
    show ?thesis
    proof (cases b)
      case True
      with that(4) None acq \<open>dm_len _ < _\<close> show ?thesis
        by (simp add: v3_admit_sender_def Let_def)
    next
      case False
      with that(5) None acq \<open>dm_len _ < _\<close> show ?thesis
        by (simp add: v3_admit_sender_def Let_def)
    qed
  next
    case False
    with that(6) None show ?thesis by (simp add: v3_admit_sender_def Let_def)
  qed
next
  case (Some c)
  with ok obtain ep where ep: "remote_ep R c = Some ep"
    by (auto simp: v3_state_ok_def v3_tunnel_ok_def clients_ok_def dest: fmpredD)
  obtain b l where acq: "try_acquire L (v3_connection_limiter t) (sock_ip src) (instant E) = (b, l)"
    by fastforce
  consider "ep = src" | "ep \<noteq> src" "is_timed_out R c (instant E)"
    | "ep \<noteq> src" "\<not> is_timed_out R c (instant E)" by blast
  then show ?thesis
  proof cases
    case 1
    with that(1) Some ep show ?thesis by (simp add: v3_admit_sender_def)
  next
    case 2
    with that(2) Some ep acq show ?thesis by (simp add: v3_admit_sender_def Let_def)
  next
    case 3
    with that(3) Some ep show ?thesis by (simp add: v3_admit_sender_def)
  qed
qed


lemma v3_admit_spec:
  assumes ok: "v3_state_ok R (t, io)"
    and adm: "v3_admit_sender R L E sid p src now (t, io) = (valid, t', io')"
  shows "valid = (v3_verdict R L E t sid src \<noteq> Refuse)"
    and "v3_table R t' = table_after (v3_verdict R L E t sid src) (v3_table R t) sid src"
    and "v3_state_ok R (t', io')"
    and "v3_config t' = v3_config t \<and> v3_maintenance_mode t' = v3_maintenance_mode t"
    and "io_sent io' = io_sent io \<and> io_batch io' = io_batch io \<and>
         published (io_metrics io') = published (io_metrics io)"
proof -
  from ok have laws: "endpoint_laws R" and tok: "v3_tunnel_ok R t"
    by (simp_all add: v3_state_ok_def)
  note ep [simp] = endpoint_lawsD [OF laws]
  note cs = v3_admit_sender_cases [OF ok, where sid = sid and src = src and L = L and E = E
        and p = p and now = now]
  note defs = v3_verdict_def verdict_of_def table_after_def v3_table_def ep_table_modify
  show "valid = (v3_verdict R L E t sid src \<noteq> Refuse)"
    by (rule cs; insert adm) (auto simp: defs split: if_splits)
  show "v3_table R t' = table_after (v3_verdict R L E t sid src) (v3_table R t) sid src"
    by (rule cs; insert adm) (auto simp: defs split: if_splits)
  show "v3_state_ok R (t', io')"
    by (rule cs; insert adm ok)
      (auto simp: v3_state_ok_def v3_tunnel_ok_def clients_ok_upd clients_ok_modify dm.len_insert
        dm.len_modify split: if_splits)
  show "v3_config t' = v3_config t \<and> v3_maintenance_mode t' = v3_maintenance_mode t"
    by (rule cs; insert adm) (auto split: if_splits)
  show "io_sent io' = io_sent io \<and> io_batch io' = io_batch io \<and>
         published (io_metrics io') = published (io_metrics io)"
    by (rule cs; insert adm) (auto simp: published_def)
qed


subsection \<open>Forwarding\<close>

lemma v3_forward_info_eq:
  "v3_forward_info R rid src t =
     (case v3_table R t rid of None \<Rightarrow> None | Some ep \<Rightarrow> if ep = src then None else Some ep)"
  by (auto simp: v3_forward_info_def v3_table_def ep_table_def split: Option.bind_splits option.splits)

lemma v3_handle_data_forward_spec:
  fixes t :: "('c, 'q, 'm) tunnel_v3"
  assumes ok: "v3_state_ok R (t, io)"
    and fwd: "v3_handle_data_forward R L E sid rid p src now (t, io) = (t', io')"
  defines "v \<equiv> v3_verdict R L E t sid src"
  defines "T \<equiv> table_after v (v3_table R t) sid src"
  shows "v3_table R t' = T"
    and "v3_state_ok R (t', io')"
    and "handler_effect record_v3_tx E io (io_batch io) (forwards v T rid src p) io'"
    and "v3_config t' = v3_config t \<and> v3_maintenance_mode t' = v3_maintenance_mode t"
proof -
  obtain valid t1 io1 where adm:
    "v3_admit_sender R L E sid p src now (t, io) = (valid, t1, io1)"
    by (cases "v3_admit_sender R L E sid p src now (t, io)") auto
  note a = v3_admit_spec [OF ok adm, folded v_def, folded T_def]
  from ok have laws: "endpoint_laws R" by (simp add: v3_state_ok_def)
  note ep = endpoint_lawsD [OF laws]
  have modify: "v3_state_ok R (t1\<lparr>v3_mappings := dm_modify k (update_stats R i j now) (v3_mappings t1)\<rparr>,
      io_batch_update f (io_send d q io1))"
    "v3_state_ok R (t1\<lparr>v3_quality_analyzers := dm_modify k g (v3_quality_analyzers t1)\<rparr>,
      io_send d q io1)" for k i j f g d q
    using a(3) by (auto simp: v3_state_ok_def v3_tunnel_ok_def clients_ok_modify ep dm.len_modify)
  have same: "v3_table R (t1\<lparr>v3_mappings := dm_modify k (update_stats R i j now) (v3_mappings t1)\<rparr>) = T"
    for k i j
    using a(2) by (simp add: v3_table_def ep_table_modify ep)
  consider (stop) "forwards v T rid src p = []" "(t', io') = (t1, io1)"
    | (sent) d where "forwards v T rid src p = [(d, p)]" "send_succeeds E d p"
        "(t', io') = (t1\<lparr>v3_mappings := dm_modify rid (update_stats R 0 (length p) now) (v3_mappings t1)\<rparr>,
           io_batch_update (record_v3_tx (of_nat (length p))) (io_send d p io1))"
    | (lost) d where "forwards v T rid src p = [(d, p)]" "\<not> send_succeeds E d p"
        "(t', io') = (t1\<lparr>v3_quality_analyzers :=
             dm_modify rid (record_packet R True (instant E)) (v3_quality_analyzers t1)\<rparr>,
           io_send d p io1)"
    using fwd a(1)
    by (cases "T rid")
       (auto simp: v3_handle_data_forward_def adm v3_forward_info_eq a(2) forwards_def Let_def
         split: if_splits)
  note outcome = this
  show "v3_table R t' = T"
    by (rule outcome) (use a(2) same in \<open>auto simp: v3_table_def\<close>)
  show "v3_state_ok R (t', io')"
    by (rule outcome) (use a(3) modify in auto)
  show "handler_effect record_v3_tx E io (io_batch io) (forwards v T rid src p) io'"
    by (rule outcome) (use a(5) in \<open>auto simp: handler_effect_def\<close>)
  show "v3_config t' = v3_config t \<and> v3_maintenance_mode t' = v3_maintenance_mode t"
    by (rule outcome) (use a(4) in auto)
qed

subsection \<open>Cleanup and commands\<close>

lemma v3_cleanup_spec:
  assumes ok: "v3_state_ok R (t, io)"
    and cl: "v3_cleanup_expired_mappings R L E (t, io) = (t', io')"
  shows "v3_state_ok R (t', io')"
    and "v3_mappings t' = dm_retain (\<lambda>k c. \<not> is_timed_out R c (instant E)) (v3_mappings t)"
    and "v3_config t' = v3_config t \<and> v3_maintenance_mode t' = v3_maintenance_mode t"
    and "handler_effect record_v3_tx E io (io_batch io) [] io'"
  using ok cl
  by (auto simp: v3_cleanup_expired_mappings_def Let_def v3_state_ok_def v3_tunnel_ok_def
      handler_effect_def published_def intro!: clients_ok_retain split: option.splits)

lemma v3_execute_command_spec:
  assumes ok: "v3_state_ok R (t, io)" and len: "29 \<le> length p"
  shows "\<exists>t' io'. v3_execute_command R L E p (t, io) = Some (t', io') \<and> v3_state_ok R (t', io') \<and>
    handler_effect record_v3_tx E io (io_batch io) [] io' \<and> v3_config t' = v3_config t"
proof -
  have frame: "v3_state_ok R (t\<lparr>v3_last_command_tick := n\<rparr>, io)"
    "v3_state_ok R (t\<lparr>v3_last_command_tick := n, v3_maintenance_mode := b\<rparr>, io)" for n b
    using ok by (simp_all add: v3_state_ok_def v3_tunnel_ok_def)
  obtain t1 io1 where cl: "v3_cleanup_expired_mappings R L E
      (t\<lparr>v3_last_command_tick := uptime_secs E\<rparr>, io) = (t1, io1)"
    by (cases "v3_cleanup_expired_mappings R L E (t\<lparr>v3_last_command_tick := uptime_secs E\<rparr>, io)")
  note c = v3_cleanup_spec [OF frame(1) cl]
  show ?thesis
    using ok len frame cl c
    by (auto simp: v3_execute_command_def Let_def split: option.splits)
qed


subsection \<open>Packets\<close>

text \<open>What a packet is.\<close>

definition v3_kind :: "('c, 'q, 'i) relay_core \<Rightarrow> u8 list \<Rightarrow> socket_addr \<Rightarrow> u32 packet_kind" where
  "v3_kind R p src =
     (case v3_parse_packet_header p of
        None \<Rightarrow> Invalid
      | Some (sid, rid) \<Rightarrow>
          if sid = 0 \<and> rid = u32_MAX \<and> 29 \<le> length p then Command
          else if (sid = rid \<and> sid \<noteq> 0) \<or> \<not> validate_address R src then Invalid
          else if sid = 0 \<and> rid = 0 then (if length p = 50 then Ping else Not_Ping)
          else Data sid rid)"

text \<open>The datagrams a packet makes the tunnel send, over the abstract table.\<close>

definition v3_replies ::
    "('c, 'q, 'i) relay_core \<Rightarrow> ('m, 'g, 'i) rater \<Rightarrow> 'i env \<Rightarrow> u8 list \<Rightarrow> socket_addr
       \<Rightarrow> ('c, 'q, 'm) tunnel_v3 \<Rightarrow> datagram list" where
  "v3_replies R L E p src t =
     (case v3_kind R p src of
        Ping \<Rightarrow>
          if fst (check_and_increment L (v3_ping_limiter t) (sock_ip src) (instant E))
          then [(src, take 12 p)] else []
      | Data sid rid \<Rightarrow>
          if v3_maintenance_mode t then []
          else let v = v3_verdict R L E t sid src
               in forwards v (table_after v (v3_table R t) sid src) rid src p
      | _ \<Rightarrow> [])"

text \<open>The table after a packet that is no command.\<close>

definition v3_table_next ::
    "('c, 'q, 'i) relay_core \<Rightarrow> ('m, 'g, 'i) rater \<Rightarrow> 'i env \<Rightarrow> u8 list \<Rightarrow> socket_addr
       \<Rightarrow> ('c, 'q, 'm) tunnel_v3 \<Rightarrow> u32 endpoint_table" where
  "v3_table_next R L E p src t =
     (case v3_kind R p src of
        Data sid rid \<Rightarrow>
          if v3_maintenance_mode t then v3_table R t
          else table_after (v3_verdict R L E t sid src) (v3_table R t) sid src
      | _ \<Rightarrow> v3_table R t)"

lemma v3_parse_Some: "8 \<le> length p \<Longrightarrow> \<exists>sid rid. v3_parse_packet_header p = Some (sid, rid)"
  by (simp add: v3_parse_packet_header_def)

lemma v3_handle_ping_spec:
  assumes "v3_handle_ping E p src (t, io) = (t', io')" and "12 \<le> length p"
  shows "t' = t" "handler_effect record_v3_tx E io (io_batch io) [(src, take 12 p)] io'"
    "v3_state_ok R (t, io) \<Longrightarrow> v3_state_ok R (t, io')"
  using assms
  by (auto simp: v3_handle_ping_def Let_def handler_effect_def published_def v3_state_ok_def)

text \<open>The handler by the kind of the packet.\<close>

lemma v3_on_receive_eq:
  assumes "8 \<le> length p"
  shows "v3_on_receive R L E p src (t, io) =
    (let io = io_batch_update (record_v3_rx (of_nat (length p))) io in
     case v3_kind R p src of
       Command \<Rightarrow> v3_execute_command R L E p (t, io)
     | Ping \<Rightarrow>
         let (ok, l) = check_and_increment L (v3_ping_limiter t) (sock_ip src) (instant E);
             t = t\<lparr>v3_ping_limiter := l\<rparr>
         in Some (if ok then v3_handle_ping E p src (t, io) else (t, io))
     | Data sid rid \<Rightarrow>
         Some (if v3_maintenance_mode t then (t, io)
               else v3_handle_data_forward R L E sid rid p src (current_timestamp R (instant E)) (t, io))
     | _ \<Rightarrow> Some (t, io))"
  using v3_parse_Some [OF assms]
  by (auto simp: v3_on_receive_def v3_kind_def v3_validate_packet_def Let_def split: prod.split)

lemma v3_kind_lengths:
  "v3_kind R p src = Command \<Longrightarrow> 29 \<le> length p"
  "v3_kind R p src = Ping \<Longrightarrow> 12 \<le> length p"
  by (auto simp: v3_kind_def split: option.splits if_splits)

lemma v3_on_receive_spec:
  assumes ok: "v3_state_ok R (t, io)" and len: "8 \<le> length p"
  obtains t' io' where "v3_on_receive R L E p src (t, io) = Some (t', io')"
    "v3_state_ok R (t', io')" "v3_config t' = v3_config t"
    "handler_effect record_v3_tx E io (record_v3_rx (of_nat (length p)) (io_batch io)) (v3_replies R L E p src t) io'"
    "v3_kind R p src \<noteq> Command \<Longrightarrow> v3_table R t' = v3_table_next R L E p src t"
    "v3_kind R p src \<noteq> Command \<Longrightarrow> v3_maintenance_mode t' = v3_maintenance_mode t"
proof -
  define io1 where "io1 = io_batch_update (record_v3_rx (of_nat (length p))) io"
  have io1: "io_batch io1 = record_v3_rx (of_nat (length p)) (io_batch io)" by (simp add: io1_def)
  have ok1: "v3_state_ok R (t, io1)" using ok by (simp add: io1_def v3_state_ok_def)
  have okl: "v3_state_ok R (t\<lparr>v3_ping_limiter := l\<rparr>, io1)" for l
    using ok1 by (simp add: v3_state_ok_def v3_tunnel_ok_def)
  note run = v3_on_receive_eq [OF len, of R L E src t io, unfolded Let_def, folded io1_def]
  have "\<exists>t' io'. v3_on_receive R L E p src (t, io) = Some (t', io') \<and>
    v3_state_ok R (t', io') \<and> v3_config t' = v3_config t \<and>
    handler_effect record_v3_tx E io1 (io_batch io1) (v3_replies R L E p src t) io' \<and>
    (v3_kind R p src \<noteq> Command \<longrightarrow> v3_table R t' = v3_table_next R L E p src t \<and>
       v3_maintenance_mode t' = v3_maintenance_mode t)"
  proof (cases "v3_kind R p src")
    case Command
    with v3_execute_command_spec [OF ok1 v3_kind_lengths(1) [OF Command], of L E] show ?thesis
      by (auto simp: run v3_replies_def)
  next
    case Ping
    obtain b l where chk:
      "check_and_increment L (v3_ping_limiter t) (sock_ip src) (instant E) = (b, l)" by fastforce
    obtain t2 io2 where hp: "v3_handle_ping E p src (t\<lparr>v3_ping_limiter := l\<rparr>, io1) = (t2, io2)" by fastforce
    note len12 = v3_kind_lengths(2) [OF Ping]
    from v3_handle_ping_spec(1,2) [OF hp len12] v3_handle_ping_spec(3) [OF hp len12 okl] Ping okl hp show ?thesis
      by (simp add: run chk v3_replies_def v3_table_next_def v3_table_def)
  next
    case (Data sid rid)
    obtain t2 io2 where fwd: "v3_handle_data_forward R L E sid rid p src
        (current_timestamp R (instant E)) (t, io1) = (t2, io2)" by fastforce
    from v3_handle_data_forward_spec [OF ok1 fwd] Data fwd ok1 show ?thesis
      by (simp add: run v3_replies_def v3_table_next_def Let_def)
  qed (simp_all add: run ok1 v3_replies_def v3_table_next_def)
  with that handler_effect_counted io1 show thesis unfolding io1_def by metis
qed

end
