(* ===== verification/V3_System.thy ===== *)
theory V3_System
  imports V3_Service
begin

text \<open>
  The tasks that \<open>start\<close> spawns for the version 3 tunnel, run in any interleaving of whole handler
  calls: receive workers, each with its own batch and its own count of receive errors, and the
  heartbeat. The system is an instance of the relay contract; the properties of the tunnel are
  stated over its runs and its steps.
\<close>

section \<open>The system\<close>

definition v3_num_receivers :: "nat \<Rightarrow> nat" where
  "v3_num_receivers cpus = max (min cpus 4) 2"

record ('c, 'q, 'm) v3_system =
  v3s_tunnel :: "('c, 'q, 'm) tunnel_v3"
  v3s_metrics :: metrics
  v3s_batches :: "nat \<Rightarrow> local_metrics_batch"
  v3s_errors :: "nat \<Rightarrow> u32"
  v3s_cleanup_counter :: u8
  v3s_sent :: "datagram list"
  v3s_announced :: "string list"

definition v3_start :: "('c, 'q, 'm) tunnel_v3 \<Rightarrow> metrics \<Rightarrow> ('c, 'q, 'm) v3_system" where
  "v3_start t m = \<lparr>
     v3s_tunnel = t, v3s_metrics = m, v3s_batches = (\<lambda>_. batch_new), v3s_errors = (\<lambda>_. 0),
     v3s_cleanup_counter = 0, v3s_sent = [], v3s_announced = []\<rparr>"

text \<open>The effects a worker sees: the shared metrics and socket, and its own batch.\<close>

definition v3s_io :: "nat \<Rightarrow> ('c, 'q, 'm) v3_system \<Rightarrow> io" where
  "v3s_io w s = \<lparr>io_metrics = v3s_metrics s, io_batch = v3s_batches s w, io_sent = v3s_sent s\<rparr>"

definition v3s_put ::
    "nat \<Rightarrow> u32 \<times> ('c, 'q, 'm) v3_state \<Rightarrow> ('c, 'q, 'm) v3_system \<Rightarrow> ('c, 'q, 'm) v3_system" where
  "v3s_put w r s =
     (let (errs, t, io) = r in
      s\<lparr>v3s_tunnel := t, v3s_metrics := io_metrics io,
        v3s_batches := (v3s_batches s)(w := io_batch io),
        v3s_errors := (v3s_errors s)(w := errs), v3s_sent := io_sent io\<rparr>)"

datatype 'i v3_event = V3_Recv nat "'i env" recv_result | V3_Tick "'i env"

fun v3_step ::
    "('c, 'q, 'i) relay_core \<Rightarrow> ('m, 'g, 'i) rater \<Rightarrow> (string \<Rightarrow> string) \<Rightarrow> 'i v3_event
       \<Rightarrow> ('c, 'q, 'm) v3_system \<Rightarrow> ('c, 'q, 'm) v3_system option" where
  "v3_step R L encode (V3_Recv w E r) s =
     map_option (\<lambda>res. v3s_put w res s)
       (v3_receive_step R L E r (v3s_errors s w, v3s_tunnel s, v3s_io w s))"
| "v3_step R L encode (V3_Tick E) s =
     (let (announced, n, t, io) =
        v3_heartbeat_tick R L encode E (v3s_cleanup_counter s, v3s_tunnel s, v3s_io 0 s)
      in Some (s\<lparr>v3s_tunnel := t, v3s_metrics := io_metrics io, v3s_cleanup_counter := n,
                 v3s_announced := v3s_announced s @ (case announced of None \<Rightarrow> [] | Some u \<Rightarrow> [u])\<rparr>))"

fun v3_rx :: "'i v3_event \<Rightarrow> recv_result option" where
  "v3_rx (V3_Recv w E r) = Some r"
| "v3_rx (V3_Tick E) = None"

definition v3_registered ::
    "('c, 'q, 'i) relay_core \<Rightarrow> ('c, 'q, 'm) v3_system \<Rightarrow> socket_addr \<Rightarrow> bool" where
  "v3_registered R s a \<longleftrightarrow> (\<exists>k. v3_table R (v3s_tunnel s) k = Some a)"

text \<open>The invariant of the whole service.\<close>

definition v3_ok :: "('c, 'q, 'i) relay_core \<Rightarrow> ('c, 'q, 'm) v3_system \<Rightarrow> bool" where
  "v3_ok R s \<longleftrightarrow>
     endpoint_laws R \<and> v3_tunnel_ok R (v3s_tunnel s) \<and>
     v3_active_clients (v3s_metrics s) = dm_len (v3_mappings (v3s_tunnel s)) \<and>
     (\<forall>w. batch_ok (v3s_batches s w)) \<and> (\<forall>w. v3s_errors s w \<le> 100)"

lemma v3_ok_state: "v3_ok R s \<Longrightarrow> v3_state_ok R (v3s_tunnel s, v3s_io w s)"
  by (simp add: v3_ok_def v3_state_ok_def v3s_io_def)

lemma v3s_io_simps [simp]:
  "io_metrics (v3s_io w s) = v3s_metrics s" "io_batch (v3s_io w s) = v3s_batches s w"
  "io_sent (v3s_io w s) = v3s_sent s"
  by (simp_all add: v3s_io_def)

lemma v3s_put_simps [simp]:
  "v3s_tunnel (v3s_put w (e, t, io) s) = t" "v3s_metrics (v3s_put w (e, t, io) s) = io_metrics io"
  "v3s_sent (v3s_put w (e, t, io) s) = io_sent io"
  "v3s_batches (v3s_put w (e, t, io) s) = (v3s_batches s)(w := io_batch io)"
  "v3s_errors (v3s_put w (e, t, io) s) = (v3s_errors s)(w := e)"
  by (simp_all add: v3s_put_def)

section \<open>One event\<close>

lemma v3_state_ok_io:
  "v3_state_ok R (t, io) \<Longrightarrow>
   v3_active_clients (io_metrics io') = v3_active_clients (io_metrics io) \<Longrightarrow> v3_state_ok R (t, io')"
  by (simp add: v3_state_ok_def)

text \<open>Whether a receive result is a packet the tunnel looks at.\<close>

definition v3_packet_size_ok :: "u8 list \<Rightarrow> bool" where
  "v3_packet_size_ok p \<longleftrightarrow> 8 \<le> length p \<and> length p \<le> V3_MAX_PACKET_SIZE"

text \<open>
  A packet of acceptable size: the state after it, in terms of the abstract replies and table.
\<close>

lemma v3_recv_packet:
  assumes ok: "v3_ok R s" and size: "v3_packet_size_ok p"
  obtains t' io' where
    "v3_step R L encode (V3_Recv w E (Received p src)) s =
       Some (v3s_put w (0, t', io_maybe_flush io') s)"
    "v3_state_ok R (t', io')" "v3_config t' = v3_config (v3s_tunnel s)"
    "handler_effect record_v3_tx E (v3s_io w s) (record_v3_rx (of_nat (length p)) (v3s_batches s w))
       (v3_replies R L E p src (v3s_tunnel s)) io'"
    "v3_kind R p src \<noteq> Command \<Longrightarrow> v3_table R t' = v3_table_next R L E p src (v3s_tunnel s)"
    "v3_kind R p src \<noteq> Command \<Longrightarrow> v3_maintenance_mode t' = v3_maintenance_mode (v3s_tunnel s)"
    "v3_on_receive R L E p src (v3s_tunnel s, v3s_io w s) = Some (t', io')"
proof -
  from size have len: "8 \<le> length p" by (simp add: v3_packet_size_ok_def)
  show thesis
  proof (rule v3_on_receive_spec
      [OF v3_ok_state [OF ok, of w] len, where src = src and L = L and E = E], goal_cases)
    case (1 t' io')
    with size show thesis
      by (intro that [of t' io']) (simp_all add: v3_receive_step_def v3_packet_size_ok_def)
  qed
qed

lemma v3_replies_at_most_one: "v3_replies R L E p src t = [] \<or> (\<exists>d. v3_replies R L E p src t = [d])"
  by (auto simp: v3_replies_def forwards_def Let_def split: packet_kind.splits option.splits)

lemma one_packet_v3_sends:
  assumes "new = [] \<or> (\<exists>d. new = [d])"
  shows "one_packet b (record_sends record_v3_tx E new (record_v3_rx n b))"
  using assms by (auto simp: one_packet_v3 split: prod.splits)

lemma v3_ok_put:
  assumes "v3_ok R s" and "v3_state_ok R (t, io)" and "batch_ok (io_batch io)" and "e \<le> 100"
  shows "v3_ok R (v3s_put w (e, t, io) s)"
  using assms by (auto simp: v3_ok_def v3_state_ok_def)

lemma v3_step_ok:
  assumes ok: "v3_ok R s"
  shows "\<exists>s'. v3_step R L encode e s = Some s' \<and> v3_ok R s'"
proof (cases e)
  case (V3_Tick E)
  obtain n t io a where tick:
    "v3_heartbeat_tick R L encode E (v3s_cleanup_counter s, v3s_tunnel s, v3s_io 0 s) = (a, n, t, io)"
    by (cases "v3_heartbeat_tick R L encode E (v3s_cleanup_counter s, v3s_tunnel s, v3s_io 0 s)")
  have "v3_state_ok R (t, io)"
    using tick v3_ok_state [OF ok, of 0]
    by (auto simp: v3_heartbeat_tick_def Let_def dest: v3_cleanup_spec(1) split: prod.splits if_splits)
  with ok tick V3_Tick show ?thesis
    by (auto simp: v3_ok_def v3_state_ok_def Let_def)
next
  case (V3_Recv w E r)
  from ok have batch: "batch_ok (v3s_batches s w)" and errs: "v3s_errors s w \<le> 100"
    by (simp_all add: v3_ok_def)
  note state = v3_ok_state [OF ok, of w]
  consider p src where "r = Received p src" "v3_packet_size_ok p"
    | p src where "r = Received p src" "\<not> v3_packet_size_ok p" | "r = Receive_Error"
    by (cases r) blast+
  then show ?thesis
  proof cases
    case (1 p src)
    obtain t' io' where st: "v3_step R L encode (V3_Recv w E (Received p src)) s =
        Some (v3s_put w (0, t', io_maybe_flush io') s)" "v3_state_ok R (t', io')"
      and eff: "handler_effect record_v3_tx E (v3s_io w s) (record_v3_rx (of_nat (length p)) (v3s_batches s w))
        (v3_replies R L E p src (v3s_tunnel s)) io'"
      by (rule v3_recv_packet [OF ok 1(2)])
    from eff have "one_packet (v3s_batches s w) (io_batch io')"
      using one_packet_v3_sends [OF v3_replies_at_most_one] by (simp add: handler_effect_def)
    with batch have "batch_ok (io_batch (io_maybe_flush io'))" by (rule io_maybe_flush_batch)
    moreover have "v3_state_ok R (t', io_maybe_flush io')"
      by (rule v3_state_ok_io [OF st(2)]) simp
    ultimately show ?thesis using st(1) v3_ok_put [OF ok] V3_Recv 1 by auto
  next
    case (2 p src)
    have "v3_state_ok R (v3s_tunnel s,
        io_metrics_update (invalid_packets_update (\<lambda>n. n + 1)) (v3s_io w s))"
      by (rule v3_state_ok_io [OF state]) simp
    from v3_ok_put [OF ok this, of 0 w] 2 batch V3_Recv show ?thesis
      by (auto simp: v3_receive_step_def v3_packet_size_ok_def)
  next
    case 3
    have "v3_state_ok R (v3s_tunnel s, io_flush (v3s_io w s))"
      by (rule v3_state_ok_io [OF state]) simp
    from v3_ok_put [OF ok this] 3 V3_Recv show ?thesis
      by (simp add: v3_receive_step_def Let_def not_less)
  qed
qed


lemma v3_start_ok:
  assumes "endpoint_laws R" and "v3_active_clients m = 0"
  shows "v3_ok R (v3_start (tunnel_v3_new L sha1 c) m)"
  using assms
  by (simp add: v3_ok_def v3_start_def tunnel_v3_new_def v3_tunnel_ok_def clients_ok_def)

lemma v3_step_sent:
  assumes "v3_ok R s" and "v3_step R L encode (V3_Recv w E (Received p src)) s = Some s'"
  shows "v3s_sent s' = v3s_sent s @
    (if v3_packet_size_ok p then v3_replies R L E p src (v3s_tunnel s) else [])"
proof (cases "v3_packet_size_ok p")
  case True
  obtain t' io' where "v3_step R L encode (V3_Recv w E (Received p src)) s =
      Some (v3s_put w (0, t', io_maybe_flush io') s)"
    "handler_effect record_v3_tx E (v3s_io w s) (record_v3_rx (of_nat (length p)) (v3s_batches s w))
       (v3_replies R L E p src (v3s_tunnel s)) io'"
    by (rule v3_recv_packet [OF assms(1) True])
  with assms(2) True show ?thesis by (auto simp: handler_effect_def)
next
  case False
  with assms(2) show ?thesis by (auto simp: v3_receive_step_def v3_packet_size_ok_def)
qed

lemma v3_step_quiet:
  assumes "v3_step R L encode e s = Some s'" and "\<nexists>p src. v3_rx e = Some (Received p src)"
  shows "v3s_sent s' = v3s_sent s"
proof (cases e)
  case (V3_Recv w E r)
  with assms(2) have "r = Receive_Error" by (cases r) auto
  with assms(1) V3_Recv show ?thesis by (auto simp: v3_receive_step_def Let_def)
next
  case (V3_Tick E)
  with assms(1) show ?thesis by (auto simp: Let_def split: prod.splits)
qed

text \<open>The table and the maintenance mode after a packet that is no command.\<close>

lemma v3_step_table:
  assumes "v3_ok R s" and "v3_step R L encode (V3_Recv w E (Received p src)) s = Some s'"
    and "v3_packet_size_ok p \<Longrightarrow> v3_kind R p src \<noteq> Command"
  shows "v3_table R (v3s_tunnel s') =
      (if v3_packet_size_ok p then v3_table_next R L E p src (v3s_tunnel s)
       else v3_table R (v3s_tunnel s))"
    and "v3_maintenance_mode (v3s_tunnel s') = v3_maintenance_mode (v3s_tunnel s)"
proof -
  have "v3_table R (v3s_tunnel s') =
      (if v3_packet_size_ok p then v3_table_next R L E p src (v3s_tunnel s)
       else v3_table R (v3s_tunnel s)) \<and>
      v3_maintenance_mode (v3s_tunnel s') = v3_maintenance_mode (v3s_tunnel s)"
  proof (cases "v3_packet_size_ok p")
    case True
    show ?thesis
      by (rule v3_recv_packet [OF assms(1) True, of L encode w E src])
         (use assms(2,3) True in auto)
  next
    case False
    with assms(2) show ?thesis by (auto simp: v3_receive_step_def v3_packet_size_ok_def)
  qed
  then show "v3_table R (v3s_tunnel s') =
      (if v3_packet_size_ok p then v3_table_next R L E p src (v3s_tunnel s)
       else v3_table R (v3s_tunnel s))"
    and "v3_maintenance_mode (v3s_tunnel s') = v3_maintenance_mode (v3s_tunnel s)" by blast+
qed

lemma v3_replies_relay:
  assumes "v3_replies R L E p src t = [d]"
  shows "ping_echo p src d \<or>
    (verbatim p src d \<and> v3_kind R p src \<noteq> Command \<and> \<not> v3_maintenance_mode t \<and>
     (\<exists>k. v3_table_next R L E p src t k = Some (fst d)))"
proof (cases "v3_kind R p src")
  case Ping
  then have "length p = 50"
    by (auto simp: v3_kind_def split: option.splits if_splits)
  with assms Ping show ?thesis by (auto simp: v3_replies_def ping_echo_def split: if_splits)
next
  case (Data sid rid)
  with assms show ?thesis
    by (auto simp: v3_replies_def v3_table_next_def forwards_def verbatim_def Let_def
        split: if_splits option.splits)
qed (use assms in \<open>simp_all add: v3_replies_def\<close>)

interpretation v3: relay "v3_step R L encode" v3_rx v3s_sent "v3_ok R" "v3_registered R"
    "\<lambda>s. v3_maintenance_mode (v3s_tunnel s)" for R L encode
proof
  fix R L encode s e
  show "v3_ok R s \<Longrightarrow> \<exists>s'. v3_step R L encode e s = Some s' \<and> v3_ok R s'"
    by (rule v3_step_ok)
next
  fix R L encode s s' e
  assume ok: "v3_ok R s" and step: "v3_step R L encode e s = Some s'"
  show "\<exists>new. v3s_sent s' = v3s_sent s @ new \<and> answers (v3_rx e) new"
  proof (cases "\<exists>p src. v3_rx e = Some (Received p src)")
    case False
    with v3_step_quiet [OF step] show ?thesis by (auto simp: answers_def)
  next
    case True
    then obtain w E p src where e: "e = V3_Recv w E (Received p src)" by (auto elim!: v3_rx.elims)
    have "answers (Some (Received p src)) (v3_replies R L E p src (v3s_tunnel s))"
      using v3_replies_at_most_one [of R L E p src "v3s_tunnel s"]
    proof
      assume "\<exists>d. v3_replies R L E p src (v3s_tunnel s) = [d]"
      then obtain d where d: "v3_replies R L E p src (v3s_tunnel s) = [d]" by blast
      from v3_replies_relay [OF d] have "length (snd d) \<le> length p"
        by (auto simp: ping_echo_def verbatim_def)
      with d show ?thesis by (cases d) (auto simp: answers_def)
    qed (simp add: answers_def)
    with v3_step_sent [OF ok step [unfolded e]] show ?thesis
      by (auto simp: e answers_def)
  qed
next
  fix R L encode s s' e d p src
  assume ok: "v3_ok R s" and step: "v3_step R L encode e s = Some s'"
    and sent: "v3s_sent s' = v3s_sent s @ [d]" and rx: "v3_rx e = Some (Received p src)"
  obtain w E where e: "e = V3_Recv w E (Received p src)" using rx by (auto elim!: v3_rx.elims)
  from v3_step_sent [OF ok step [unfolded e]] sent
  have size: "v3_packet_size_ok p" and d: "v3_replies R L E p src (v3s_tunnel s) = [d]"
    by (auto split: if_splits)
  from v3_replies_relay [OF d] v3_step_table(1) [OF ok step [unfolded e]] size
  show "ping_echo p src d \<or>
      (verbatim p src d \<and> v3_registered R s' (fst d) \<and> \<not> v3_maintenance_mode (v3s_tunnel s))"
    by (auto simp: v3_registered_def)
qed

declare v3_step.simps [simp del]

end
