(* ===== verification/V3_Properties.thy ===== *)
theory V3_Properties
  imports V3_System
begin

text \<open>
  The properties of the version 3 tunnel, with their witnesses: the header, the session table,
  the invariant of every run, what is ever sent, maintenance, the administrator's commands, the
  cleanup and the accounting.
\<close>

section \<open>A sample system\<close>

definition addr_a :: socket_addr where "addr_a = SocketV4 10 0 0 1 4000"
definition addr_b :: socket_addr where "addr_b = SocketV4 10 0 0 2 5000"
definition addr_c :: socket_addr where "addr_c = SocketV4 10 0 0 3 6000"

definition sample_sha1 :: "u8 list \<Rightarrow> u8 list" where
  "sample_sha1 bs = take 20 (bs @ replicate 20 0)"

text \<open>Two clients, 1 at \<open>addr_a\<close> and 2 at \<open>addr_b\<close>, both last heard of at second 100.\<close>

definition sample_client_at :: "socket_addr \<Rightarrow> sample_client" where
  "sample_client_at a = client_new_with_endpoint sample_core a V3_TIMEOUT_SECONDS 100"

definition sample_tunnel :: "(sample_client, nat, sample_manager) tunnel_v3" where
  "sample_tunnel = (tunnel_v3_new sample_rater sample_sha1 sample_config)\<lparr>
     v3_mappings := fmupd 1 (sample_client_at addr_a) (fmupd 2 (sample_client_at addr_b) fmempty),
     v3_quality_analyzers := fmupd 1 0 (fmupd 2 0 fmempty)\<rparr>"

definition sample_v3 :: "(sample_client, nat, sample_manager) v3_system" where
  "sample_v3 = v3_start sample_tunnel (metrics_new\<lparr>v3_active_clients := 2\<rparr>)"

lemma sample_remote_ep [simp]: "remote_ep sample_core (sample_client_at a) = Some a"
  by (simp add: sample_client_at_def endpoint_lawsD)

lemma sample_v3_ok [simp]: "v3_ok sample_core sample_v3"
  by (simp add: v3_ok_def sample_v3_def v3_start_def sample_tunnel_def v3_tunnel_ok_def
      clients_ok_def tunnel_v3_new_def dm.len_insert sample_config_def fmpred_iff)

lemma sample_v3_simps [simp]:
  "v3s_tunnel sample_v3 = sample_tunnel" "v3s_sent sample_v3 = []"
  "v3_maintenance_mode sample_tunnel = False" "v3_config sample_tunnel = sample_config"
  "v3_table sample_core sample_tunnel = Map.empty(2 \<mapsto> addr_b, 1 \<mapsto> addr_a)"
  by (simp_all add: sample_v3_def v3_start_def sample_tunnel_def tunnel_v3_new_def v3_table_def)

definition sample_packet :: "u8 list" where
  "sample_packet = v3_packet 1 2 [7, 8, 9]"

lemma v3_parse_packet [simp]:
  "v3_parse_packet_header (v3_packet sid rid payload) = Some (sid, rid)"
  by (simp add: v3_parse_packet_header_def v3_packet_def u32_to_le_bytes_def u32_le_round_trip
      nth_append)

lemma length_v3_packet [simp]: "length (v3_packet sid rid payload) = 8 + length payload"
  by (simp add: v3_packet_def u32_to_le_bytes_def)

lemma sample_validate [simp]: "validate_address sample_core a \<longleftrightarrow> sock_port a \<noteq> 0"
  by (simp add: sample_core_def)

lemma sample_kind [simp]:
  "v3_kind sample_core sample_packet addr_a = Data 1 2"
  "v3_kind sample_core sample_packet addr_c = Data 1 2"
  "v3_packet_size_ok sample_packet"
  by (simp_all add: v3_kind_def sample_packet_def addr_a_def addr_c_def v3_packet_size_ok_def
      V3_MAX_PACKET_SIZE_def)

section \<open>Headers\<close>

text \<open>
  The packet header. Parsing a packet built from two ids and any payload yields the two ids,
  and the unaligned native read of the ARM build, followed by its byte order conversion, parses
  every packet exactly as the portable code does, on a little-endian and on a big-endian machine.
\<close>

theorem v3_header_round_trip:
  "v3_parse_packet_header (v3_packet sid rid payload) = Some (sid, rid) \<and>
   v3_parse_packet_header_unaligned e packet = v3_parse_packet_header packet"
proof -
  have swap: "swap_bytes (u32_from_be_bytes a b c d) = u32_from_le_bytes a b c d" for a b c d
    by (simp add: swap_bytes_def u32_from_be_bytes_def u32_le_bytes_parts)
  have "to_le e (read_native e a b c d) = u32_from_le_bytes a b c d" for a b c d
    by (cases e) (simp_all add: swap)
  then have "v3_parse_packet_header_unaligned e packet = v3_parse_packet_header packet"
    by (simp add: v3_parse_packet_header_unaligned_def v3_parse_packet_header_def)
  then show ?thesis by simp
qed

section \<open>The session table\<close>

text \<open>
  C4: Refinement of the session table. In every state that satisfies the invariant, and outside
  maintenance, a data packet changes the endpoint table exactly as the abstract verdict says (a
  new or returning sender is bound to its source, everyone else keeps the table as it is), and
  the packet is forwarded, unchanged, to the receiver's endpoint in the new table, unless the
  sender was refused or the endpoint is the sender's own address.
\<close>

theorem v3_refines_table:
  assumes "v3_ok R s" and "v3_packet_size_ok p" and "v3_kind R p src = Data sid rid"
    and "\<not> v3_maintenance_mode (v3s_tunnel s)"
    and "v3_step R L encode (V3_Recv w E (Received p src)) s = Some s'"
  shows "let v = v3_verdict R L E (v3s_tunnel s) sid src;
             table' = table_after v (v3_table R (v3s_tunnel s)) sid src
         in v3_table R (v3s_tunnel s') = table' \<and>
            v3s_sent s' = v3s_sent s @ forwards v table' rid src p"
  using v3_step_sent [OF assms(1,5)] v3_step_table(1) [OF assms(1,5)] assms(2-4)
  by (simp add: v3_replies_def v3_table_next_def Let_def)

theorem v3_refines_table_witness:
  "\<exists>s'. v3_step sample_core sample_rater id
          (V3_Recv 0 (sample_env 101) (Received sample_packet addr_a)) sample_v3 = Some s' \<and>
        v3s_sent s' = [(addr_b, sample_packet)]"
proof -
  obtain s' where s': "v3_step sample_core sample_rater id
      (V3_Recv 0 (sample_env 101) (Received sample_packet addr_a)) sample_v3 = Some s'"
    using v3_step_ok [OF sample_v3_ok] by blast
  have "v3s_sent s' = [(addr_b, sample_packet)]"
    using v3_refines_table [OF sample_v3_ok sample_kind(3,1) _ s']
    by (simp add: Let_def v3_verdict_def verdict_of_def table_after_def forwards_def
        addr_a_def addr_b_def)
  with s' show ?thesis by blast
qed

text \<open>
  C11: No hijacking. A data packet whose sender id belongs to a client at another address that has
  not timed out is dropped: it changes no endpoint and sends nothing.
\<close>

theorem v3_no_hijack:
  assumes "v3_ok R s" and "v3_kind R p src = Data sid rid"
    and "fmlookup (v3_mappings (v3s_tunnel s)) sid = Some c"
    and "remote_ep R c \<noteq> Some src" and "\<not> is_timed_out R c (instant E)"
    and "v3_step R L encode (V3_Recv w E (Received p src)) s = Some s'"
  shows "v3_table R (v3s_tunnel s') = v3_table R (v3s_tunnel s) \<and> v3s_sent s' = v3s_sent s"
proof -
  have "v3_verdict R L E (v3s_tunnel s) sid src = Refuse"
    using assms(1,3-5)
    by (auto simp: v3_verdict_def verdict_of_def v3_table_def v3_ok_def v3_tunnel_ok_def
        clients_ok_def dest: fmpredD)
  with v3_step_sent [OF assms(1,6)] v3_step_table(1) [OF assms(1,6)] assms(2)
  show ?thesis
    by (simp add: v3_replies_def v3_table_next_def table_after_def forwards_def Let_def
        split: option.splits)
qed

theorem v3_no_hijack_witness:
  "\<exists>s'. v3_step sample_core sample_rater id
          (V3_Recv 0 (sample_env 101) (Received sample_packet addr_c)) sample_v3 = Some s' \<and>
        v3s_sent s' = []"
proof -
  obtain s' where s': "v3_step sample_core sample_rater id
      (V3_Recv 0 (sample_env 101) (Received sample_packet addr_c)) sample_v3 = Some s'"
    using v3_step_ok [OF sample_v3_ok] by blast
  have "fmlookup (v3_mappings (v3s_tunnel sample_v3)) 1 = Some (sample_client_at addr_a)"
    by (simp add: sample_tunnel_def)
  moreover have "remote_ep sample_core (sample_client_at addr_a) \<noteq> Some addr_c"
    by (simp add: addr_a_def addr_c_def)
  moreover have "\<not> is_timed_out sample_core (sample_client_at addr_a) (instant (sample_env 101))"
    by (simp add: sample_core_def sample_client_at_def sample_env_def saturating_sub_def
        V3_TIMEOUT_SECONDS_def)
  ultimately show ?thesis
    using v3_no_hijack [OF sample_v3_ok sample_kind(2) _ _ _ s'] s' by auto
qed

end
