(* ===== verification/V3_Control.thy ===== *)
theory V3_Control
  imports V3_Properties
begin

text \<open>
  The version 3 tunnel over time: every run from a fresh tunnel, maintenance, the administrator's
  commands, the cleanup by the heartbeat, and the accounting of packets and bytes.
\<close>

section \<open>Runs\<close>

lemma v3_step_config:
  assumes "v3_ok R s" and "v3_step R L encode e s = Some s'"
  shows "v3_config (v3s_tunnel s') = v3_config (v3s_tunnel s)"
proof (cases e)
  case (V3_Recv w E r)
  consider p src where "r = Received p src" "v3_packet_size_ok p"
    | p src where "r = Received p src" "\<not> v3_packet_size_ok p" | "r = Receive_Error"
    by (cases r) blast+
  then show ?thesis
  proof cases
    case (1 p src)
    show ?thesis
      by (rule v3_recv_packet [OF assms(1) 1(2), of L encode w E src])
         (use assms(2) V3_Recv 1 in auto)
  qed (use assms(2) V3_Recv in \<open>auto simp: v3_step.simps v3_receive_step_def v3_packet_size_ok_def Let_def\<close>)
next
  case (V3_Tick E)
  with assms v3_ok_state [OF assms(1), of 0] show ?thesis
    by (auto simp: v3_step.simps v3_heartbeat_tick_def Let_def dest: v3_cleanup_spec(3) split: prod.splits if_splits)
qed

lemma v3_run_config:
  assumes "v3_ok R s" and "run_all (v3_step R L encode) es s = Some s'"
  shows "v3_config (v3s_tunnel s') = v3_config (v3s_tunnel s)"
  by (rule v3.run_frame [where f = "\<lambda>s. v3_config (v3s_tunnel s)", OF v3_step_config assms])

lemma v3_start_simps [simp]:
  "v3s_tunnel (v3_start t m) = t" "v3s_sent (v3_start t m) = []"
  "v3_config (tunnel_v3_new L sha1 c) = c"
  by (simp_all add: v3_start_def tunnel_v3_new_def)

text \<open>
  C3: Every run is safe. From a fresh tunnel, no sequence of packets, receive errors and heartbeat
  ticks, on any workers in any order, makes a handler panic; afterwards the number of clients is
  within the limit and is what the gauge shows, every client has an endpoint and a quality
  analyzer, no worker has pending packet counts past the flush interval, and no worker's error
  count exceeds 100.
\<close>

theorem v3_runs_safe:
  assumes "endpoint_laws R" and "v3_active_clients m = 0"
  shows "\<exists>s'. run_all (v3_step R L encode) es (v3_start (tunnel_v3_new L sha1 c) m) = Some s' \<and>
    dm_len (v3_mappings (v3s_tunnel s')) \<le> max_clients c \<and>
    v3_active_clients (v3s_metrics s') = dm_len (v3_mappings (v3s_tunnel s')) \<and>
    fmpred (\<lambda>k cl. remote_ep R cl \<noteq> None) (v3_mappings (v3s_tunnel s')) \<and>
    fmdom (v3_quality_analyzers (v3s_tunnel s')) = fmdom (v3_mappings (v3s_tunnel s')) \<and>
    (\<forall>w. unat (v3_packets_rx (v3s_batches s' w)) < 64 \<and> unat (v3_packets_tx (v3s_batches s' w)) < 64 \<and>
         v3s_errors s' w \<le> 100)"
proof -
  let ?s = "v3_start (tunnel_v3_new L sha1 c) m"
  have ok: "v3_ok R ?s" using assms by (rule v3_start_ok)
  from v3.run_ok [OF ok] obtain s' where
    s': "run_all (v3_step R L encode) es ?s = Some s'" "v3_ok R s'" by blast
  from v3_run_config [OF ok s'(1)] have cfg: "v3_config (v3s_tunnel s') = c" by simp
  have "v3_tunnel_ok R (v3s_tunnel s')" "\<And>w. batch_ok (v3s_batches s' w)"
    "\<And>w. v3s_errors s' w \<le> 100"
    "v3_active_clients (v3s_metrics s') = dm_len (v3_mappings (v3s_tunnel s'))"
    using s'(2) by (simp_all add: v3_ok_def)
  with s'(1) cfg show ?thesis
    by (auto simp: v3_tunnel_ok_def clients_ok_def batch_ok_bounds)
qed

theorem v3_runs_safe_witness:
  "\<exists>s'. run_all (v3_step sample_core sample_rater id)
          [V3_Recv 0 (sample_env 1) (Received sample_packet addr_a), V3_Tick (sample_env 60)]
          (v3_start (tunnel_v3_new sample_rater sample_sha1 sample_config) metrics_new) = Some s' \<and>
        dm_len (v3_mappings (v3s_tunnel s')) \<le> 2"
proof -
  have "v3_active_clients metrics_new = 0" by (simp add: metrics_new_def)
  from v3_runs_safe [OF sample_endpoint_laws this, of sample_rater id
      "[V3_Recv 0 (sample_env 1) (Received sample_packet addr_a), V3_Tick (sample_env 60)]"
      sample_sha1 sample_config]
  show ?thesis by (auto simp: sample_config_def)
qed

text \<open>
  C8: No amplification and no forged content. Over any run from a state that satisfies the
  invariant, the tunnel sends at most one datagram for each packet it receives and at most as many
  payload bytes as it receives; and each datagram is either the first twelve bytes of a fifty byte
  packet, returned to the address that packet came from, or a received packet, unchanged, to an
  address other than its source.
\<close>

theorem v3_sends_only_relayed:
  assumes "v3_ok R s" and "run_all (v3_step R L encode) es s = Some s'"
  shows "\<exists>new. v3s_sent s' = v3s_sent s @ new \<and> length new \<le> length es \<and>
           payload_bytes new \<le> received_bytes v3_rx es \<and>
           (\<forall>d \<in> set new. \<exists>e \<in> set es. \<exists>p src. v3_rx e = Some (Received p src) \<and>
              (length p = 50 \<and> d = (src, take 12 p) \<or> snd d = p \<and> fst d \<noteq> src))"
proof -
  obtain new where new: "v3s_sent s' = v3s_sent s @ new" "length new \<le> length es"
    "payload_bytes new \<le> received_bytes v3_rx es"
    using v3.run_sent [OF assms] by blast
  have "\<exists>e \<in> set es. \<exists>p src. v3_rx e = Some (Received p src) \<and>
      (length p = 50 \<and> d = (src, take 12 p) \<or> snd d = p \<and> fst d \<noteq> src)" if "d \<in> set new" for d
    using v3.run_origin [OF assms, of d] new(1) that by (auto simp: ping_echo_def verbatim_def)
  with new show ?thesis by blast
qed

theorem v3_sends_only_relayed_witness:
  "\<exists>s' new. run_all (v3_step sample_core sample_rater id)
       [V3_Recv 0 (sample_env 101) (Received sample_packet addr_a)] sample_v3 = Some s' \<and>
     v3s_sent s' = new \<and> length new \<le> 1 \<and> payload_bytes new \<le> 11"
proof -
  let ?es = "[V3_Recv 0 (sample_env 101) (Received sample_packet addr_a)]"
  obtain s' where s': "run_all (v3_step sample_core sample_rater id) ?es sample_v3 = Some s'"
    using v3.run_ok [OF sample_v3_ok, of sample_rater id ?es] by blast
  from v3_sends_only_relayed [OF sample_v3_ok s'] s' show ?thesis
    by (auto simp: received_bytes_def sample_packet_def)
qed

section \<open>Maintenance\<close>

text \<open>
  Maintenance. In maintenance mode the tunnel relays nothing, not even for clients that are
  already connected: any packet but a command leaves the endpoint table, the mode and the number
  of clients as they are, and all it can make the tunnel send is the echo of a ping.
\<close>

theorem v3_maintenance_blackout:
  assumes "v3_ok R s" and "v3_maintenance_mode (v3s_tunnel s)"
    and "v3_packet_size_ok p \<Longrightarrow> v3_kind R p src \<noteq> Command"
    and "v3_step R L encode (V3_Recv w E (Received p src)) s = Some s'"
  shows "v3_table R (v3s_tunnel s') = v3_table R (v3s_tunnel s) \<and>
    v3_maintenance_mode (v3s_tunnel s') \<and>
    (v3s_sent s' = v3s_sent s \<or> v3s_sent s' = v3s_sent s @ [(src, take 12 p)])"
proof -
  have "v3_table_next R L E p src (v3s_tunnel s) = v3_table R (v3s_tunnel s)"
    using assms(2) by (simp add: v3_table_next_def split: packet_kind.splits)
  with v3_step_table [OF assms(1,4,3)] v3.closed_only_pings [OF assms(1,2,4)] assms(2)
  show ?thesis by simp
qed


definition closed_v3 :: "(sample_client, nat, sample_manager) v3_system" where
  "closed_v3 = sample_v3\<lparr>v3s_tunnel := sample_tunnel\<lparr>v3_maintenance_mode := True\<rparr>\<rparr>"

lemma closed_v3_ok [simp]: "v3_ok sample_core closed_v3"
  using sample_v3_ok by (simp add: closed_v3_def v3_ok_def v3_tunnel_ok_def sample_v3_def v3_start_def)

theorem v3_maintenance_blackout_witness:
  "\<exists>s'. v3_step sample_core sample_rater id
          (V3_Recv 0 (sample_env 101) (Received sample_packet addr_a)) closed_v3 = Some s' \<and>
        v3_maintenance_mode (v3s_tunnel s')"
proof -
  obtain s' where s': "v3_step sample_core sample_rater id
      (V3_Recv 0 (sample_env 101) (Received sample_packet addr_a)) closed_v3 = Some s'"
    using v3_step_ok [OF closed_v3_ok] by blast
  have "v3_maintenance_mode (v3s_tunnel closed_v3)" by (simp add: closed_v3_def)
  from v3_maintenance_blackout [OF closed_v3_ok this _ s'] s' show ?thesis by simp
qed

section \<open>Commands\<close>

text \<open>Whether a command may take effect: a minute has passed and the password's digest is right.\<close>

definition v3_rate_limited :: "'i env \<Rightarrow> ('c, 'q, 'm) tunnel_v3 \<Rightarrow> bool" where
  "v3_rate_limited E t \<longleftrightarrow>
     saturating_sub (uptime_secs E) (v3_last_command_tick t) < COMMAND_RATE_LIMIT_SECS"

definition v3_authorised :: "'i env \<Rightarrow> u8 list \<Rightarrow> ('c, 'q, 'm) tunnel_v3 \<Rightarrow> bool" where
  "v3_authorised E p t \<longleftrightarrow>
     \<not> v3_rate_limited E t \<and> v3_maintenance_password_sha1 t = Some (take 20 (drop 9 p))"

lemma v3_execute_command_eq:
  assumes "29 \<le> length p"
  shows "v3_execute_command R L E p (t, io) = Some (
    if v3_rate_limited E t \<or> v3_maintenance_password_sha1 t = None then (t, io)
    else let t1 = t\<lparr>v3_last_command_tick := uptime_secs E\<rparr> in
      if \<not> v3_authorised E p t then (t1, io)
      else if p ! 8 = 0 then (t1\<lparr>v3_maintenance_mode := \<not> v3_maintenance_mode t\<rparr>, io)
      else if p ! 8 = 1 then v3_cleanup_expired_mappings R L E (t1, io)
      else (t1, io))"
  using assms
  by (auto simp: v3_execute_command_def v3_authorised_def v3_rate_limited_def Let_def
      split: option.splits)

lemma v3_step_command:
  assumes "v3_packet_size_ok p" and "v3_kind R p src = Command"
    and "v3_step R L encode (V3_Recv w E (Received p src)) s = Some s'"
  obtains io' where "v3_execute_command R L E p
      (v3s_tunnel s, io_batch_update (record_v3_rx (of_nat (length p))) (v3s_io w s)) =
      Some (v3s_tunnel s', io')" "29 \<le> length p"
proof -
  have ids: "v3_parse_packet_header p = Some (0, u32_MAX)" and len: "29 \<le> length p"
    using assms(2) by (auto simp: v3_kind_def split: option.splits if_splits)
  obtain t' io' where ex: "v3_execute_command R L E p
      (v3s_tunnel s, io_batch_update (record_v3_rx (of_nat (length p))) (v3s_io w s)) = Some (t', io')"
    unfolding v3_execute_command_eq [OF len] by (metis surj_pair)
  with assms(1,3) len that show thesis
    by (auto simp: v3_step.simps v3_receive_step_def v3_packet_size_ok_def v3_on_receive_def ids
        Let_def)
qed

lemma v3_cleanup_fields [simp]:
  "v3_mappings (fst (v3_cleanup_expired_mappings R L E (t, io))) =
     dm_retain (\<lambda>k c. \<not> is_timed_out R c (instant E)) (v3_mappings t)"
  "v3_maintenance_mode (fst (v3_cleanup_expired_mappings R L E (t, io))) = v3_maintenance_mode t"
  "v3_last_command_tick (fst (v3_cleanup_expired_mappings R L E (t, io))) = v3_last_command_tick t"
  "v3_maintenance_password_sha1 (fst (v3_cleanup_expired_mappings R L E (t, io))) =
     v3_maintenance_password_sha1 t"
  "v3_ping_limiter (fst (v3_cleanup_expired_mappings R L E (t, io))) = reset L (v3_ping_limiter t)"
  by (simp_all add: v3_cleanup_expired_mappings_def Let_def)

text \<open>The fields of the tunnel after a command.\<close>

lemma v3_execute_command_fields:
  assumes "29 \<le> length p" and "v3_execute_command R L E p (t, io) = Some (t', io')"
  shows "v3_maintenance_mode t' =
      (if v3_authorised E p t \<and> p ! 8 = 0 then \<not> v3_maintenance_mode t else v3_maintenance_mode t)"
    and "v3_mappings t' =
      (if v3_authorised E p t \<and> p ! 8 = 1
       then dm_retain (\<lambda>k c. \<not> is_timed_out R c (instant E)) (v3_mappings t) else v3_mappings t)"
    and "v3_last_command_tick t' =
      (if v3_rate_limited E t \<or> v3_maintenance_password_sha1 t = None then v3_last_command_tick t
       else uptime_secs E)"
    and "v3_maintenance_password_sha1 t' = v3_maintenance_password_sha1 t"
proof -
  have t': "t' = fst (the (v3_execute_command R L E p (t, io)))" using assms(2) by simp
  note eq = v3_execute_command_eq [OF assms(1)]
  show "v3_maintenance_mode t' =
      (if v3_authorised E p t \<and> p ! 8 = 0 then \<not> v3_maintenance_mode t else v3_maintenance_mode t)"
    unfolding t' eq by (auto simp: v3_authorised_def Let_def)
  show "v3_mappings t' =
      (if v3_authorised E p t \<and> p ! 8 = 1
       then dm_retain (\<lambda>k c. \<not> is_timed_out R c (instant E)) (v3_mappings t) else v3_mappings t)"
    unfolding t' eq by (auto simp: v3_authorised_def Let_def)
  show "v3_last_command_tick t' =
      (if v3_rate_limited E t \<or> v3_maintenance_password_sha1 t = None then v3_last_command_tick t
       else uptime_secs E)"
    unfolding t' eq by (auto simp: v3_authorised_def Let_def)
  show "v3_maintenance_password_sha1 t' = v3_maintenance_password_sha1 t"
    unfolding t' eq by (auto simp: v3_authorised_def Let_def)
qed

text \<open>A command packet as the administrator's tool builds it.\<close>

definition command_packet :: "u8 \<Rightarrow> u8 list \<Rightarrow> u8 list" where
  "command_packet n digest = v3_packet 0 u32_MAX (n # digest)"

lemma command_packet [simp]:
  assumes "length digest = 20"
  shows "v3_packet_size_ok (command_packet n digest)"
    "v3_kind R (command_packet n digest) src = Command"
    "command_packet n digest ! 8 = n" "take 20 (drop 9 (command_packet n digest)) = digest"
  using assms
  by (simp_all add: command_packet_def v3_packet_size_ok_def V3_MAX_PACKET_SIZE_def v3_kind_def)
     (simp_all add: v3_packet_def u32_to_le_bytes_def)

lemma sample_sha1_length [simp]: "length (sample_sha1 bs) = 20"
  by (simp add: sample_sha1_def)


lemma sample_tunnel_password [simp]:
  "v3_maintenance_password_sha1 sample_tunnel = Some (sample_sha1 (string_bytes ''pw''))"
  "v3_last_command_tick sample_tunnel = 0"
  by (simp_all add: sample_tunnel_def tunnel_v3_new_def sample_config_def)

lemma sample_uptime [simp]: "uptime_secs (sample_env t) = of_nat t" "instant (sample_env t) = t"
  by (simp_all add: sample_env_def)

text \<open>
  C7: Command authority. A received packet toggles the maintenance mode exactly when it is a
  command with byte 8 equal to 0 whose bytes 9 to 28 are the digest of the maintenance password
  and at least sixty seconds have passed since the last command that was looked at. Under the same
  condition with byte 8 equal to 1, a command removes exactly the timed out clients; every other
  command leaves the clients alone.
\<close>

theorem v3_command_authority:
  assumes "v3_ok R s" and "v3_step R L encode (V3_Recv w E (Received p src)) s = Some s'"
  defines "t \<equiv> v3s_tunnel s"
  defines "command n \<equiv> v3_packet_size_ok p \<and> v3_kind R p src = Command \<and> p ! 8 = n \<and>
      60 \<le> saturating_sub (uptime_secs E) (v3_last_command_tick t) \<and>
      v3_maintenance_password_sha1 t = Some (take 20 (drop 9 p))"
  shows "(v3_maintenance_mode (v3s_tunnel s') \<noteq> v3_maintenance_mode t) = command 0 \<and>
    (v3_packet_size_ok p \<and> v3_kind R p src = Command \<longrightarrow>
       v3_mappings (v3s_tunnel s') =
         (if command 1 then dm_retain (\<lambda>k c. \<not> is_timed_out R c (instant E)) (v3_mappings t)
          else v3_mappings t))"
proof (cases "v3_packet_size_ok p \<and> v3_kind R p src = Command")
  case True
  obtain io' where "v3_execute_command R L E p
      (t, io_batch_update (record_v3_rx (of_nat (length p))) (v3s_io w s)) =
      Some (v3s_tunnel s', io')" "29 \<le> length p"
    unfolding t_def by (rule v3_step_command [OF _ _ assms(2)]) (use True in auto)
  from v3_execute_command_fields(1,2) [OF this(2,1)] True show ?thesis
    by (auto simp: command_def v3_authorised_def v3_rate_limited_def COMMAND_RATE_LIMIT_SECS_def
        not_less)
next
  case False
  with v3_step_table(2) [OF assms(1,2)] show ?thesis by (auto simp: command_def t_def)
qed

theorem v3_command_authority_witness:
  "\<exists>s'. v3_step sample_core sample_rater id (V3_Recv 0 (sample_env 101)
          (Received (command_packet 0 (sample_sha1 (string_bytes ''pw''))) addr_c)) sample_v3 = Some s' \<and>
        v3_maintenance_mode (v3s_tunnel s')"
proof -
  obtain s' where s': "v3_step sample_core sample_rater id (V3_Recv 0 (sample_env 101)
      (Received (command_packet 0 (sample_sha1 (string_bytes ''pw''))) addr_c)) sample_v3 = Some s'"
    using v3_step_ok [OF sample_v3_ok] by blast
  from v3_command_authority [OF sample_v3_ok s'] s' show ?thesis
    by (simp add: saturating_sub_def)
qed



section \<open>Cleanup\<close>

lemma heartbeat_cadence:
  "(n + 1) mod 3 = 0 \<or> (n + 2) mod 3 = 0 \<or> (n + 3 :: u8) mod 3 = 0"
proof -
  have "unat n < 256" using unsigned_less [of n] by simp
  then consider "unat n \<le> 252" | "unat n = 253" | "unat n = 254" | "unat n = 255" by linarith
  then have "(unat n + 1) mod 256 mod 3 = 0 \<or> (unat n + 2) mod 256 mod 3 = 0 \<or>
      (unat n + 3) mod 256 mod 3 = 0"
  proof cases
    case 1
    have "(unat n + 1) mod 3 = 0 \<or> (unat n + 2) mod 3 = 0 \<or> (unat n + 3) mod 3 = 0" by presburger
    with 1 show ?thesis by simp
  qed simp_all
  then show ?thesis by (simp add: word_unat_eq_iff unat_mod unat_word_ariths)
qed

lemma v3_step_tick:
  assumes "v3_step R L encode (V3_Tick E) s = Some s'"
  shows "v3s_cleanup_counter s' = v3s_cleanup_counter s + 1"
    and "v3_mappings (v3s_tunnel s') =
      (if (v3s_cleanup_counter s + 1) mod 3 = 0
       then dm_retain (\<lambda>k c. \<not> is_timed_out R c (instant E)) (v3_mappings (v3s_tunnel s))
       else v3_mappings (v3s_tunnel s))"
    and "v3s_sent s' = v3s_sent s"
    and "v3_maintenance_mode (v3s_tunnel s') = v3_maintenance_mode (v3s_tunnel s)"
proof -
  obtain t io where cl: "v3_cleanup_expired_mappings R L E (v3s_tunnel s, v3s_io 0 s) = (t, io)"
    by fastforce
  have t: "v3_mappings t = dm_retain (\<lambda>k c. \<not> is_timed_out R c (instant E)) (v3_mappings (v3s_tunnel s))"
    "v3_maintenance_mode t = v3_maintenance_mode (v3s_tunnel s)"
    using v3_cleanup_fields(1,2) [of R L E "v3s_tunnel s" "v3s_io 0 s"] by (simp_all add: cl)
  show "v3s_cleanup_counter s' = v3s_cleanup_counter s + 1"
    "v3_mappings (v3s_tunnel s') =
      (if (v3s_cleanup_counter s + 1) mod 3 = 0
       then dm_retain (\<lambda>k c. \<not> is_timed_out R c (instant E)) (v3_mappings (v3s_tunnel s))
       else v3_mappings (v3s_tunnel s))"
    "v3s_sent s' = v3s_sent s"
    "v3_maintenance_mode (v3s_tunnel s') = v3_maintenance_mode (v3s_tunnel s)"
    using assms t
    by (auto simp: v3_step.simps v3_heartbeat_tick_def cl Let_def split: if_splits)
qed

text \<open>
  C19: Cleanup is never late. Whatever the heartbeat's 8-bit tick counter holds, its wrap included,
  of any three consecutive ticks at least one removes the timed out clients: a client still there
  afterwards was there before and had not timed out at the instant of one of the three ticks.
\<close>

theorem v3_cleanup_within_three_ticks:
  assumes "run_all (v3_step R L encode) [V3_Tick E1, V3_Tick E2, V3_Tick E3] s = Some s'"
    and "fmlookup (v3_mappings (v3s_tunnel s')) k = Some c"
  shows "fmlookup (v3_mappings (v3s_tunnel s)) k = Some c \<and>
    (\<exists>E \<in> {E1, E2, E3}. \<not> is_timed_out R c (instant E))"
proof -
  obtain s1 s2 where steps: "v3_step R L encode (V3_Tick E1) s = Some s1"
    "v3_step R L encode (V3_Tick E2) s1 = Some s2" "v3_step R L encode (V3_Tick E3) s2 = Some s'"
    using assms(1) by (auto simp: bind_eq_Some_conv)
  note t = v3_step_tick(1,2) [OF steps(1)] v3_step_tick(1,2) [OF steps(2)] v3_step_tick(2) [OF steps(3)]
  let ?n = "v3s_cleanup_counter s"
  have sums: "?n + 1 + 1 = ?n + 2" "?n + 2 + 1 = ?n + 3" by simp_all
  from heartbeat_cadence [of ?n] assms(2) show ?thesis
    by (auto simp: t sums split: if_splits option.splits)
qed

theorem v3_cleanup_within_three_ticks_witness:
  "\<exists>s'. run_all (v3_step sample_core sample_rater id)
       [V3_Tick (sample_env 200), V3_Tick (sample_env 210), V3_Tick (sample_env 220)] sample_v3 = Some s' \<and>
     fmlookup (v3_mappings (v3s_tunnel s')) 1 = None"
proof -
  let ?es = "[V3_Tick (sample_env 200), V3_Tick (sample_env 210), V3_Tick (sample_env 220)]"
  obtain s' where s': "run_all (v3_step sample_core sample_rater id) ?es sample_v3 = Some s'"
    using v3.run_ok [OF sample_v3_ok, of sample_rater id ?es] by blast
  have late: "is_timed_out sample_core (sample_client_at addr_a) (instant (sample_env n))"
    if "n \<in> {200, 210, 220}" for n
    using that by (auto simp: sample_core_def sample_client_at_def saturating_sub_def V3_TIMEOUT_SECONDS_def)
  have "fmlookup (v3_mappings (v3s_tunnel sample_v3)) 1 = Some (sample_client_at addr_a)"
    by (simp add: sample_tunnel_def)
  with v3_cleanup_within_three_ticks [OF s', of 1] late s' show ?thesis
    by (cases "fmlookup (v3_mappings (v3s_tunnel s')) 1") auto
qed

section \<open>Accounting\<close>

lemma v3_record_sends_counts:
  assumes "new = [] \<or> (\<exists>d. new = [d])" and "unat (v3_packets_tx b) < 64"
  shows "v3_counts (record_sends record_v3_tx E new b, m) = count_sends E new (v3_counts (b, m))"
  using assms by (auto simp: count_sends_def record_counts)

text \<open>
  C16: Accounting. For each packet of acceptable size, what the metrics show plus what the worker
  still has pending grows by exactly one received packet with its bytes and, for each datagram
  that was sent successfully, one sent packet with its bytes, whether or not the worker flushes
  its batch at this packet.
\<close>

theorem v3_accounting:
  assumes "v3_ok R s" and "v3_packet_size_ok p"
    and "v3_step R L encode (V3_Recv w E (Received p src)) s = Some s'"
  shows "\<exists>new. v3s_sent s' = v3s_sent s @ new \<and>
    v3_counts (v3s_batches s' w, v3s_metrics s') =
      count_sends E new (count_rx (length p) (v3_counts (v3s_batches s w, v3s_metrics s)))"
proof -
  let ?new = "v3_replies R L E p src (v3s_tunnel s)"
  let ?rx = "record_v3_rx (of_nat (length p)) (v3s_batches s w)"
  obtain t' io' where st: "v3_step R L encode (V3_Recv w E (Received p src)) s =
      Some (v3s_put w (0, t', io_maybe_flush io') s)"
    and eff: "handler_effect record_v3_tx E (v3s_io w s) ?rx ?new io'"
    by (rule v3_recv_packet [OF assms(1,2)])
  from assms(1) have b: "unat (v3_packets_rx (v3s_batches s w)) < 64"
    "unat (v3_packets_tx (v3s_batches s w)) < 64"
    by (simp_all add: v3_ok_def batch_ok_bounds)
  have "v3_counts (v3s_batches s' w, v3s_metrics s') = io_counts_v3 io'"
    using assms(3) st io_flush_frame(4) [of io', unfolded io_counts_v3_def]
    by (auto simp: io_counts_v3_def)
  also have "\<dots> = count_sends E ?new (v3_counts (?rx, io_metrics io'))"
    using eff b v3_record_sends_counts [OF v3_replies_at_most_one, of ?rx]
    by (simp add: io_counts_v3_def handler_effect_def)
  also have "v3_counts (?rx, io_metrics io') =
      count_rx (length p) (v3_counts (v3s_batches s w, v3s_metrics s))"
    using eff b counts_published(1) [of "io_metrics io'" "v3s_metrics s"]
    by (simp add: handler_effect_def record_counts)
  finally show ?thesis
    using v3_step_sent [OF assms(1,3)] assms(2) by auto
qed

theorem v3_accounting_witness:
  "\<exists>s'. v3_step sample_core sample_rater id
          (V3_Recv 0 (sample_env 101) (Received sample_packet addr_a)) sample_v3 = Some s' \<and>
        fst (v3_counts (v3s_batches s' 0, v3s_metrics s')) = 1"
proof -
  obtain s' where s': "v3_step sample_core sample_rater id
      (V3_Recv 0 (sample_env 101) (Received sample_packet addr_a)) sample_v3 = Some s'"
    using v3_step_ok [OF sample_v3_ok] by blast
  have tx: "fst (count_sends E new n) = fst n" for E :: "nat env" and new n
    unfolding count_sends_def
    by (induction new arbitrary: n) (auto split: prod.splits)
  have "v3_counts (v3s_batches sample_v3 0, v3s_metrics sample_v3) = (0, 0, 0, 0)"
    by (simp add: sample_v3_def v3_start_def v3_counts_def batch_new_def metrics_new_def)
  with v3_accounting [OF sample_v3_ok sample_kind(3) s'] s' show ?thesis by (auto simp: tx)
qed

section \<open>Client id zero\<close>

text \<open>
  The reserved id 0 is not kept out of the session table. Outside maintenance, a packet with
  sender id 0 and any receiver id but 0, a truncated command of fewer than 29 bytes included,
  registers its source as client 0, when no client 0 exists, there is room and the source has a
  connection token.
\<close>

theorem v3_client_zero_registers:
  assumes "v3_ok R s" and "v3_packet_size_ok p"
    and "v3_parse_packet_header p = Some (0, rid)" and "rid \<noteq> 0"
    and "rid \<noteq> u32_MAX \<or> length p < 29" and "validate_address R src"
    and "\<not> v3_maintenance_mode (v3s_tunnel s)"
    and "fmlookup (v3_mappings (v3s_tunnel s)) 0 = None"
    and "dm_len (v3_mappings (v3s_tunnel s)) < max_clients (v3_config (v3s_tunnel s))"
    and "fst (try_acquire L (v3_connection_limiter (v3s_tunnel s)) (sock_ip src) (instant E))"
    and "v3_step R L encode (V3_Recv w E (Received p src)) s = Some s'"
  shows "v3_table R (v3s_tunnel s') 0 = Some src"
proof -
  have kind: "v3_kind R p src = Data 0 rid"
    using assms(3-6) by (auto simp: v3_kind_def)
  have "v3_verdict R L E (v3s_tunnel s) 0 src = Register"
    using assms(8-10) by (simp add: v3_verdict_def verdict_of_def v3_table_def)
  with v3_step_table(1) [OF assms(1,11)] assms(2,7) kind show ?thesis
    by (simp add: v3_table_next_def table_after_def)
qed

theorem v3_client_zero_registers_witness:
  "\<exists>s'. v3_step sample_core sample_rater id
          (V3_Recv 0 (sample_env 1) (Received (v3_packet 0 u32_MAX [0]) addr_c))
          (v3_start (tunnel_v3_new sample_rater sample_sha1 sample_config) metrics_new) = Some s' \<and>
        v3_table sample_core (v3s_tunnel s') 0 = Some addr_c"
proof -
  let ?t = "tunnel_v3_new sample_rater sample_sha1 sample_config :: (sample_client, nat, sample_manager) tunnel_v3"
  have ok: "v3_ok sample_core (v3_start ?t metrics_new)"
    by (rule v3_start_ok) (simp_all add: metrics_new_def)
  obtain s' where s': "v3_step sample_core sample_rater id
      (V3_Recv 0 (sample_env 1) (Received (v3_packet 0 u32_MAX [0]) addr_c)) (v3_start ?t metrics_new) = Some s'"
    using v3_step_ok [OF ok] by blast
  have "v3_table sample_core (v3s_tunnel s') 0 = Some addr_c"
    by (rule v3_client_zero_registers [OF ok _ v3_parse_packet _ _ _ _ _ _ _ s'])
       (simp_all add: v3_packet_size_ok_def V3_MAX_PACKET_SIZE_def addr_c_def tunnel_v3_new_def
         sample_config_def try_acquire_def connection_rate_limiter_new_def sample_rater_def Let_def)
  with s' show ?thesis by blast
qed

end
