(* ===== verification/Http.thy ===== *)
theory Http
  imports Rust_Strings
begin

text \<open>
  The requests and responses of the two HTTP servers, as far as the handlers read and build them:
  the method, the path and the query of the request's URI, and the status, headers and body of
  the response. Parsing the bytes of a connection is the work of the HTTP library.
\<close>

datatype http_method = GET | OTHER string

record http_request =
  req_method :: http_method
  path :: string
  query :: "string option"

record response =
  status :: nat
  headers :: "(string \<times> string) list"
  body :: string

definition respond :: "nat \<Rightarrow> string \<Rightarrow> response" where
  "respond code b = \<lparr>status = code, headers = [], body = b\<rparr>"

definition respond_with :: "nat \<Rightarrow> (string \<times> string) list \<Rightarrow> string \<Rightarrow> response" where
  "respond_with code hs b = \<lparr>status = code, headers = hs, body = b\<rparr>"

lemma status_respond [simp]:
  "status (respond code b) = code" "status (respond_with code hs b) = code"
  by (simp_all add: respond_def respond_with_def)

lemma body_respond [simp]:
  "body (respond code b) = b" "body (respond_with code hs b) = b"
  by (simp_all add: respond_def respond_with_def)

lemma respond_inject [simp]: "respond c b = respond c' b' \<longleftrightarrow> c = c' \<and> b = b'"
  by (simp add: respond_def)

end
