(* ===== verification/Tunnel_V2.thy ===== *)
theory Tunnel_V2
  imports Udp_Service Rate_Limiter Announce Http
begin

text \<open>
  \<open>src/tunnel_v2.rs\<close>: the tunnel with 16-bit client ids. Ids are handed out over HTTP, at random;
  the first packet that carries an id binds it to its source. One definition models one function
  of the file, in its order; a function that does not touch the worker's batch or the socket works
  on the tunnel and the shared metrics alone.
\<close>

section \<open>State\<close>

definition V2_VERSION :: nat where
  "V2_VERSION = 2"

definition V2_MAX_PINGS_PER_IP :: u32 where
  "V2_MAX_PINGS_PER_IP = 20"

definition V2_TIMEOUT_SECONDS :: u64 where
  "V2_TIMEOUT_SECONDS = 30"

definition MAX_HTTP_CONNECTIONS :: nat where
  "MAX_HTTP_CONNECTIONS = 100"

definition V2_MAX_PACKET_SIZE :: nat where
  "V2_MAX_PACKET_SIZE = 1472"

record ('c, 'm, 's) tunnel_v2 =
  v2_config :: server_config
  v2_mappings :: "(i16, 'c) fmap"
  v2_ping_limiter :: "'m rate_limiter"
  v2_request_limiter :: "'m rate_limiter"
  v2_maintenance_mode :: bool
  v2_http_semaphore :: 's
  v2_dropped_connections :: u32

definition tunnel_v2_new ::
    "('m, 'g, 'i) rater \<Rightarrow> 's semaphore \<Rightarrow> server_config \<Rightarrow> ('c, 'm, 's) tunnel_v2" where
  "tunnel_v2_new L S config = \<lparr>
     v2_config = config,
     v2_mappings = fmempty,
     v2_ping_limiter = rate_limiter_new L 60 V2_MAX_PINGS_PER_IP,
     v2_request_limiter = rate_limiter_new L 60 (of_nat (ip_limit_v2 config)),
     v2_maintenance_mode = False,
     v2_http_semaphore = semaphore_new S MAX_HTTP_CONNECTIONS,
     v2_dropped_connections = 0\<rparr>"

type_synonym ('c, 'm, 's) v2_state = "('c, 'm, 's) tunnel_v2 \<times> io"
type_synonym ('c, 'm, 's) v2_http_state = "('c, 'm, 's) tunnel_v2 \<times> metrics"

section \<open>HTTP\<close>

subsection \<open>Connections\<close>

text \<open>
  One turn of the accept loop: whether the connection is served, which then holds a permit until
  its task ends, or dropped.
\<close>

definition v2_accept ::
    "'s semaphore \<Rightarrow> ('c, 'm, 's) v2_http_state \<Rightarrow> bool \<times> ('c, 'm, 's) v2_http_state" where
  "v2_accept S s =
     (let (t, m) = s in
      case try_acquire_owned S (v2_http_semaphore t) of
        Some sem \<Rightarrow> (True, t\<lparr>v2_http_semaphore := sem\<rparr>, m)
      | None \<Rightarrow>
          (False, t\<lparr>v2_dropped_connections := v2_dropped_connections t + 1\<rparr>,
           dropped_connections_update (\<lambda>n. n + 1) m))"

definition v2_connection_done ::
    "'s semaphore \<Rightarrow> ('c, 'm, 's) tunnel_v2 \<Rightarrow> ('c, 'm, 's) tunnel_v2" where
  "v2_connection_done S t = t\<lparr>v2_http_semaphore := release_permit S (v2_http_semaphore t)\<rparr>"

subsection \<open>Handlers\<close>

definition v2_handle_status :: "('c, 'm, 's) tunnel_v2 \<Rightarrow> response" where
  "v2_handle_status t =
     (let active = dm_len (v2_mappings t); free = max_clients (v2_config t) - active in
      respond_with 200 [(''Content-Type'', ''text/plain'')]
        (nat_to_string free @ '' slots free.'' @ [CHR 0x0A]
         @ nat_to_string active @ '' slots in use.'' @ [CHR 0x0A]
         @ nat_to_string (unat (v2_dropped_connections t)) @ '' connections dropped.'' @ [CHR 0x0A]))"

definition MAX_ATTEMPTS :: nat where
  "MAX_ATTEMPTS = 1000"

text \<open>
  The allocation loop. \<open>draw n\<close> is the value of the \<open>n\<close>th call of the random number generator
  in this request; the ids are kept as the strings that go into the response.
\<close>

function v2_alloc_loop ::
    "('c, 'q, 'i) relay_core \<Rightarrow> 'i \<Rightarrow> (nat \<Rightarrow> i16) \<Rightarrow> nat \<Rightarrow> nat \<Rightarrow> string list \<Rightarrow> (i16, 'c) fmap
       \<Rightarrow> string list \<times> (i16, 'c) fmap" where
  "v2_alloc_loop R now draw clients attempts client_ids mappings =
     (if length client_ids < clients \<and> attempts < MAX_ATTEMPTS then
        let client_id = draw attempts in
        if client_id \<noteq> 0 \<and> \<not> dm_contains mappings client_id then
          v2_alloc_loop R now draw clients (attempts + 1) (client_ids @ [i16_to_string client_id])
            (fmupd client_id (client_new R V2_TIMEOUT_SECONDS now) mappings)
        else v2_alloc_loop R now draw clients (attempts + 1) client_ids mappings
      else (client_ids, mappings))"
  by pat_completeness auto
termination
  by (relation "measure (\<lambda>(R, now, draw, clients, attempts, ids, m). MAX_ATTEMPTS - attempts)") auto

declare v2_alloc_loop.simps [simp del]

text \<open>Taking the ids of a failed allocation back, as the code does: from their strings.\<close>

fun v2_rollback :: "string list \<Rightarrow> (i16, 'c) fmap \<Rightarrow> (i16, 'c) fmap" where
  "v2_rollback [] m = m"
| "v2_rollback (id_str # ids) m =
     (case parse_i16 id_str of
        Some i \<Rightarrow> v2_rollback ids (fmdrop i m)
      | None \<Rightarrow> v2_rollback ids m)"

definition v2_clients_param :: "string option \<Rightarrow> nat" where
  "v2_clients_param q =
     (case Option.bind (Option.bind q (query_param ''clients='')) parse_usize of
        Some n \<Rightarrow> n | None \<Rightarrow> 0)"

definition v2_handle_request ::
    "('c, 'q, 'i) relay_core \<Rightarrow> 'i env \<Rightarrow> (nat \<Rightarrow> i16) \<Rightarrow> string option
       \<Rightarrow> ('c, 'm, 's) v2_http_state \<Rightarrow> response \<times> ('c, 'm, 's) v2_http_state" where
  "v2_handle_request R E draw q s =
     (let (t, m) = s; clients = v2_clients_param q in
      if v2_maintenance_mode t then (respond 503 ''Server in maintenance mode'', t, m)
      else if clients < 2 \<or> 8 < clients then (respond 400 ''Invalid clients parameter (2-8)'', t, m)
      else if max_clients (v2_config t) < dm_len (v2_mappings t) + clients
      then (respond 503 ''Not enough slots available'', t, m)
      else
        let (ids, mappings) = v2_alloc_loop R (instant E) draw clients 0 [] (v2_mappings t) in
        if length ids < clients then
          (respond 503 ''Could not allocate requested clients'',
           t\<lparr>v2_mappings := v2_rollback ids mappings\<rparr>, m)
        else
          (respond_with 200 [(''Content-Type'', ''application/json'')]
             (''['' @ join_with '','' ids @ '']''),
           t\<lparr>v2_mappings := mappings\<rparr>, v2_active_clients_update (\<lambda>_. dm_len mappings) m))"

definition v2_handle_maintenance ::
    "string \<Rightarrow> ('c, 'm, 's) tunnel_v2 \<Rightarrow> response \<times> ('c, 'm, 's) tunnel_v2" where
  "v2_handle_maintenance p t =
     (if maintenance_password (v2_config t) = []
      then (respond 401 ''Maintenance password not configured'', t)
      else let parts = split_on (CHR ''/'') p in
        if 3 \<le> length parts \<and> parts ! 2 = maintenance_password (v2_config t) then
          let prev = v2_maintenance_mode t in
          (respond 200 (''Maintenance mode '' @ (if \<not> prev then ''enabled'' else ''disabled'')),
           t\<lparr>v2_maintenance_mode := \<not> prev\<rparr>)
        else (respond 401 ''Invalid maintenance password'', t))"

definition v2_handle_http_request ::
    "('c, 'q, 'i) relay_core \<Rightarrow> ('m, 'g, 'i) rater \<Rightarrow> 'i env \<Rightarrow> (nat \<Rightarrow> i16) \<Rightarrow> http_request
       \<Rightarrow> socket_addr \<Rightarrow> ('c, 'm, 's) v2_http_state \<Rightarrow> response \<times> ('c, 'm, 's) v2_http_state" where
  "v2_handle_http_request R L E draw req remote s =
     (let (t, m) = s; m = v2_http_requests_update (\<lambda>n. n + 1) m;
          (ok, l) = check_and_increment L (v2_request_limiter t) (sock_ip remote) (instant E);
          t = t\<lparr>v2_request_limiter := l\<rparr>
      in if \<not> ok then
           (respond_with 429 [(''Retry-After'', ''60'')] ''Rate limit exceeded'',
            t, rate_limit_hits_update (\<lambda>n. n + 1) m)
         else if req_method req = GET \<and> path req = ''/status'' then (v2_handle_status t, t, m)
         else if req_method req = GET \<and> path req = ''/request''
         then v2_handle_request R E draw (query req) (t, m)
         else if req_method req = GET \<and> starts_with (path req) ''/maintenance/'' then
           let (r, t) = v2_handle_maintenance (path req) t in (r, t, m)
         else if req_method req = GET \<and> path req = ''/health'' then (respond 200 ''OK'', t, m)
         else (respond 404 ''Not Found'', t, m))"

section \<open>Packets\<close>

definition v2_validate_packet ::
    "('c, 'q, 'i) relay_core \<Rightarrow> i16 \<Rightarrow> i16 \<Rightarrow> socket_addr \<Rightarrow> bool" where
  "v2_validate_packet R sender_id receiver_id addr =
     (if sender_id = receiver_id \<and> sender_id \<noteq> 0 then False else validate_address R addr)"

definition v2_handle_ping ::
    "'i env \<Rightarrow> u8 list \<Rightarrow> socket_addr \<Rightarrow> ('c, 'm, 's) v2_state \<Rightarrow> ('c, 'm, 's) v2_state" where
  "v2_handle_ping E packet remote s =
     (let (t, io) = s;
          io = io_metrics_update (v2_ping_requests_update (\<lambda>n. n + 1)) io;
          response = take (min 12 (length packet)) packet;
          io = io_send remote response io
      in (t, if send_succeeds E remote response
             then io_batch_update (record_v2_tx (of_nat (length response))) io else io))"

text \<open>The first half of \<open>handle_data_forward\<close>: the mappings after the sender, or a refusal.\<close>

definition v2_admit_sender ::
    "('c, 'q, 'i) relay_core \<Rightarrow> 'i env \<Rightarrow> i16 \<Rightarrow> u8 list \<Rightarrow> socket_addr \<Rightarrow> u64
       \<Rightarrow> (i16, 'c) fmap \<Rightarrow> (i16, 'c) fmap option" where
  "v2_admit_sender R E sender_id packet remote now mappings =
     (case fmlookup mappings sender_id of
        None \<Rightarrow> None
      | Some sender \<Rightarrow>
          (case remote_ep R sender of
             None \<Rightarrow>
               Some (fmupd sender_id
                 (client_new_with_endpoint R remote V2_TIMEOUT_SECONDS (instant E)) mappings)
           | Some ep \<Rightarrow>
               if ep \<noteq> remote then
                 if is_timed_out R sender (instant E) then
                   Some (fmupd sender_id
                     (client_new_with_endpoint R remote V2_TIMEOUT_SECONDS (instant E)) mappings)
                 else None
               else
                 Some (dm_modify sender_id
                   (update_stats R (length packet) 0 now \<circ> set_last_receive_tick_at R now)
                   mappings)))"

definition v2_forward_info ::
    "('c, 'q, 'i) relay_core \<Rightarrow> i16 \<Rightarrow> socket_addr \<Rightarrow> (i16, 'c) fmap \<Rightarrow> socket_addr option" where
  "v2_forward_info R receiver_id remote mappings =
     do {
       receiver \<leftarrow> fmlookup mappings receiver_id;
       ep \<leftarrow> remote_ep R receiver;
       if ep = remote then None else Some ep
     }"

definition v2_handle_data_forward ::
    "('c, 'q, 'i) relay_core \<Rightarrow> 'i env \<Rightarrow> i16 \<Rightarrow> i16 \<Rightarrow> u8 list \<Rightarrow> socket_addr \<Rightarrow> u64
       \<Rightarrow> ('c, 'm, 's) v2_state \<Rightarrow> ('c, 'm, 's) v2_state" where
  "v2_handle_data_forward R E sender_id receiver_id packet remote now s =
     (let (t, io) = s in
      case v2_admit_sender R E sender_id packet remote now (v2_mappings t) of
        None \<Rightarrow> (t, io)
      | Some mappings \<Rightarrow>
          (case v2_forward_info R receiver_id remote mappings of
             None \<Rightarrow> (t\<lparr>v2_mappings := mappings\<rparr>, io)
           | Some receiver_ep \<Rightarrow>
               let io = io_send receiver_ep packet io in
               if send_succeeds E receiver_ep packet then
                 (t\<lparr>v2_mappings := dm_modify receiver_id (update_stats R 0 (length packet) now) mappings\<rparr>,
                  io_batch_update (record_v2_tx (of_nat (length packet))) io)
               else (t\<lparr>v2_mappings := mappings\<rparr>, io)))"

definition v2_on_udp_receive ::
    "('c, 'q, 'i) relay_core \<Rightarrow> ('m, 'g, 'i) rater \<Rightarrow> 'i env \<Rightarrow> u8 list \<Rightarrow> socket_addr
       \<Rightarrow> ('c, 'm, 's) v2_state \<Rightarrow> ('c, 'm, 's) v2_state" where
  "v2_on_udp_receive R L E packet remote s =
     (if length packet < 4 then s
      else let sender_id = u16_from_be_bytes (packet ! 0) (packet ! 1);
               receiver_id = u16_from_be_bytes (packet ! 2) (packet ! 3);
               (t, io) = s;
               io = io_batch_update (record_v2_rx (of_nat (length packet))) io in
        if \<not> v2_validate_packet R sender_id receiver_id remote then (t, io)
        else if sender_id = 0 \<and> receiver_id = 0 then
          if length packet = 50 then
            let (ok, l) = check_and_increment L (v2_ping_limiter t) (sock_ip remote) (instant E);
                t = t\<lparr>v2_ping_limiter := l\<rparr>
            in if ok then v2_handle_ping E packet remote (t, io) else (t, io)
          else (t, io)
        else if v2_maintenance_mode t then (t, io)
        else v2_handle_data_forward R E sender_id receiver_id packet remote
               (current_timestamp R (instant E)) (t, io))"

text \<open>One turn of the receive loop.\<close>

definition v2_receive_step ::
    "('c, 'q, 'i) relay_core \<Rightarrow> ('m, 'g, 'i) rater \<Rightarrow> 'i env \<Rightarrow> recv_result
       \<Rightarrow> ('c, 'm, 's) v2_state \<Rightarrow> ('c, 'm, 's) v2_state" where
  "v2_receive_step R L E r s =
     (case r of
        Received packet addr \<Rightarrow>
          if 4 \<le> length packet \<and> length packet \<le> V2_MAX_PACKET_SIZE then
            let (t, io) = v2_on_udp_receive R L E packet addr s in (t, io_maybe_flush io)
          else s
      | Receive_Error \<Rightarrow> (fst s, io_flush (snd s)))"

section \<open>Heartbeat\<close>

definition v2_cleanup_expired_mappings ::
    "('c, 'q, 'i) relay_core \<Rightarrow> ('m, 'g, 'i) rater \<Rightarrow> 'i env
       \<Rightarrow> ('c, 'm, 's) v2_http_state \<Rightarrow> ('c, 'm, 's) v2_http_state" where
  "v2_cleanup_expired_mappings R L E s =
     (let (t, m) = s;
          t = t\<lparr>v2_mappings := dm_retain (\<lambda>k c. \<not> is_timed_out R c (instant E)) (v2_mappings t)\<rparr>;
          m = v2_active_clients_update (\<lambda>_. dm_len (v2_mappings t)) m
      in (t\<lparr>v2_ping_limiter := reset L (v2_ping_limiter t)\<rparr>, m))"

definition v2_announce_url :: "(string \<Rightarrow> string) \<Rightarrow> ('c, 'm, 's) tunnel_v2 \<Rightarrow> string" where
  "v2_announce_url encode t =
     master_server_url (v2_config t) @ ''?''
     @ announce_query encode V2_VERSION (v2_config t) (tunnel_v2_port (v2_config t))
         (dm_len (v2_mappings t)) (v2_maintenance_mode t)"

text \<open>One turn of the heartbeat loop, and the URL announced, if any.\<close>

definition v2_heartbeat_tick ::
    "('c, 'q, 'i) relay_core \<Rightarrow> ('m, 'g, 'i) rater \<Rightarrow> (string \<Rightarrow> string) \<Rightarrow> 'i env
       \<Rightarrow> ('c, 'm, 's) v2_http_state \<Rightarrow> string option \<times> ('c, 'm, 's) v2_http_state" where
  "v2_heartbeat_tick R L encode E s =
     (let (t, m) = v2_cleanup_expired_mappings R L E s;
          t = t\<lparr>v2_request_limiter := reset L (v2_request_limiter t)\<rparr>;
          announced = (if no_master_announce (v2_config t) then None
                       else Some (v2_announce_url encode t))
      in (announced, t\<lparr>v2_dropped_connections := 0\<rparr>, m))"

end
