(* ===== verification/V2_Allocation.thy ===== *)
theory V2_Allocation
  imports Tunnel_V2
begin

text \<open>
  The allocation of client ids over HTTP. The loop of random draws is equal to a reference: the
  first \<open>clients\<close> distinct, non-zero, free ids among the first thousand draws; an allocation that
  finds too few leaves no trace. Then what a client of the HTTP service reads off a response.
\<close>

section \<open>The reference\<close>

text \<open>The first occurrence of each element, in order.\<close>

fun firsts :: "'a list \<Rightarrow> 'a list" where
  "firsts [] = []"
| "firsts (x # xs) = x # filter (\<lambda>y. y \<noteq> x) (firsts xs)"

lemma firsts_filter: "firsts (filter P xs) = filter P (firsts xs)"
  by (induction xs) (auto simp: conj_commute intro: filter_cong)

lemma set_firsts [simp]: "set (firsts xs) = set xs"
  by (induction xs) auto

lemma distinct_firsts [simp]: "distinct (firsts xs)"
  by (induction xs) auto

definition free_ids :: "(nat \<Rightarrow> i16) \<Rightarrow> nat \<Rightarrow> (i16, 'c) fmap \<Rightarrow> i16 list" where
  "free_ids draw attempts m =
     firsts (filter (\<lambda>d. d \<noteq> 0 \<and> \<not> dm_contains m d) (map draw [attempts..<MAX_ATTEMPTS]))"

definition reserve ::
    "('c, 'q, 'i) relay_core \<Rightarrow> 'i \<Rightarrow> i16 list \<Rightarrow> (i16, 'c) fmap \<Rightarrow> (i16, 'c) fmap" where
  "reserve R now ids m = fold (\<lambda>i. fmupd i (client_new R V2_TIMEOUT_SECONDS now)) ids m"

lemma free_ids_props:
  assumes "i \<in> set (free_ids draw a m)"
  shows "i \<noteq> 0" "fmlookup m i = None"
  using assms by (auto simp: free_ids_def dm_contains_def)

lemma distinct_free_ids [simp]: "distinct (free_ids draw a m)"
  by (simp add: free_ids_def)

lemma reserve_simps [simp]:
  "reserve R now [] m = m"
  "reserve R now (i # ids) m = reserve R now ids (fmupd i (client_new R V2_TIMEOUT_SECONDS now) m)"
  by (simp_all add: reserve_def)

lemma fmlookup_reserve [simp]:
  "fmlookup (reserve R now ids m) k =
     (if k \<in> set ids then Some (client_new R V2_TIMEOUT_SECONDS now) else fmlookup m k)"
  by (induction ids arbitrary: m) auto

lemma dm_len_reserve:
  "distinct ids \<Longrightarrow> \<forall>i \<in> set ids. fmlookup m i = None \<Longrightarrow> dm_len (reserve R now ids m) = dm_len m + length ids"
proof (induction ids arbitrary: m)
  case (Cons i ids)
  then have "\<forall>j \<in> set ids. fmlookup (fmupd i (client_new R V2_TIMEOUT_SECONDS now) m) j = None"
    by auto
  with Cons show ?case by (simp add: dm.len_insert)
qed simp

section \<open>The loop\<close>

lemma free_ids_step:
  assumes "attempts < MAX_ATTEMPTS"
  shows "free_ids draw attempts m =
    (if draw attempts \<noteq> 0 \<and> \<not> dm_contains m (draw attempts)
     then draw attempts # free_ids draw (attempts + 1) (fmupd (draw attempts) c m)
     else free_ids draw (attempts + 1) m)"
proof -
  let ?d = "draw attempts" and ?rest = "map draw [attempts + 1..<MAX_ATTEMPTS]"
  have up: "map draw [attempts..<MAX_ATTEMPTS] = ?d # ?rest"
    using assms by (simp add: upt_conv_Cons)
  have "filter (\<lambda>d. d \<noteq> 0 \<and> \<not> dm_contains (fmupd ?d c m) d) ?rest =
      filter (\<lambda>y. y \<noteq> ?d) (filter (\<lambda>d. d \<noteq> 0 \<and> \<not> dm_contains m d) ?rest)"
    by (auto simp: dm_contains_def intro: filter_cong)
  then have "free_ids draw (attempts + 1) (fmupd ?d c m) =
      filter (\<lambda>y. y \<noteq> ?d) (firsts (filter (\<lambda>d. d \<noteq> 0 \<and> \<not> dm_contains m d) ?rest))"
    by (simp only: free_ids_def firsts_filter)
  then show ?thesis by (simp add: free_ids_def up)
qed

lemma v2_alloc_loop_eq:
  "v2_alloc_loop R now draw clients attempts ids m =
     (let new = take (clients - length ids) (free_ids draw attempts m)
      in (ids @ map i16_to_string new, reserve R now new m))"
proof (induction R now draw clients attempts ids m rule: v2_alloc_loop.induct)
  case (1 R now draw clients attempts ids m)
  show ?case
  proof (cases "length ids < clients \<and> attempts < MAX_ATTEMPTS")
    case False
    then have "take (clients - length ids) (free_ids draw attempts m) = []"
      by (auto simp: free_ids_def)
    with False show ?thesis by (subst v2_alloc_loop.simps) (auto simp: Let_def)
  next
    case True
    then obtain n where n: "clients - length ids = Suc n"
      by (metis Suc_diff_Suc)
    note step = free_ids_step [of attempts draw m "client_new R V2_TIMEOUT_SECONDS now"]
    show ?thesis
    proof (cases "draw attempts \<noteq> 0 \<and> \<not> dm_contains m (draw attempts)")
      case fresh: True
      have "clients - Suc (length ids) = n" using n by simp
      with True fresh n step "1.IH"(1) [OF True refl fresh] show ?thesis
        by (subst v2_alloc_loop.simps) (simp add: Let_def)
    next
      case taken: False
      with True n step "1.IH"(2) [OF True refl taken] show ?thesis
        by (subst v2_alloc_loop.simps) (auto simp: Let_def)
    qed
  qed
qed

section \<open>The rollback\<close>

lemma fmlookup_rollback:
  "fmlookup (v2_rollback (map i16_to_string ids) m) k =
     (if k \<in> set ids then None else fmlookup m k)"
  by (induction ids arbitrary: m) (auto simp: i16_round_trip)

lemma rollback_reserve:
  assumes "\<forall>i \<in> set ids. fmlookup m i = None"
  shows "v2_rollback (map i16_to_string ids) (reserve R now ids m) = m"
  using assms by (intro fmap_ext) (simp add: fmlookup_rollback)

section \<open>The request handler\<close>

text \<open>What the handler does, without loop and rollback.\<close>

definition v2_request_spec ::
    "('c, 'q, 'i) relay_core \<Rightarrow> 'i env \<Rightarrow> (nat \<Rightarrow> i16) \<Rightarrow> string option
       \<Rightarrow> ('c, 'm, 's) v2_http_state \<Rightarrow> response \<times> ('c, 'm, 's) v2_http_state" where
  "v2_request_spec R E draw q s =
     (let (t, m) = s; clients = v2_clients_param q;
          ids = take clients (free_ids draw 0 (v2_mappings t)) in
      if v2_maintenance_mode t then (respond 503 ''Server in maintenance mode'', s)
      else if clients < 2 \<or> 8 < clients then (respond 400 ''Invalid clients parameter (2-8)'', s)
      else if max_clients (v2_config t) < dm_len (v2_mappings t) + clients
      then (respond 503 ''Not enough slots available'', s)
      else if length ids < clients then (respond 503 ''Could not allocate requested clients'', s)
      else
        (respond_with 200 [(''Content-Type'', ''application/json'')]
           (''['' @ join_with '','' (map i16_to_string ids) @ '']''),
         t\<lparr>v2_mappings := reserve R (instant E) ids (v2_mappings t)\<rparr>,
         v2_active_clients_update (\<lambda>_. dm_len (v2_mappings t) + clients) m))"

lemma v2_handle_request_eq: "v2_handle_request R E draw q s = v2_request_spec R E draw q s"
proof -
  obtain t m where s: "s = (t, m)" by fastforce
  let ?n = "v2_clients_param q"
  let ?ids = "take ?n (free_ids draw 0 (v2_mappings t))"
  have free: "\<forall>i \<in> set ?ids. fmlookup (v2_mappings t) i = None"
    using free_ids_props(2) by (metis in_set_takeD)
  have "t\<lparr>v2_mappings := v2_rollback (map i16_to_string ?ids)
      (reserve R (instant E) ?ids (v2_mappings t))\<rparr> = t"
    by (simp add: rollback_reserve [OF free])
  moreover have "dm_len (reserve R (instant E) ?ids (v2_mappings t)) = dm_len (v2_mappings t) + length ?ids"
    using free by (simp add: dm_len_reserve)
  ultimately show ?thesis
    by (cases "length (free_ids draw 0 (v2_mappings t)) < ?n")
      (simp_all add: s v2_handle_request_def v2_request_spec_def v2_alloc_loop_eq Let_def)
qed

section \<open>Properties\<close>

text \<open>
  C5: Allocation is equal to its specification. The handler of an allocation request, with its
  loop of random draws and its rollback, does what the reference does on every branch: it refuses
  in maintenance mode, for a bad number of clients or for too few slots; it reserves the first
  wanted number of distinct, non-zero, free ids among the first thousand draws; and when there are
  too few of them it answers 503 and changes nothing.
\<close>

theorem v2_allocation_refines:
  "v2_handle_request R E draw q s = v2_request_spec R E draw q s"
  by (rule v2_handle_request_eq)

definition sample_v2_tunnel :: "(sample_client, sample_manager, nat) tunnel_v2" where
  "sample_v2_tunnel = tunnel_v2_new sample_rater sample_semaphore sample_config"

lemma sample_v2_tunnel_simps [simp]:
  "v2_mappings sample_v2_tunnel = fmempty" "v2_maintenance_mode sample_v2_tunnel = False"
  "v2_config sample_v2_tunnel = sample_config"
  by (simp_all add: sample_v2_tunnel_def tunnel_v2_new_def)

lemma sample_clients_param [simp]: "v2_clients_param (Some ''clients=2'') = 2"
  by (simp add: v2_clients_param_def query_param_def starts_with_def strip_prefix_def
      parse_usize_def digit_val_def Let_def)

lemma sample_max_clients [simp]: "max_clients sample_config = 2"
  by (simp add: sample_config_def)

lemma join_nonempty: "ws \<noteq> [] \<Longrightarrow> \<forall>w \<in> set ws. w \<noteq> [] \<Longrightarrow> join_with sep ws \<noteq> []"
  by (induction sep ws rule: join_with.induct) auto

lemma ids_round_trip:
  assumes "ids \<noteq> []"
  shows "map parse_i16 (split_on (CHR '','') (join_with '','' (map i16_to_string ids))) = map Some ids"
  using assms by (simp add: split_on_join_with i16_to_string_no_comma i16_round_trip)

text \<open>
  C14: What a client reads off a successful allocation. The body is a bracketed list whose elements,
  read as 16-bit numbers, are as many ids as were asked for, between 2 and 8: they are pairwise
  distinct, none is zero, none was in use; afterwards exactly they have been added, as clients not
  yet bound to an address, the gauge counts them, and the client limit is kept.
\<close>

theorem v2_allocation_response:
  assumes "v2_handle_request R E draw q (t, m) = (resp, t', m')" and "status resp = 200"
  shows "\<exists>ids. body resp = ''['' @ join_with '','' (map i16_to_string ids) @ '']'' \<and>
    map parse_i16 (split_on (CHR '','') (butlast (tl (body resp)))) = map Some ids \<and>
    length ids = v2_clients_param q \<and> 2 \<le> length ids \<and> length ids \<le> 8 \<and>
    distinct ids \<and> 0 \<notin> set ids \<and> (\<forall>i \<in> set ids. fmlookup (v2_mappings t) i = None) \<and>
    (\<forall>k. fmlookup (v2_mappings t') k =
       (if k \<in> set ids then Some (client_new R V2_TIMEOUT_SECONDS (instant E))
        else fmlookup (v2_mappings t) k)) \<and>
    v2_active_clients m' = dm_len (v2_mappings t') \<and> dm_len (v2_mappings t') \<le> max_clients (v2_config t)"
proof -
  let ?n = "v2_clients_param q"
  define ids where "ids = take ?n (free_ids draw 0 (v2_mappings t))"
  from assms have spec: "2 \<le> ?n" "?n \<le> 8" "length ids = ?n"
    "dm_len (v2_mappings t) + ?n \<le> max_clients (v2_config t)"
    "body resp = ''['' @ join_with '','' (map i16_to_string ids) @ '']''"
    "t' = t\<lparr>v2_mappings := reserve R (instant E) ids (v2_mappings t)\<rparr>"
    "m' = v2_active_clients_update (\<lambda>_. dm_len (v2_mappings t) + ?n) m"
    unfolding v2_handle_request_eq v2_request_spec_def Let_def prod.case ids_def [symmetric]
    by (auto simp: ids_def not_less split: if_splits)
  have free: "0 \<notin> set ids" "\<forall>i \<in> set ids. fmlookup (v2_mappings t) i = None"
    using free_ids_props by (metis ids_def in_set_takeD)+
  have "distinct ids" by (simp add: ids_def)
  moreover from this have "dm_len (v2_mappings t') = dm_len (v2_mappings t) + ?n"
    using spec(3,6) free(2) by (simp add: dm_len_reserve)
  moreover have "ids \<noteq> []" using spec(1,3) by auto
  then have "map parse_i16 (split_on (CHR '','') (butlast (tl (body resp)))) = map Some ids"
    using ids_round_trip by (simp add: spec(5) butlast_append)
  ultimately show ?thesis
    using spec free by (intro exI [of _ ids]) simp
qed

lemma upt_three: "3 \<le> n \<Longrightarrow> [0..<n] = 0 # 1 # 2 # [3..<n]"
  using upt_conv_Cons [of 0 n] upt_conv_Cons [of 1 n] upt_conv_Cons [of 2 n]
  by (simp add: numeral_eq_Suc)

theorem v2_allocation_response_witness:
  "\<exists>resp t' m' ids. v2_handle_request sample_core (sample_env 1) (\<lambda>n. of_nat n) (Some ''clients=2'')
      (sample_v2_tunnel, metrics_new) = (resp, t', m') \<and> length ids = 2 \<and> distinct ids \<and>
    map parse_i16 (split_on (CHR '','') (butlast (tl (body resp)))) = map Some ids"
proof -
  obtain resp t' m' where r: "v2_handle_request sample_core (sample_env 1) (\<lambda>n. of_nat n)
      (Some ''clients=2'') (sample_v2_tunnel, metrics_new) = (resp, t', m')"
    by (cases "v2_handle_request sample_core (sample_env 1) (\<lambda>n. of_nat n)
      (Some ''clients=2'') (sample_v2_tunnel, metrics_new)") auto
  have "[0..<MAX_ATTEMPTS] = 0 # 1 # 2 # [3..<MAX_ATTEMPTS]"
    by (rule upt_three) (simp add: MAX_ATTEMPTS_def)
  then have "2 \<le> length (free_ids (\<lambda>n. of_nat n) 0 (fmempty :: (i16, sample_client) fmap))"
    by (simp add: free_ids_def dm_contains_def)
  then have "status resp = 200"
    using r by (auto simp: v2_handle_request_eq v2_request_spec_def Let_def)
  from v2_allocation_response [OF r this] r show ?thesis by auto
qed

text \<open>
  C15: A failed request leaves no trace. Whatever the draws were, an allocation request that is not
  answered with 200 changes neither the clients nor anything else, although the loop has inserted
  and then removed some of them.
\<close>

theorem v2_failed_allocation_is_undone:
  assumes "v2_handle_request R E draw q s = (resp, s')" and "status resp \<noteq> 200"
  shows "s' = s"
  using assms unfolding v2_handle_request_eq
  by (cases s) (auto simp: v2_request_spec_def Let_def split: if_splits)

theorem v2_failed_allocation_is_undone_witness:
  "snd (v2_handle_request sample_core (sample_env 1) (\<lambda>n. 5) (Some ''clients=2'')
     (sample_v2_tunnel, metrics_new)) = (sample_v2_tunnel, metrics_new)"
proof -
  obtain resp s' where r: "v2_handle_request sample_core (sample_env 1) (\<lambda>n. 5)
      (Some ''clients=2'') (sample_v2_tunnel, metrics_new) = (resp, s')"
    by (cases "v2_handle_request sample_core (sample_env 1) (\<lambda>n. 5) (Some ''clients=2'')
      (sample_v2_tunnel, metrics_new)")
  have same: "firsts (filter P (map (\<lambda>n. 5 :: i16) xs)) \<in> {[], [5]}" for P and xs :: "nat list"
    by (induction xs) (auto simp: firsts_filter)
  have "free_ids (\<lambda>n. 5) 0 (fmempty :: (i16, sample_client) fmap) \<in> {[], [5]}"
    unfolding free_ids_def by (rule same)
  then have "length (free_ids (\<lambda>n. 5) 0 (fmempty :: (i16, sample_client) fmap)) < 2" by auto
  then have "status resp \<noteq> 200"
    using r by (auto simp: v2_handle_request_eq v2_request_spec_def Let_def)
  from v2_failed_allocation_is_undone [OF r this] r show ?thesis by simp
qed

lemma v2_handle_request_mode:
  "v2_handle_request R E draw q (t, m) = (resp, t', m') \<Longrightarrow> v2_maintenance_mode t' = v2_maintenance_mode t"
  unfolding v2_handle_request_eq by (auto simp: v2_request_spec_def Let_def split: if_splits)

text \<open>The first component of a path after the prefix.\<close>

lemma split_on_hd: "split_on c s ! 0 = takeWhile (\<lambda>x. x \<noteq> c) s"
  by (induction s) (auto split: list.splits)

lemma split_maintenance_path:
  "split_on (CHR ''/'') (''/maintenance/'' @ rest) = [] # ''maintenance'' # split_on (CHR ''/'') rest"
  using split_on_append_sep [of "CHR ''/''" "''maintenance''" rest] by simp

text \<open>
  C20: The maintenance request. Over all requests, the mode is toggled exactly by a GET of
  \<open>/maintenance/\<close> and a rest whose part before the next slash is the configured, non-empty
  password, from an address within the request limit; anything after that slash is ignored, and a
  password that contains a slash never matches.
\<close>

theorem v2_maintenance_requests:
  assumes "v2_handle_http_request R L E draw req remote (t, m) = (resp, t', m')"
  shows "(v2_maintenance_mode t' \<noteq> v2_maintenance_mode t) =
      (fst (check_and_increment L (v2_request_limiter t) (sock_ip remote) (instant E)) \<and>
       req_method req = GET \<and> maintenance_password (v2_config t) \<noteq> [] \<and>
       (\<exists>rest. path req = ''/maintenance/'' @ rest \<and>
          takeWhile (\<lambda>c. c \<noteq> CHR ''/'') rest = maintenance_password (v2_config t))) \<and>
    (CHR ''/'' \<in> set (maintenance_password (v2_config t)) \<longrightarrow>
      v2_maintenance_mode t' = v2_maintenance_mode t)"
proof -
  obtain ok l where chk: "check_and_increment L (v2_request_limiter t) (sock_ip remote) (instant E) = (ok, l)"
    by fastforce
  let ?pw = "maintenance_password (v2_config t)"
  have toggle: "(v2_maintenance_mode t' \<noteq> v2_maintenance_mode t) =
      (ok \<and> req_method req = GET \<and> ?pw \<noteq> [] \<and>
       (\<exists>rest. path req = ''/maintenance/'' @ rest \<and> takeWhile (\<lambda>c. c \<noteq> CHR ''/'') rest = ?pw))"
  proof (cases "\<exists>rest. path req = ''/maintenance/'' @ rest")
    case True
    then obtain rest where rest: "path req = ''/maintenance/'' @ rest" by blast
    have "starts_with (path req) ''/maintenance/''" unfolding rest by (rule starts_with_append)
    moreover have "split_on (CHR ''/'') (path req) = [] # ''maintenance'' # split_on (CHR ''/'') rest"
      unfolding rest by (rule split_maintenance_path)
    moreover have "path req \<noteq> ''/status''" "path req \<noteq> ''/request''" by (simp_all add: rest)
    moreover have "(\<exists>r. path req = ''/maintenance/'' @ r \<and> takeWhile (\<lambda>c. c \<noteq> CHR ''/'') r = ?pw) =
        (takeWhile (\<lambda>c. c \<noteq> CHR ''/'') rest = ?pw)"
      by (simp add: rest)
    ultimately show ?thesis
      using assms chk
      by (auto simp: v2_handle_http_request_def v2_handle_maintenance_def split_on_hd Let_def Suc_le_eq
          simp del: append.simps split: if_splits prod.splits)
  next
    case False
    then have "\<not> starts_with (path req) ''/maintenance/''" using starts_withD by blast
    with assms chk False show ?thesis
      by (auto simp: v2_handle_http_request_def Let_def dest!: v2_handle_request_mode
          split: if_splits prod.splits)
  qed
  moreover have "CHR ''/'' \<notin> set (takeWhile (\<lambda>c. c \<noteq> CHR ''/'') rest)" for rest
    by (auto dest: set_takeWhileD)
  ultimately show ?thesis unfolding chk fst_conv by metis
qed

theorem v2_maintenance_requests_witness:
  "v2_maintenance_mode (fst (snd (v2_handle_http_request sample_core sample_rater (sample_env 1)
     (\<lambda>n. 5) \<lparr>req_method = GET, path = ''/maintenance/pw/ignored'', query = None\<rparr>
     (SocketV4 1 2 3 4 5) (sample_v2_tunnel, metrics_new))))"
proof -
  let ?req = "\<lparr>req_method = GET, path = ''/maintenance/pw/ignored'', query = None\<rparr>"
  obtain resp t' m' where r: "v2_handle_http_request sample_core sample_rater (sample_env 1)
      (\<lambda>n. 5) ?req (SocketV4 1 2 3 4 5) (sample_v2_tunnel, metrics_new) = (resp, t', m')"
    by (cases "v2_handle_http_request sample_core sample_rater (sample_env 1)
      (\<lambda>n. 5) ?req (SocketV4 1 2 3 4 5) (sample_v2_tunnel, metrics_new)")
  have "fst (check_and_increment sample_rater (v2_request_limiter sample_v2_tunnel)
      (sock_ip (SocketV4 1 2 3 4 5)) (instant (sample_env 1)))"
    by (simp add: sample_v2_tunnel_def tunnel_v2_new_def sample_config_def check_and_increment_def
        rate_limiter_new_def sample_rater_def Let_def)
  moreover have "path ?req = ''/maintenance/'' @ ''pw/ignored''" by simp
  moreover have "takeWhile (\<lambda>c. c \<noteq> CHR ''/'') ''pw/ignored'' = maintenance_password sample_config"
    "maintenance_password sample_config \<noteq> []"
    by (simp_all add: sample_config_def)
  ultimately have "v2_maintenance_mode t' \<noteq> v2_maintenance_mode sample_v2_tunnel"
    using v2_maintenance_requests [OF r] by (metis http_request.select_convs(1) sample_v2_tunnel_simps(3))
  with r show ?thesis by simp
qed

end
