(* ===== verification/V2_Service.thy ===== *)
theory V2_Service
  imports V2_Allocation
begin

text \<open>
  What the packet handlers of the version 2 tunnel guarantee: they implement the rules of an
  abstract endpoint table over the allocated ids, and leave the set of ids alone.
\<close>

section \<open>The abstract tunnel\<close>

text \<open>
  An id that is not allocated is refused; an allocated id without an endpoint is bound to the
  first source that uses it.
\<close>

definition v2_verdict_of ::
    "i16 set \<Rightarrow> i16 endpoint_table \<Rightarrow> bool \<Rightarrow> i16 \<Rightarrow> socket_addr \<Rightarrow> verdict" where
  "v2_verdict_of allocated table expired sid src =
     (if sid \<notin> allocated then Refuse
      else case table sid of
        None \<Rightarrow> Register
      | Some ep \<Rightarrow> if ep = src then Known else if expired then Rebind else Refuse)"

definition v2_table :: "('c, 'q, 'i) relay_core \<Rightarrow> ('c, 'm, 's) tunnel_v2 \<Rightarrow> i16 endpoint_table" where
  "v2_table R t = ep_table R (v2_mappings t)"

definition v2_allocated :: "('c, 'm, 's) tunnel_v2 \<Rightarrow> i16 set" where
  "v2_allocated t = fset (fmdom (v2_mappings t))"

definition v2_verdict ::
    "('c, 'q, 'i) relay_core \<Rightarrow> 'i env \<Rightarrow> ('c, 'm, 's) tunnel_v2 \<Rightarrow> i16 \<Rightarrow> socket_addr \<Rightarrow> verdict" where
  "v2_verdict R E t sid src =
     v2_verdict_of (v2_allocated t) (v2_table R t)
       (\<exists>c. fmlookup (v2_mappings t) sid = Some c \<and> is_timed_out R c (instant E)) sid src"

lemma v2_allocated_iff: "k \<in> v2_allocated t \<longleftrightarrow> fmlookup (v2_mappings t) k \<noteq> None"
  by (simp add: v2_allocated_def fmlookup_dom_iff)

section \<open>Data packets\<close>

lemma v2_admit_spec:
  fixes t :: "('c, 'm, 's) tunnel_v2"
  assumes laws: "endpoint_laws R"
  shows "(v2_verdict R E t sid src = Refuse \<and>
       v2_admit_sender R E sid p src now (v2_mappings t) = None) \<or>
    (v2_verdict R E t sid src \<noteq> Refuse \<and>
       (\<exists>m. v2_admit_sender R E sid p src now (v2_mappings t) = Some m \<and>
            fmdom m = fmdom (v2_mappings t) \<and>
            ep_table R m = table_after (v2_verdict R E t sid src) (v2_table R t) sid src))"
proof (cases "fmlookup (v2_mappings t) sid")
  case None
  then show ?thesis by (simp add: v2_verdict_def v2_verdict_of_def v2_allocated_iff v2_admit_sender_def)
next
  case (Some c)
  note ep [simp] = endpoint_lawsD [OF laws]
  have dom: "fmdom (fmupd sid c' (v2_mappings t)) = fmdom (v2_mappings t)" for c'
    using Some by (simp add: fmlookup_dom_iff finsert_absorb)
  have mod: "ep_table R (dm_modify sid (update_stats R n 0 now \<circ> set_last_receive_tick_at R now)
      (v2_mappings t)) = ep_table R (v2_mappings t)" for n
    by (rule ep_table_modify) simp
  consider "remote_ep R c = None" | "remote_ep R c = Some src"
    | ep where "remote_ep R c = Some ep" "ep \<noteq> src" "is_timed_out R c (instant E)"
    | ep where "remote_ep R c = Some ep" "ep \<noteq> src" "\<not> is_timed_out R c (instant E)"
    by (cases "remote_ep R c") auto
  then show ?thesis
    by cases
       (simp_all add: Some v2_verdict_def v2_verdict_of_def v2_allocated_iff v2_admit_sender_def
         v2_table_def dom [simplified] mod table_after_def)
qed

lemma v2_forward_info_eq:
  "v2_forward_info R rid src m =
     (case ep_table R m rid of None \<Rightarrow> None | Some ep \<Rightarrow> if ep = src then None else Some ep)"
  by (auto simp: v2_forward_info_def ep_table_def split: Option.bind_splits option.splits)

text \<open>The tunnel after a data packet differs in its mappings only, and not in their ids.\<close>

definition v2_same_ids :: "('c, 'm, 's) tunnel_v2 \<Rightarrow> ('c, 'm, 's) tunnel_v2 \<Rightarrow> bool" where
  "v2_same_ids t t' \<longleftrightarrow>
     (\<exists>m l. t' = t\<lparr>v2_mappings := m, v2_ping_limiter := l\<rparr> \<and> fmdom m = fmdom (v2_mappings t))"

lemma v2_same_ids_refl [simp]: "v2_same_ids t t"
  unfolding v2_same_ids_def
  by (intro exI [of _ "v2_mappings t"] exI [of _ "v2_ping_limiter t"]) simp

lemma v2_same_idsI:
  "fmdom m = fmdom (v2_mappings t) \<Longrightarrow> v2_same_ids t (t\<lparr>v2_mappings := m\<rparr>)"
  "v2_same_ids t (t\<lparr>v2_ping_limiter := l\<rparr>)"
  unfolding v2_same_ids_def
  by (cases t; fastforce)+

lemma v2_same_idsD:
  assumes "v2_same_ids t t'"
  shows "v2_allocated t' = v2_allocated t" "dm_len (v2_mappings t') = dm_len (v2_mappings t)"
    "v2_config t' = v2_config t" "v2_maintenance_mode t' = v2_maintenance_mode t"
    "v2_http_semaphore t' = v2_http_semaphore t" "v2_request_limiter t' = v2_request_limiter t"
    "v2_dropped_connections t' = v2_dropped_connections t"
proof -
  from assms obtain m l where "t' = t\<lparr>v2_mappings := m, v2_ping_limiter := l\<rparr>"
    and "fmdom m = fmdom (v2_mappings t)"
    unfolding v2_same_ids_def by blast
  then show "v2_allocated t' = v2_allocated t" "dm_len (v2_mappings t') = dm_len (v2_mappings t)"
    "v2_config t' = v2_config t" "v2_maintenance_mode t' = v2_maintenance_mode t"
    "v2_http_semaphore t' = v2_http_semaphore t" "v2_request_limiter t' = v2_request_limiter t"
    "v2_dropped_connections t' = v2_dropped_connections t"
    by (simp_all add: v2_allocated_def dm_len_def)
qed

lemma v2_handle_data_forward_cases [consumes 2, case_names Refused Stopped Sent Lost]:
  fixes t :: "('c, 'm, 's) tunnel_v2"
  assumes laws: "endpoint_laws R"
    and fwd: "v2_handle_data_forward R E sid rid p src now (t, io) = (t', io')"
  defines "v \<equiv> v2_verdict R E t sid src"
  defines "T \<equiv> table_after v (v2_table R t) sid src"
  obtains "v = Refuse" "(t', io') = (t, io)"
    | m where "v \<noteq> Refuse" "fmdom m = fmdom (v2_mappings t)" "ep_table R m = T"
        "forwards v T rid src p = []" "(t', io') = (t\<lparr>v2_mappings := m\<rparr>, io)"
    | m d where "v \<noteq> Refuse" "fmdom m = fmdom (v2_mappings t)" "ep_table R m = T"
        "forwards v T rid src p = [(d, p)]" "send_succeeds E d p"
        "(t', io') = (t\<lparr>v2_mappings := dm_modify rid (update_stats R 0 (length p) now) m\<rparr>,
           io_batch_update (record_v2_tx (of_nat (length p))) (io_send d p io))"
    | m d where "v \<noteq> Refuse" "fmdom m = fmdom (v2_mappings t)" "ep_table R m = T"
        "forwards v T rid src p = [(d, p)]" "\<not> send_succeeds E d p"
        "(t', io') = (t\<lparr>v2_mappings := m\<rparr>, io_send d p io)"
proof (cases "v = Refuse")
  case True
  then have "v2_admit_sender R E sid p src now (v2_mappings t) = None"
    using v2_admit_spec [OF laws, of E t sid src p now] unfolding v_def by blast
  with fwd that(1) True show thesis by (simp add: v2_handle_data_forward_def)
next
  case False
  with v2_admit_spec [OF laws, of E t sid src p now] obtain m where
    m: "v2_admit_sender R E sid p src now (v2_mappings t) = Some m" "fmdom m = fmdom (v2_mappings t)"
      "ep_table R m = T"
    by (auto simp: v_def T_def)
  show thesis
  proof (cases "v2_forward_info R rid src m")
    case None
    with m False have "forwards v T rid src p = []"
      by (auto simp: v2_forward_info_eq forwards_def split: option.splits if_splits)
    from that(2) [OF False m(2,3) this] None m(1) fwd show thesis
      by (simp add: v2_handle_data_forward_def)
  next
    case (Some d)
    with m False have f: "forwards v T rid src p = [(d, p)]"
      by (auto simp: v2_forward_info_eq forwards_def split: option.splits if_splits)
    from that(3,4) [OF False m(2,3) f] Some m(1) fwd show thesis
      by (cases "send_succeeds E d p") (simp_all add: v2_handle_data_forward_def Let_def)
  qed
qed

lemma v2_handle_data_forward_spec:
  fixes t :: "('c, 'm, 's) tunnel_v2"
  assumes laws: "endpoint_laws R"
    and fwd: "v2_handle_data_forward R E sid rid p src now (t, io) = (t', io')"
  defines "v \<equiv> v2_verdict R E t sid src"
  defines "T \<equiv> table_after v (v2_table R t) sid src"
  shows "v2_table R t' = T"
    and "v2_same_ids t t'"
    and "handler_effect record_v2_tx E io (io_batch io) (forwards v T rid src p) io'"
    and "v2_active_clients (io_metrics io') = v2_active_clients (io_metrics io)"
proof -
  note outcome = v2_handle_data_forward_cases [OF laws fwd, folded v_def, folded T_def]
  have mod: "ep_table R (dm_modify rid (update_stats R 0 (length p) now) m) = ep_table R m" for m
    by (rule ep_table_modify) (simp add: endpoint_lawsD [OF laws])
  show "v2_table R t' = T"
    by (rule outcome) (auto simp: v2_table_def mod T_def table_after_def)
  show "v2_same_ids t t'"
    by (rule outcome) (auto intro: v2_same_idsI)
  show "handler_effect record_v2_tx E io (io_batch io) (forwards v T rid src p) io'"
    by (rule outcome) (auto simp: handler_effect_def forwards_def split: option.splits)
  show "v2_active_clients (io_metrics io') = v2_active_clients (io_metrics io)"
    by (rule outcome) auto
qed

section \<open>Packets\<close>

definition v2_kind :: "('c, 'q, 'i) relay_core \<Rightarrow> u8 list \<Rightarrow> socket_addr \<Rightarrow> i16 packet_kind" where
  "v2_kind R p src =
     (let sid = u16_from_be_bytes (p ! 0) (p ! 1); rid = u16_from_be_bytes (p ! 2) (p ! 3) in
      if (sid = rid \<and> sid \<noteq> 0) \<or> \<not> validate_address R src then Invalid
      else if sid = 0 \<and> rid = 0 then (if length p = 50 then Ping else Not_Ping)
      else Data sid rid)"

text \<open>The datagrams a packet makes the tunnel send, and the table after it.\<close>

definition v2_replies ::
    "('c, 'q, 'i) relay_core \<Rightarrow> ('m, 'g, 'i) rater \<Rightarrow> 'i env \<Rightarrow> u8 list \<Rightarrow> socket_addr
       \<Rightarrow> ('c, 'm, 's) tunnel_v2 \<Rightarrow> datagram list" where
  "v2_replies R L E p src t =
     (case v2_kind R p src of
        Ping \<Rightarrow>
          if fst (check_and_increment L (v2_ping_limiter t) (sock_ip src) (instant E))
          then [(src, take 12 p)] else []
      | Data sid rid \<Rightarrow>
          if v2_maintenance_mode t then []
          else let v = v2_verdict R E t sid src
               in forwards v (table_after v (v2_table R t) sid src) rid src p
      | _ \<Rightarrow> [])"

definition v2_table_next ::
    "('c, 'q, 'i) relay_core \<Rightarrow> 'i env \<Rightarrow> u8 list \<Rightarrow> socket_addr \<Rightarrow> ('c, 'm, 's) tunnel_v2
       \<Rightarrow> i16 endpoint_table" where
  "v2_table_next R E p src t =
     (case v2_kind R p src of
        Data sid rid \<Rightarrow>
          if v2_maintenance_mode t then v2_table R t
          else table_after (v2_verdict R E t sid src) (v2_table R t) sid src
      | _ \<Rightarrow> v2_table R t)"

lemma v2_table_ping_limiter [simp]:
  "v2_table R (t\<lparr>v2_ping_limiter := l\<rparr>) = v2_table R t"
  by (simp add: v2_table_def)

lemma v2_handle_ping_spec:
  assumes "v2_handle_ping E p src (t, io) = (t', io')" and "12 \<le> length p"
  shows "t' = t" "handler_effect record_v2_tx E io (io_batch io) [(src, take 12 p)] io'"
    "v2_active_clients (io_metrics io') = v2_active_clients (io_metrics io)"
  using assms by (auto simp: v2_handle_ping_def Let_def handler_effect_def published_def)

text \<open>The handler by the kind of the packet.\<close>

lemma v2_on_udp_receive_eq:
  assumes "4 \<le> length p"
  shows "v2_on_udp_receive R L E p src (t, io) =
    (let io = io_batch_update (record_v2_rx (of_nat (length p))) io in
     case v2_kind R p src of
       Ping \<Rightarrow>
         let (ok, l) = check_and_increment L (v2_ping_limiter t) (sock_ip src) (instant E);
             t = t\<lparr>v2_ping_limiter := l\<rparr>
         in if ok then v2_handle_ping E p src (t, io) else (t, io)
     | Data sid rid \<Rightarrow>
         if v2_maintenance_mode t then (t, io)
         else v2_handle_data_forward R E sid rid p src (current_timestamp R (instant E)) (t, io)
     | _ \<Rightarrow> (t, io))"
  using assms by (simp add: v2_on_udp_receive_def v2_kind_def v2_validate_packet_def Let_def)

lemma v2_on_udp_receive_spec:
  fixes t :: "('c, 'm, 's) tunnel_v2"
  assumes laws: "endpoint_laws R" and len: "4 \<le> length p"
  obtains t' io' where "v2_on_udp_receive R L E p src (t, io) = (t', io')"
    "v2_same_ids t t'" "v2_table R t' = v2_table_next R E p src t"
    "handler_effect record_v2_tx E io (record_v2_rx (of_nat (length p)) (io_batch io))
       (v2_replies R L E p src t) io'"
    "v2_active_clients (io_metrics io') = v2_active_clients (io_metrics io)"
proof -
  define io1 where "io1 = io_batch_update (record_v2_rx (of_nat (length p))) io"
  have io1: "io_batch io1 = record_v2_rx (of_nat (length p)) (io_batch io)"
    "v2_active_clients (io_metrics io1) = v2_active_clients (io_metrics io)"
    by (simp_all add: io1_def)
  obtain t' io' where res: "v2_on_udp_receive R L E p src (t, io) = (t', io')" by fastforce
  note run = res [unfolded v2_on_udp_receive_eq [OF len] Let_def, folded io1_def]
  have "v2_same_ids t t' \<and> v2_table R t' = v2_table_next R E p src t \<and>
    handler_effect record_v2_tx E io1 (io_batch io1) (v2_replies R L E p src t) io' \<and>
    v2_active_clients (io_metrics io') = v2_active_clients (io_metrics io1)"
  proof (cases "v2_kind R p src")
    case Ping
    then have "12 \<le> length p" by (auto simp: v2_kind_def Let_def split: if_splits)
    with run Ping show ?thesis
      by (auto simp: v2_replies_def v2_table_next_def v2_same_idsI dest: v2_handle_ping_spec
          split: prod.splits if_splits)
  next
    case (Data sid rid)
    with run show ?thesis
      using v2_handle_data_forward_spec [OF laws, of E sid rid p src _ t io1]
      by (auto simp: v2_replies_def v2_table_next_def Let_def split: if_splits)
  qed (use run in \<open>auto simp: v2_replies_def v2_table_next_def\<close>)
  with that [OF res] handler_effect_counted io1 show thesis unfolding io1_def by metis
qed

end
