(* ===== verification/V2_System.thy ===== *)
theory V2_System
  imports V2_Service
begin

text \<open>
  The tasks that \<open>start\<close> spawns for the version 2 tunnel, run in any interleaving of whole handler
  calls: the receive workers, the heartbeat, the accept loop of the HTTP server and the tasks of
  its connections. The system is an instance of the relay contract.
\<close>

section \<open>The system\<close>

definition v2_num_receivers :: "nat \<Rightarrow> nat" where
  "v2_num_receivers cpus = max (min cpus 4) 1"

text \<open>
  A served connection has an address and serves one request, as keep-alive is off; its permit is
  released when its task ends, with or without a request. An error of \<open>accept\<close> ends the accept
  loop with the \<open>?\<close> operator, and nothing starts it again; the connections go on.
\<close>

record ('c, 'm, 's) v2_system =
  v2s_tunnel :: "('c, 'm, 's) tunnel_v2"
  v2s_metrics :: metrics
  v2s_batches :: "nat \<Rightarrow> local_metrics_batch"
  v2s_sent :: "datagram list"
  v2s_announced :: "string list"
  v2s_conns :: "(nat, socket_addr \<times> bool) fmap"
  v2s_responses :: "(nat \<times> response) list"
  v2s_listening :: bool

definition v2_start :: "('c, 'm, 's) tunnel_v2 \<Rightarrow> metrics \<Rightarrow> ('c, 'm, 's) v2_system" where
  "v2_start t m = \<lparr>
     v2s_tunnel = t, v2s_metrics = m, v2s_batches = (\<lambda>_. batch_new), v2s_sent = [],
     v2s_announced = [], v2s_conns = fmempty, v2s_responses = [],
     v2s_listening = True\<rparr>"

definition v2s_io :: "nat \<Rightarrow> ('c, 'm, 's) v2_system \<Rightarrow> io" where
  "v2s_io w s = \<lparr>io_metrics = v2s_metrics s, io_batch = v2s_batches s w, io_sent = v2s_sent s\<rparr>"

definition v2s_put ::
    "nat \<Rightarrow> ('c, 'm, 's) v2_state \<Rightarrow> ('c, 'm, 's) v2_system \<Rightarrow> ('c, 'm, 's) v2_system" where
  "v2s_put w r s =
     s\<lparr>v2s_tunnel := fst r, v2s_metrics := io_metrics (snd r),
       v2s_batches := (v2s_batches s)(w := io_batch (snd r)), v2s_sent := io_sent (snd r)\<rparr>"

datatype 'i v2_event =
    V2_Recv nat "'i env" recv_result
  | V2_Tick "'i env"
  | V2_Accept nat socket_addr
  | V2_Accept_Error
  | V2_Http nat "'i env" "nat \<Rightarrow> i16" http_request
  | V2_Close nat

fun v2_step ::
    "('c, 'q, 'i) relay_core \<Rightarrow> ('m, 'g, 'i) rater \<Rightarrow> 's semaphore \<Rightarrow> (string \<Rightarrow> string) \<Rightarrow> 'i v2_event
       \<Rightarrow> ('c, 'm, 's) v2_system \<Rightarrow> ('c, 'm, 's) v2_system option" where
  "v2_step R L S encode (V2_Recv w E r) s =
     Some (v2s_put w (v2_receive_step R L E r (v2s_tunnel s, v2s_io w s)) s)"
| "v2_step R L S encode (V2_Tick E) s =
     (let (announced, t, m) = v2_heartbeat_tick R L encode E (v2s_tunnel s, v2s_metrics s)
      in Some (s\<lparr>v2s_tunnel := t, v2s_metrics := m,
                 v2s_announced := v2s_announced s @ (case announced of None \<Rightarrow> [] | Some u \<Rightarrow> [u])\<rparr>))"
| "v2_step R L S encode (V2_Accept k a) s =
     (if dm_contains (v2s_conns s) k \<or> \<not> v2s_listening s then Some s
      else let (served, t, m) = v2_accept S (v2s_tunnel s, v2s_metrics s)
           in Some (s\<lparr>v2s_tunnel := t, v2s_metrics := m,
                 v2s_conns := (if served then fmupd k (a, False) (v2s_conns s) else v2s_conns s)\<rparr>))"
| "v2_step R L S encode V2_Accept_Error s = Some (s\<lparr>v2s_listening := False\<rparr>)"
| "v2_step R L S encode (V2_Http k E draw req) s =
     (case fmlookup (v2s_conns s) k of
        Some (a, False) \<Rightarrow>
          let (resp, t, m) = v2_handle_http_request R L E draw req a (v2s_tunnel s, v2s_metrics s)
          in Some (s\<lparr>v2s_tunnel := t, v2s_metrics := m,
                v2s_conns := fmupd k (a, True) (v2s_conns s),
                v2s_responses := v2s_responses s @ [(k, resp)]\<rparr>)
      | _ \<Rightarrow> Some s)"
| "v2_step R L S encode (V2_Close k) s =
     (if dm_contains (v2s_conns s) k
      then Some (s\<lparr>v2s_tunnel := v2_connection_done S (v2s_tunnel s),
                   v2s_conns := fmdrop k (v2s_conns s)\<rparr>)
      else Some s)"

fun v2_rx :: "'i v2_event \<Rightarrow> recv_result option" where
  "v2_rx (V2_Recv w E r) = Some r"
| "v2_rx e = None"

definition v2_registered ::
    "('c, 'q, 'i) relay_core \<Rightarrow> ('c, 'm, 's) v2_system \<Rightarrow> socket_addr \<Rightarrow> bool" where
  "v2_registered R s a \<longleftrightarrow> (\<exists>k. v2_table R (v2s_tunnel s) k = Some a)"

section \<open>The invariant\<close>

text \<open>
  Id 0 is never allocated, the number of ids stays within the limit and is what the gauge shows;
  the permits that are left and the connections that are open make one hundred.
\<close>

definition v2_tunnel_ok :: "('c, 'm, 's) tunnel_v2 \<Rightarrow> metrics \<Rightarrow> bool" where
  "v2_tunnel_ok t m \<longleftrightarrow>
     fmlookup (v2_mappings t) 0 = None \<and> dm_len (v2_mappings t) \<le> max_clients (v2_config t) \<and>
     v2_active_clients m = dm_len (v2_mappings t)"

definition v2_ok ::
    "('c, 'q, 'i) relay_core \<Rightarrow> 's semaphore \<Rightarrow> ('s \<Rightarrow> nat) \<Rightarrow> ('c, 'm, 's) v2_system \<Rightarrow> bool" where
  "v2_ok R S avail s \<longleftrightarrow>
     endpoint_laws R \<and> semaphore_laws S avail \<and> v2_tunnel_ok (v2s_tunnel s) (v2s_metrics s) \<and>
     avail (v2_http_semaphore (v2s_tunnel s)) + dm_len (v2s_conns s) = MAX_HTTP_CONNECTIONS \<and>
     (\<forall>w. batch_ok (v2s_batches s w))"

lemma v2s_simps [simp]:
  "io_metrics (v2s_io w s) = v2s_metrics s" "io_batch (v2s_io w s) = v2s_batches s w"
  "io_sent (v2s_io w s) = v2s_sent s"
  "v2s_tunnel (v2s_put w (t, io) s) = t" "v2s_metrics (v2s_put w (t, io) s) = io_metrics io"
  "v2s_sent (v2s_put w (t, io) s) = io_sent io" "v2s_conns (v2s_put w r s) = v2s_conns s"
  "v2s_batches (v2s_put w (t, io) s) = (v2s_batches s)(w := io_batch io)"
  by (simp_all add: v2s_io_def v2s_put_def)

lemma v2_start_ok:
  assumes "endpoint_laws R" "semaphore_laws S avail" "v2_active_clients m = 0"
  shows "v2_ok R S avail (v2_start (tunnel_v2_new L S c) m)"
  using assms
  by (auto simp: v2_ok_def v2_start_def tunnel_v2_new_def v2_tunnel_ok_def semaphore_laws_def)

section \<open>HTTP events\<close>

lemma v2_handle_request_ok:
  assumes "v2_handle_request R E draw q (t, m) = (resp, t', m')" and "v2_tunnel_ok t m"
  shows "v2_tunnel_ok t' m' \<and> v2_http_semaphore t' = v2_http_semaphore t \<and> v2_config t' = v2_config t"
proof (cases "status resp = 200")
  case False
  with assms show ?thesis
    unfolding v2_handle_request_eq by (auto simp: v2_request_spec_def Let_def split: if_splits)
next
  case True
  let ?ids = "take (v2_clients_param q) (free_ids draw 0 (v2_mappings t))"
  have free: "0 \<notin> set ?ids" "\<forall>i \<in> set ?ids. fmlookup (v2_mappings t) i = None"
    using free_ids_props by (metis in_set_takeD)+
  with True assms show ?thesis
    unfolding v2_handle_request_eq
    by (auto simp: v2_request_spec_def v2_tunnel_ok_def Let_def dm_len_reserve split: if_splits)
qed

lemma v2_handle_http_request_ok:
  assumes "v2_handle_http_request R L E draw req a (t, m) = (resp, t', m')" and "v2_tunnel_ok t m"
  shows "v2_tunnel_ok t' m' \<and> v2_http_semaphore t' = v2_http_semaphore t \<and> v2_config t' = v2_config t"
proof -
  obtain b l where chk: "check_and_increment L (v2_request_limiter t) (sock_ip a) (instant E) = (b, l)"
    by fastforce
  have ok: "v2_tunnel_ok (t\<lparr>v2_request_limiter := l\<rparr>) (v2_http_requests_update (\<lambda>n. n + 1) m)"
    using assms(2) by (simp add: v2_tunnel_ok_def)
  show ?thesis
    using assms ok
    by (auto simp: v2_handle_http_request_def v2_handle_maintenance_def chk v2_tunnel_ok_def Let_def
        dest!: v2_handle_request_ok split: if_splits)
qed

section \<open>One event\<close>

definition v2_packet_size_ok :: "u8 list \<Rightarrow> bool" where
  "v2_packet_size_ok p \<longleftrightarrow> 4 \<le> length p \<and> length p \<le> V2_MAX_PACKET_SIZE"

lemma v2_replies_at_most_one: "v2_replies R L E p src t = [] \<or> (\<exists>d. v2_replies R L E p src t = [d])"
  by (auto simp: v2_replies_def forwards_def Let_def split: packet_kind.splits option.splits)

text \<open>A packet of acceptable size, in terms of the abstract replies and table.\<close>

lemma v2_recv_packet:
  assumes ok: "v2_ok R S avail s" and size: "v2_packet_size_ok p"
  obtains t' io' where
    "v2_step R L S encode (V2_Recv w E (Received p src)) s =
       Some (v2s_put w (t', io_maybe_flush io') s)"
    "v2_same_ids (v2s_tunnel s) t'"
    "v2_table R t' = v2_table_next R E p src (v2s_tunnel s)"
    "handler_effect record_v2_tx E (v2s_io w s) (record_v2_rx (of_nat (length p)) (v2s_batches s w))
       (v2_replies R L E p src (v2s_tunnel s)) io'"
    "v2_active_clients (io_metrics io') = v2_active_clients (v2s_metrics s)"
proof -
  from ok have laws: "endpoint_laws R" by (simp add: v2_ok_def)
  from size have len: "4 \<le> length p" by (simp add: v2_packet_size_ok_def)
  show thesis
  proof (rule v2_on_udp_receive_spec [OF laws len, of L E src "v2s_tunnel s" "v2s_io w s"], goal_cases)
    case (1 t' io')
    with size show thesis
      by (intro that [of t' io']) (simp_all add: v2_receive_step_def v2_packet_size_ok_def)
  qed
qed

lemma v2_tunnel_ok_same_ids:
  assumes "v2_tunnel_ok t m" and "v2_same_ids t t'" and "v2_active_clients m' = v2_active_clients m"
  shows "v2_tunnel_ok t' m'"
  using assms v2_same_idsD [OF assms(2)] v2_allocated_iff [of 0 t] v2_allocated_iff [of 0 t']
  by (simp add: v2_tunnel_ok_def)

lemma v2_ok_put:
  assumes "v2_ok R S avail s" and "v2_same_ids (v2s_tunnel s) t"
    and "v2_active_clients (io_metrics io) = v2_active_clients (v2s_metrics s)"
    and "batch_ok (io_batch io)"
  shows "v2_ok R S avail (v2s_put w (t, io) s)"
  using assms v2_tunnel_ok_same_ids [OF _ assms(2,3)] v2_same_idsD(5) [OF assms(2)]
  by (auto simp: v2_ok_def)

lemma v2_cleanup_fields:
  assumes "v2_cleanup_expired_mappings R L E (t, m) = (t', m')"
  shows "v2_mappings t' = dm_retain (\<lambda>k c. \<not> is_timed_out R c (instant E)) (v2_mappings t)"
    "v2_maintenance_mode t' = v2_maintenance_mode t" "v2_config t' = v2_config t"
    "v2_http_semaphore t' = v2_http_semaphore t" "v2_active_clients m' = dm_len (v2_mappings t')"
  using assms by (auto simp: v2_cleanup_expired_mappings_def Let_def)

lemma v2_step_tick:
  assumes "v2_step R L S encode (V2_Tick E) s = Some s'"
  shows "v2_mappings (v2s_tunnel s') =
      dm_retain (\<lambda>k c. \<not> is_timed_out R c (instant E)) (v2_mappings (v2s_tunnel s))"
    and "v2_config (v2s_tunnel s') = v2_config (v2s_tunnel s)"
    and "v2_http_semaphore (v2s_tunnel s') = v2_http_semaphore (v2s_tunnel s)"
    and "v2_active_clients (v2s_metrics s') = dm_len (v2_mappings (v2s_tunnel s'))"
    and "v2s_batches s' = v2s_batches s \<and> v2s_conns s' = v2s_conns s \<and> v2s_sent s' = v2s_sent s"
    and "v2_dropped_connections (v2s_tunnel s') = 0"
proof -
  obtain t m where cl: "v2_cleanup_expired_mappings R L E (v2s_tunnel s, v2s_metrics s) = (t, m)"
    by fastforce
  note f = v2_cleanup_fields [OF cl]
  show "v2_mappings (v2s_tunnel s') =
      dm_retain (\<lambda>k c. \<not> is_timed_out R c (instant E)) (v2_mappings (v2s_tunnel s))"
    "v2_config (v2s_tunnel s') = v2_config (v2s_tunnel s)"
    "v2_http_semaphore (v2s_tunnel s') = v2_http_semaphore (v2s_tunnel s)"
    "v2_active_clients (v2s_metrics s') = dm_len (v2_mappings (v2s_tunnel s'))"
    "v2s_batches s' = v2s_batches s \<and> v2s_conns s' = v2s_conns s \<and> v2s_sent s' = v2s_sent s"
    "v2_dropped_connections (v2s_tunnel s') = 0"
    using assms f by (auto simp: v2_heartbeat_tick_def cl Let_def)
qed

lemma v2_tick_ok:
  assumes "v2_ok R S avail s" and "v2_step R L S encode (V2_Tick E) s = Some s'"
  shows "v2_ok R S avail s'"
  using assms(1) v2_step_tick [OF assms(2)] dm.len_retain [of _ "v2_mappings (v2s_tunnel s)"]
  by (auto simp: v2_ok_def v2_tunnel_ok_def intro: le_trans)

lemma v2_accept_ok:
  assumes "v2_ok R S avail s" and "v2_step R L S encode (V2_Accept k a) s = Some s'"
  shows "v2_ok R S avail s'"
proof (cases "dm_contains (v2s_conns s) k \<or> \<not> v2s_listening s")
  case True
  with assms show ?thesis by auto
next
  case False
  from assms(1) have laws: "\<And>x y. try_acquire_owned S x = Some y \<Longrightarrow> avail x = Suc (avail y)"
    by (auto simp: v2_ok_def semaphore_laws_def)
  from False assms laws show ?thesis
    by (auto simp: v2_accept_def v2_ok_def v2_tunnel_ok_def dm.len_insert dm_contains_def Let_def
        split: option.splits dest!: laws)
qed

lemma v2_accept_error_ok:
  assumes "v2_ok R S avail s" and "v2_step R L S encode V2_Accept_Error s = Some s'"
  shows "v2_ok R S avail s'"
  using assms by (auto simp: v2_ok_def)

lemma v2_close_ok:
  assumes "v2_ok R S avail s" and "v2_step R L S encode (V2_Close k) s = Some s'"
  shows "v2_ok R S avail s'"
proof (cases "dm_contains (v2s_conns s) k")
  case True
  then obtain c where c: "fmlookup (v2s_conns s) k = Some c" by (auto simp: dm_contains_def)
  have "0 < dm_len (v2s_conns s)"
    using dm.len_pos [OF c] .
  with True c assms show ?thesis
    by (auto simp: v2_connection_done_def v2_ok_def v2_tunnel_ok_def dm.len_remove semaphore_laws_def)
next
  case False
  with assms show ?thesis by simp
qed

lemma v2_http_ok:
  assumes "v2_ok R S avail s" and "v2_step R L S encode (V2_Http k E draw req) s = Some s'"
  shows "v2_ok R S avail s'"
proof (cases "\<exists>a. fmlookup (v2s_conns s) k = Some (a, False)")
  case True
  then obtain a where a: "fmlookup (v2s_conns s) k = Some (a, False)" by blast
  obtain resp t m where r: "v2_handle_http_request R L E draw req a (v2s_tunnel s, v2s_metrics s) = (resp, t, m)"
    by (cases "v2_handle_http_request R L E draw req a (v2s_tunnel s, v2s_metrics s)")
  from assms(1) have "v2_tunnel_ok (v2s_tunnel s) (v2s_metrics s)" by (simp add: v2_ok_def)
  from v2_handle_http_request_ok [OF r this] a r assms show ?thesis
    by (auto simp: v2_ok_def dm.len_insert Let_def)
next
  case False
  with assms show ?thesis by (auto split: option.splits bool.splits)
qed

lemma v2_recv_ok:
  assumes "v2_ok R S avail s" and "v2_step R L S encode (V2_Recv w E r) s = Some s'"
  shows "v2_ok R S avail s'"
proof -
  from assms(1) have batch: "batch_ok (v2s_batches s w)" by (simp add: v2_ok_def)
  consider p src where "r = Received p src" "v2_packet_size_ok p"
    | p src where "r = Received p src" "\<not> v2_packet_size_ok p" | "r = Receive_Error"
    by (cases r) blast+
  then show ?thesis
  proof cases
    case (1 p src)
    obtain t' io' where st: "v2_step R L S encode (V2_Recv w E (Received p src)) s =
        Some (v2s_put w (t', io_maybe_flush io') s)" "v2_same_ids (v2s_tunnel s) t'"
      "v2_active_clients (io_metrics io') = v2_active_clients (v2s_metrics s)"
      and eff: "handler_effect record_v2_tx E (v2s_io w s)
        (record_v2_rx (of_nat (length p)) (v2s_batches s w)) (v2_replies R L E p src (v2s_tunnel s)) io'"
      by (rule v2_recv_packet [OF assms(1) 1(2)])
    have "one_packet (v2s_batches s w) (io_batch io')"
      using eff v2_replies_at_most_one [of R L E p src "v2s_tunnel s"]
      by (auto simp: handler_effect_def one_packet_v2)
    with batch have "batch_ok (io_batch (io_maybe_flush io'))" by (rule io_maybe_flush_batch)
    with st(3) have "v2_ok R S avail (v2s_put w (t', io_maybe_flush io') s)"
      by (intro v2_ok_put [OF assms(1) st(2)]) simp_all
    moreover have "s' = v2s_put w (t', io_maybe_flush io') s"
      using st(1) assms(2) unfolding 1(1) by (simp del: v2_step.simps)
    ultimately show ?thesis by simp
  next
    case (2 p src)
    with assms batch v2_ok_put [OF assms(1) v2_same_ids_refl, of "v2s_io w s" w] show ?thesis
      by (auto simp: v2_receive_step_def v2_packet_size_ok_def)
  next
    case 3
    with assms v2_ok_put [OF assms(1) v2_same_ids_refl, of "io_flush (v2s_io w s)" w] show ?thesis
      by (auto simp: v2_receive_step_def)
  qed
qed

lemma v2_step_total: "\<exists>s'. v2_step R L S encode e s = Some s'"
  by (cases e) (auto split: prod.splits option.splits bool.splits simp: Let_def)

lemma v2_step_ok:
  assumes "v2_ok R S avail s"
  shows "\<exists>s'. v2_step R L S encode e s = Some s' \<and> v2_ok R S avail s'"
proof -
  obtain s' where s': "v2_step R L S encode e s = Some s'" using v2_step_total by blast
  with assms have "v2_ok R S avail s'"
    by (cases e; hypsubst)
       (rule v2_recv_ok v2_tick_ok v2_accept_ok v2_accept_error_ok v2_http_ok v2_close_ok; assumption)+
  with s' show ?thesis by blast
qed

declare v2_step.simps [simp del]

lemma v2_step_sent:
  assumes "v2_ok R S avail s" and "v2_step R L S encode (V2_Recv w E (Received p src)) s = Some s'"
  shows "v2s_sent s' = v2s_sent s @
    (if v2_packet_size_ok p then v2_replies R L E p src (v2s_tunnel s) else [])"
proof (cases "v2_packet_size_ok p")
  case True
  show ?thesis
    by (rule v2_recv_packet [OF assms(1) True, of L encode w E src])
       (use assms(2) True in \<open>auto simp: handler_effect_def\<close>)
next
  case False
  with assms(2) show ?thesis by (auto simp: v2_step.simps v2_receive_step_def v2_packet_size_ok_def)
qed

lemma v2_step_quiet:
  assumes "v2_step R L S encode e s = Some s'" and "\<nexists>p src. v2_rx e = Some (Received p src)"
  shows "v2s_sent s' = v2s_sent s"
proof (cases e)
  case (V2_Recv w E r)
  with assms(2) have "r = Receive_Error" by (cases r) auto
  with assms(1) V2_Recv show ?thesis by (auto simp: v2_step.simps v2_receive_step_def)
qed (use assms(1) in \<open>auto simp: v2_step.simps Let_def split: prod.splits if_splits option.splits bool.splits\<close>)

text \<open>What a packet of any size does to the tunnel.\<close>

lemma v2_step_table:
  assumes "v2_ok R S avail s" and "v2_step R L S encode (V2_Recv w E (Received p src)) s = Some s'"
  shows "v2_table R (v2s_tunnel s') =
      (if v2_packet_size_ok p then v2_table_next R E p src (v2s_tunnel s)
       else v2_table R (v2s_tunnel s))"
    and "v2_same_ids (v2s_tunnel s) (v2s_tunnel s')"
proof -
  have "v2_table R (v2s_tunnel s') =
      (if v2_packet_size_ok p then v2_table_next R E p src (v2s_tunnel s)
       else v2_table R (v2s_tunnel s)) \<and> v2_same_ids (v2s_tunnel s) (v2s_tunnel s')"
  proof (cases "v2_packet_size_ok p")
    case True
    show ?thesis
      by (rule v2_recv_packet [OF assms(1) True, of L encode w E src]) (use assms(2) True in auto)
  next
    case False
    with assms(2) show ?thesis by (auto simp: v2_step.simps v2_receive_step_def v2_packet_size_ok_def)
  qed
  then show "v2_table R (v2s_tunnel s') =
      (if v2_packet_size_ok p then v2_table_next R E p src (v2s_tunnel s)
       else v2_table R (v2s_tunnel s))" and "v2_same_ids (v2s_tunnel s) (v2s_tunnel s')"
    by blast+
qed

lemma v2_replies_relay:
  assumes "v2_replies R L E p src t = [d]"
  shows "ping_echo p src d \<or>
    (verbatim p src d \<and> \<not> v2_maintenance_mode t \<and> (\<exists>k. v2_table_next R E p src t k = Some (fst d)))"
proof (cases "v2_kind R p src")
  case Ping
  then have "length p = 50" by (auto simp: v2_kind_def Let_def split: if_splits)
  with assms Ping show ?thesis by (auto simp: v2_replies_def ping_echo_def split: if_splits)
next
  case (Data sid rid)
  with assms show ?thesis
    by (auto simp: v2_replies_def v2_table_next_def forwards_def verbatim_def Let_def
        split: if_splits option.splits)
qed (use assms in \<open>simp_all add: v2_replies_def\<close>)

interpretation v2: relay "v2_step R L S encode" v2_rx v2s_sent "v2_ok R S avail" "v2_registered R"
    "\<lambda>s. v2_maintenance_mode (v2s_tunnel s)" for R L S encode avail
proof
  fix R L S encode avail s e
  show "v2_ok R S avail s \<Longrightarrow> \<exists>s'. v2_step R L S encode e s = Some s' \<and> v2_ok R S avail s'"
    by (rule v2_step_ok)
next
  fix R L S encode avail s s' e
  assume ok: "v2_ok R S avail s" and step: "v2_step R L S encode e s = Some s'"
  show "\<exists>new. v2s_sent s' = v2s_sent s @ new \<and> answers (v2_rx e) new"
  proof (cases "\<exists>p src. v2_rx e = Some (Received p src)")
    case False
    with v2_step_quiet [OF step] show ?thesis by (auto simp: answers_def)
  next
    case True
    then obtain w E p src where e: "e = V2_Recv w E (Received p src)" by (auto elim!: v2_rx.elims)
    have "answers (Some (Received p src)) (v2_replies R L E p src (v2s_tunnel s))"
      using v2_replies_at_most_one [of R L E p src "v2s_tunnel s"]
    proof
      assume "\<exists>d. v2_replies R L E p src (v2s_tunnel s) = [d]"
      then obtain d where d: "v2_replies R L E p src (v2s_tunnel s) = [d]" by blast
      from v2_replies_relay [OF d] have "length (snd d) \<le> length p"
        by (auto simp: ping_echo_def verbatim_def)
      with d show ?thesis by (cases d) (auto simp: answers_def)
    qed (simp add: answers_def)
    with v2_step_sent [OF ok step [unfolded e]] show ?thesis by (auto simp: e answers_def)
  qed
next
  fix R L S encode avail s s' e d p src
  assume ok: "v2_ok R S avail s" and step: "v2_step R L S encode e s = Some s'"
    and sent: "v2s_sent s' = v2s_sent s @ [d]" and rx: "v2_rx e = Some (Received p src)"
  obtain w E where e: "e = V2_Recv w E (Received p src)" using rx by (auto elim!: v2_rx.elims)
  from v2_step_sent [OF ok step [unfolded e]] sent
  have size: "v2_packet_size_ok p" and d: "v2_replies R L E p src (v2s_tunnel s) = [d]"
    by (auto split: if_splits)
  from v2_replies_relay [OF d] v2_step_table(1) [OF ok step [unfolded e]] size
  show "ping_echo p src d \<or>
      (verbatim p src d \<and> v2_registered R s' (fst d) \<and> \<not> v2_maintenance_mode (v2s_tunnel s))"
    by (auto simp: v2_registered_def)
qed

end
