(* ===== verification/V2_Properties.thy ===== *)
theory V2_Properties
  imports V2_System
begin

text \<open>
  The properties of the version 2 tunnel over its packets, its HTTP connections and its runs.
\<close>

section \<open>A sample system\<close>

text \<open>Ids 7 and 8 are allocated; 7 is bound to \<open>v2_addr_a\<close>, 8 to \<open>v2_addr_b\<close>.\<close>

definition v2_addr_a :: socket_addr where "v2_addr_a = SocketV4 10 0 0 1 4000"
definition v2_addr_b :: socket_addr where "v2_addr_b = SocketV4 10 0 0 2 5000"
definition v2_addr_c :: socket_addr where "v2_addr_c = SocketV4 10 0 0 3 6000"

definition v2_client_at :: "socket_addr \<Rightarrow> sample_client" where
  "v2_client_at a = client_new_with_endpoint sample_core a V2_TIMEOUT_SECONDS 100"

definition sample_v2 :: "(sample_client, sample_manager, nat) v2_system" where
  "sample_v2 = v2_start
     (sample_v2_tunnel\<lparr>v2_mappings :=
        fmupd 7 (v2_client_at v2_addr_a) (fmupd 8 (v2_client_at v2_addr_b) fmempty)\<rparr>)
     (metrics_new\<lparr>v2_active_clients := 2\<rparr>)"

lemma v2_client_at_ep [simp]: "remote_ep sample_core (v2_client_at a) = Some a"
  by (simp add: v2_client_at_def endpoint_lawsD)

lemma sample_v2_ok [simp]: "v2_ok sample_core sample_semaphore id sample_v2"
  by (simp add: v2_ok_def sample_v2_def v2_start_def v2_tunnel_ok_def dm.len_insert)
     (simp add: sample_v2_tunnel_def tunnel_v2_new_def sample_semaphore_def MAX_HTTP_CONNECTIONS_def)

lemma sample_v2_simps [simp]:
  "v2s_sent sample_v2 = []" "v2_maintenance_mode (v2s_tunnel sample_v2) = False"
  "v2_mappings (v2s_tunnel sample_v2) =
     fmupd 7 (v2_client_at v2_addr_a) (fmupd 8 (v2_client_at v2_addr_b) fmempty)"
  "v2_table sample_core (v2s_tunnel sample_v2) = Map.empty(8 \<mapsto> v2_addr_b, 7 \<mapsto> v2_addr_a)"
  by (simp_all add: sample_v2_def v2_start_def v2_table_def)

text \<open>A packet from one id to another, as a client builds it.\<close>

definition v2_packet :: "i16 \<Rightarrow> i16 \<Rightarrow> u8 list \<Rightarrow> u8 list" where
  "v2_packet sid rid payload =
     [fst (u16_to_be_bytes sid), snd (u16_to_be_bytes sid),
      fst (u16_to_be_bytes rid), snd (u16_to_be_bytes rid)] @ payload"

lemma v2_kind_packet [simp]:
  "v2_kind R (v2_packet sid rid payload) src =
     (if (sid = rid \<and> sid \<noteq> 0) \<or> \<not> validate_address R src then Invalid
      else if sid = 0 \<and> rid = 0 then (if length payload = 46 then Ping else Not_Ping)
      else Data sid rid)"
  by (simp add: v2_kind_def v2_packet_def Let_def u16_be_round_trip)

lemma v2_packet_size [simp]: "v2_packet_size_ok (v2_packet sid rid payload) \<longleftrightarrow> length payload \<le> 1468"
  by (auto simp: v2_packet_size_ok_def v2_packet_def V2_MAX_PACKET_SIZE_def)

lemma v2_sample_valid [simp]:
  "validate_address sample_core v2_addr_a" "validate_address sample_core v2_addr_c"
  by (simp_all add: sample_core_def v2_addr_a_def v2_addr_c_def)

section \<open>The session table\<close>

text \<open>
  C6: Refinement of the session table. Outside maintenance a data packet changes the endpoint table
  exactly as the abstract verdict says: an allocated id without an endpoint is bound to the source,
  a timed out client is bound to its new source, everyone else keeps the table as it is. The packet
  is forwarded, unchanged, to the receiver's endpoint in the new table, unless the sender was
  refused or the endpoint is the sender's own address. No packet allocates or frees an id.
\<close>

theorem v2_refines_table:
  assumes "v2_ok R S avail s" and "v2_packet_size_ok p" and "v2_kind R p src = Data sid rid"
    and "\<not> v2_maintenance_mode (v2s_tunnel s)"
    and "v2_step R L S encode (V2_Recv w E (Received p src)) s = Some s'"
  shows "let v = v2_verdict R E (v2s_tunnel s) sid src;
             table' = table_after v (v2_table R (v2s_tunnel s)) sid src
         in v2_table R (v2s_tunnel s') = table' \<and>
            v2_allocated (v2s_tunnel s') = v2_allocated (v2s_tunnel s) \<and>
            v2s_sent s' = v2s_sent s @ forwards v table' rid src p"
  using v2_step_sent [OF assms(1,5)] v2_step_table [OF assms(1,5)] assms(2-4)
  by (simp add: v2_replies_def v2_table_next_def v2_same_idsD Let_def)

theorem v2_refines_table_witness:
  "\<exists>s'. v2_step sample_core sample_rater sample_semaphore id
          (V2_Recv 0 (sample_env 101) (Received (v2_packet 7 8 [1]) v2_addr_a)) sample_v2 = Some s' \<and>
        v2s_sent s' = [(v2_addr_b, v2_packet 7 8 [1])]"
proof -
  obtain s' where s': "v2_step sample_core sample_rater sample_semaphore id
      (V2_Recv 0 (sample_env 101) (Received (v2_packet 7 8 [1]) v2_addr_a)) sample_v2 = Some s'"
    using v2_step_total by blast
  have kind: "v2_kind sample_core (v2_packet 7 8 [1]) v2_addr_a = Data 7 8" by simp
  have size: "v2_packet_size_ok (v2_packet 7 8 [1])" by simp
  have "v2s_sent s' = [(v2_addr_b, v2_packet 7 8 [1])]"
    using v2_refines_table [OF sample_v2_ok size kind _ s']
    by (simp add: Let_def v2_verdict_def v2_verdict_of_def v2_allocated_iff table_after_def
        forwards_def v2_addr_a_def v2_addr_b_def)
  with s' show ?thesis by blast
qed

text \<open>A packet of a refused sender, or of a bad size, in terms of the whole state.\<close>

lemma v2_put_same [simp]: "v2s_put w (v2s_tunnel s, v2s_io w s) s = s"
  by (simp add: v2s_put_def v2s_io_def)

lemma v2_recv_refused:
  assumes "v2_ok R S avail s" and "v2_kind R p src = Data sid rid"
    and "v2_verdict R E (v2s_tunnel s) sid src = Refuse"
    and "v2_step R L S encode (V2_Recv w E (Received p src)) s = Some s'"
  shows "s' =
    (if v2_packet_size_ok p then
       v2s_put w (v2s_tunnel s, io_maybe_flush (io_batch_update (record_v2_rx (of_nat (length p))) (v2s_io w s))) s
     else s)"
proof -
  have "v2_admit_sender R E sid p src now (v2_mappings (v2s_tunnel s)) = None" for now
    using v2_admit_spec [of R E "v2s_tunnel s" sid src p now] assms(1,3) by (auto simp: v2_ok_def)
  then have "v2_on_udp_receive R L E p src (v2s_tunnel s, v2s_io w s) =
      (v2s_tunnel s, io_batch_update (record_v2_rx (of_nat (length p))) (v2s_io w s))" if "v2_packet_size_ok p"
    using that assms(2) by (simp add: v2_on_udp_receive_eq v2_packet_size_ok_def v2_handle_data_forward_def Let_def)
  with assms(4) show ?thesis
    by (auto simp: v2_step.simps v2_receive_step_def v2_packet_size_ok_def)
qed

text \<open>
  C12: Strangers are ignored. In a state that satisfies the invariant a packet does nothing but be
  counted as received when its sender id is not allocated, which includes the packets from id 0 to
  another id, or belongs to a client at another address that has not timed out: the state afterwards
  is the one before, with the packet in the batch of its worker, which is published when it is full.
  No id is allocated, no client is touched, not even the one whose id the packet claims, nothing is
  sent, and a packet of a size the loop does not accept is not even counted.
\<close>

theorem v2_strangers_ignored:
  assumes "v2_ok R S avail s" and "v2_kind R p src = Data sid rid"
    and "sid = 0 \<or> sid \<notin> v2_allocated (v2s_tunnel s) \<or>
      (\<exists>c ep. fmlookup (v2_mappings (v2s_tunnel s)) sid = Some c \<and> remote_ep R c = Some ep \<and>
         ep \<noteq> src \<and> \<not> is_timed_out R c (instant E))"
    and "v2_step R L S encode (V2_Recv w E (Received p src)) s = Some s'"
  shows "v2s_tunnel s' = v2s_tunnel s \<and> v2s_sent s' = v2s_sent s \<and>
    s' = (if 4 \<le> length p \<and> length p \<le> V2_MAX_PACKET_SIZE then
        v2s_put w (v2s_tunnel s, io_maybe_flush (io_batch_update (record_v2_rx (of_nat (length p))) (v2s_io w s))) s
      else s)"
proof -
  have "0 \<notin> v2_allocated (v2s_tunnel s)"
    using assms(1) by (simp add: v2_allocated_iff v2_ok_def v2_tunnel_ok_def)
  with assms(3) have "v2_verdict R E (v2s_tunnel s) sid src = Refuse"
    by (auto simp: v2_verdict_def v2_verdict_of_def v2_table_def)
  from v2_recv_refused [OF assms(1,2) this assms(4)] show ?thesis by (simp add: v2_packet_size_ok_def)
qed

theorem v2_strangers_ignored_witness:
  "\<exists>s'. v2_step sample_core sample_rater sample_semaphore id
          (V2_Recv 0 (sample_env 101) (Received (v2_packet 0 8 [1]) v2_addr_c)) sample_v2 = Some s' \<and>
        v2s_sent s' = [] \<and> v2s_tunnel s' = v2s_tunnel sample_v2"
proof -
  obtain s' where s': "v2_step sample_core sample_rater sample_semaphore id
      (V2_Recv 0 (sample_env 101) (Received (v2_packet 0 8 [1]) v2_addr_c)) sample_v2 = Some s'"
    using v2_step_total by blast
  have kind: "v2_kind sample_core (v2_packet 0 8 [1]) v2_addr_c = Data 0 8" by simp
  from v2_strangers_ignored [OF sample_v2_ok kind _ s'] s' show ?thesis by simp
qed

section \<open>Runs\<close>

lemma v2_accept_frame:
  "v2_accept S (t, m) = (b, t', m') \<Longrightarrow>
     v2_config t' = v2_config t \<and> v2_mappings t' = v2_mappings t"
  by (auto simp: v2_accept_def split: option.splits)

lemma v2_step_config:
  assumes "v2_ok R S avail s" and "v2_step R L S encode e s = Some s'"
  shows "v2_config (v2s_tunnel s') = v2_config (v2s_tunnel s)"
proof (cases e)
  case (V2_Recv w E r)
  show ?thesis
  proof (cases r)
    case (Received p src)
    with v2_step_table(2) [OF assms(1)] assms(2) V2_Recv v2_same_idsD(3) show ?thesis by blast
  next
    case Receive_Error
    with assms(2) V2_Recv show ?thesis by (auto simp: v2_step.simps v2_receive_step_def)
  qed
next
  case (V2_Tick E)
  with v2_step_tick(2) assms(2) show ?thesis by blast
next
  case (V2_Accept k a)
  with assms(2) show ?thesis
    by (auto simp: v2_step.simps Let_def dest: v2_accept_frame split: if_splits prod.splits)
next
  case (V2_Http k E draw req)
  from assms(1) have "v2_tunnel_ok (v2s_tunnel s) (v2s_metrics s)" by (simp add: v2_ok_def)
  with assms(2) V2_Http show ?thesis
    by (auto simp: v2_step.simps Let_def dest: v2_handle_http_request_ok
        split: option.splits bool.splits prod.splits)
qed (use assms(2) in \<open>auto simp: v2_step.simps v2_connection_done_def split: if_splits\<close>)

lemma v2_run_config:
  assumes "v2_ok R S avail s" and "run_all (v2_step R L S encode) es s = Some s'"
  shows "v2_config (v2s_tunnel s') = v2_config (v2s_tunnel s)"
  by (rule v2.run_frame [where f = "\<lambda>s. v2_config (v2s_tunnel s)", OF v2_step_config assms])

lemma v2_start_simps [simp]:
  "v2s_tunnel (v2_start t m) = t" "v2s_sent (v2_start t m) = []"
  "v2_config (tunnel_v2_new L S c) = c"
  by (simp_all add: v2_start_def tunnel_v2_new_def)

text \<open>
  C9: Every run is safe. From a fresh tunnel, no sequence of packets, receive errors, heartbeats,
  accepted connections, HTTP requests with any draws of the random number generator, and finished
  connections makes the model fail; afterwards id 0 is not allocated, the number of allocated ids
  is within the client limit and is what the gauge shows, at most one hundred connections are
  open, and no worker has pending packet counts past the flush interval.
\<close>

theorem v2_runs_safe:
  assumes "endpoint_laws R" and "semaphore_laws S avail" and "v2_active_clients m = 0"
  shows "\<exists>s'. run_all (v2_step R L S encode) es (v2_start (tunnel_v2_new L S c) m) = Some s' \<and>
    0 \<notin> v2_allocated (v2s_tunnel s') \<and>
    dm_len (v2_mappings (v2s_tunnel s')) \<le> max_clients c \<and>
    v2_active_clients (v2s_metrics s') = dm_len (v2_mappings (v2s_tunnel s')) \<and>
    dm_len (v2s_conns s') \<le> 100 \<and>
    (\<forall>w. unat (v2_packets_rx (v2s_batches s' w)) < 64 \<and> unat (v2_packets_tx (v2s_batches s' w)) < 64)"
proof -
  let ?s = "v2_start (tunnel_v2_new L S c) m"
  have ok: "v2_ok R S avail ?s" using assms by (rule v2_start_ok)
  from v2.run_ok [OF ok] obtain s' where
    s': "run_all (v2_step R L S encode) es ?s = Some s'" "v2_ok R S avail s'" by blast
  have "v2_config (v2s_tunnel s') = c"
    using v2_run_config [OF ok s'(1)] by simp
  with s' show ?thesis
    by (auto simp: v2_ok_def v2_tunnel_ok_def v2_allocated_iff batch_ok_bounds MAX_HTTP_CONNECTIONS_def)
qed

theorem v2_runs_safe_witness:
  "\<exists>s'. run_all (v2_step sample_core sample_rater sample_semaphore id)
      [V2_Accept 0 v2_addr_a,
       V2_Http 0 (sample_env 1) (\<lambda>n. of_nat n) \<lparr>req_method = GET, path = ''/request'', query = Some ''clients=2''\<rparr>,
       V2_Close 0, V2_Recv 0 (sample_env 2) (Received (v2_packet 1 2 []) v2_addr_a), V2_Tick (sample_env 60)]
      (v2_start (tunnel_v2_new sample_rater sample_semaphore sample_config) metrics_new) = Some s' \<and>
    dm_len (v2_mappings (v2s_tunnel s')) \<le> 2"
proof -
  let ?es = "[V2_Accept 0 v2_addr_a,
       V2_Http 0 (sample_env 1) (\<lambda>n. of_nat n) \<lparr>req_method = GET, path = ''/request'', query = Some ''clients=2''\<rparr>,
       V2_Close 0, V2_Recv 0 (sample_env 2) (Received (v2_packet 1 2 []) v2_addr_a), V2_Tick (sample_env 60)]"
  have "v2_active_clients metrics_new = 0" by (simp add: metrics_new_def)
  from v2_runs_safe [OF sample_endpoint_laws sample_semaphore_laws this, of sample_rater id ?es sample_config]
  show ?thesis by auto
qed

text \<open>
  C10: No amplification and no forged content. Over any run from a state that satisfies the
  invariant, HTTP traffic included, the tunnel sends at most one datagram per event and no more
  payload bytes than it receives in packets; each datagram is the first twelve bytes of a fifty byte
  packet, returned to its source, or a received packet, unchanged, to another address.
\<close>

theorem v2_sends_only_relayed:
  assumes "v2_ok R S avail s" and "run_all (v2_step R L S encode) es s = Some s'"
  shows "\<exists>new. v2s_sent s' = v2s_sent s @ new \<and> length new \<le> length es \<and>
           payload_bytes new \<le> received_bytes v2_rx es \<and>
           (\<forall>d \<in> set new. \<exists>e \<in> set es. \<exists>p src. v2_rx e = Some (Received p src) \<and>
              (length p = 50 \<and> d = (src, take 12 p) \<or> snd d = p \<and> fst d \<noteq> src))"
proof -
  obtain new where new: "v2s_sent s' = v2s_sent s @ new" "length new \<le> length es"
    "payload_bytes new \<le> received_bytes v2_rx es"
    using v2.run_sent [OF assms] by blast
  have "\<exists>e \<in> set es. \<exists>p src. v2_rx e = Some (Received p src) \<and>
      (length p = 50 \<and> d = (src, take 12 p) \<or> snd d = p \<and> fst d \<noteq> src)" if "d \<in> set new" for d
    using v2.run_origin [OF assms, of d] new(1) that by (auto simp: ping_echo_def verbatim_def)
  with new show ?thesis by blast
qed

theorem v2_sends_only_relayed_witness:
  "\<exists>s' new. run_all (v2_step sample_core sample_rater sample_semaphore id)
       [V2_Recv 0 (sample_env 101) (Received (v2_packet 7 8 [1]) v2_addr_a)] sample_v2 = Some s' \<and>
     v2s_sent s' = new \<and> length new \<le> 1 \<and> payload_bytes new \<le> 5"
proof -
  let ?es = "[V2_Recv 0 (sample_env 101) (Received (v2_packet 7 8 [1]) v2_addr_a)]"
  obtain s' where s': "run_all (v2_step sample_core sample_rater sample_semaphore id) ?es sample_v2 = Some s'"
    using v2.run_ok [OF sample_v2_ok, of sample_rater id ?es] by blast
  from v2_sends_only_relayed [OF sample_v2_ok s'] s' show ?thesis
    by (auto simp: received_bytes_def v2_packet_def)
qed

section \<open>A session\<close>

text \<open>The step of a data packet, for clients whose verdict is known.\<close>

lemma v2_data_step:
  assumes "v2_ok R S avail s" and "v2_packet_size_ok p" and "v2_kind R p src = Data sid rid"
    and "\<not> v2_maintenance_mode (v2s_tunnel s)"
    and "v2_table R (v2s_tunnel s) = T" and "sid \<in> v2_allocated (v2s_tunnel s)"
    and "T sid = None \<or> T sid = Some src"
    and "v2_step R L S encode (V2_Recv w E (Received p src)) s = Some s'"
  shows "v2_table R (v2s_tunnel s') = T(sid \<mapsto> src)" "v2_ok R S avail s'"
    "v2_allocated (v2s_tunnel s') = v2_allocated (v2s_tunnel s)"
    "\<not> v2_maintenance_mode (v2s_tunnel s')"
    "v2s_sent s' = v2s_sent s @ forwards Known (T(sid \<mapsto> src)) rid src p"
proof -
  have v: "v2_verdict R E (v2s_tunnel s) sid src = (if T sid = None then Register else Known)"
    using assms(5-7) by (auto simp: v2_verdict_def v2_verdict_of_def)
  have upd: "T sid = Some src \<Longrightarrow> T(sid \<mapsto> src) = T" by auto
  have fwd: "forwards Register T' rid src p = forwards Known T' rid src p" for T'
    by (simp add: forwards_def split: option.splits)
  show "v2_table R (v2s_tunnel s') = T(sid \<mapsto> src)" "v2_allocated (v2s_tunnel s') = v2_allocated (v2s_tunnel s)"
    "\<not> v2_maintenance_mode (v2s_tunnel s')"
    "v2s_sent s' = v2s_sent s @ forwards Known (T(sid \<mapsto> src)) rid src p"
    using v2_step_sent [OF assms(1,8)] v2_step_table [OF assms(1,8)] assms(2-7) upd
    by (auto simp: v2_replies_def v2_table_next_def v2_same_idsD table_after_def v fwd Let_def)
  show "v2_ok R S avail s'" by (rule v2_recv_ok [OF assms(1,8)])
qed

text \<open>
  C13: A session comes up. Two clients that were handed two ids, at two valid addresses, reach each
  other after one packet each: the first packet of one binds its id, the first packet of the other
  is delivered to it, and from then on its own packets are delivered to the other.
\<close>

theorem v2_session_established:
  assumes "v2_ok R S avail s" and "\<not> v2_maintenance_mode (v2s_tunnel s)"
    and "a \<in> v2_allocated (v2s_tunnel s)" and "b \<in> v2_allocated (v2s_tunnel s)" and "a \<noteq> b"
    and "v2_table R (v2s_tunnel s) a = None" and "v2_table R (v2s_tunnel s) b = None"
    and "validate_address R A" and "validate_address R B" and "A \<noteq> B"
    and "length x \<le> 1468" and "length y \<le> 1468" and "length z \<le> 1468"
    and "run_all (v2_step R L S encode)
       [V2_Recv w1 E1 (Received (v2_packet a b x) A), V2_Recv w2 E2 (Received (v2_packet b a y) B),
        V2_Recv w3 E3 (Received (v2_packet a b z) A)] s = Some s'"
  shows "v2s_sent s' = v2s_sent s @ [(A, v2_packet b a y), (B, v2_packet a b z)]"
proof -
  let ?T = "v2_table R (v2s_tunnel s)"
  obtain s1 s2 where steps:
    "v2_step R L S encode (V2_Recv w1 E1 (Received (v2_packet a b x) A)) s = Some s1"
    "v2_step R L S encode (V2_Recv w2 E2 (Received (v2_packet b a y) B)) s1 = Some s2"
    "v2_step R L S encode (V2_Recv w3 E3 (Received (v2_packet a b z) A)) s2 = Some s'"
    using assms(14) by (auto simp: bind_eq_Some_conv)
  have nz: "a \<noteq> 0" "b \<noteq> 0"
    using assms(1,3,4) by (auto simp: v2_ok_def v2_tunnel_ok_def v2_allocated_iff)
  have kinds: "v2_kind R (v2_packet a b x) A = Data a b" "v2_kind R (v2_packet b a y) B = Data b a"
    "v2_kind R (v2_packet a b z) A = Data a b"
    using nz assms(5,8,9) by auto
  have sizes: "v2_packet_size_ok (v2_packet a b x)" "v2_packet_size_ok (v2_packet b a y)"
    "v2_packet_size_ok (v2_packet a b z)"
    using assms(11-13) by simp_all
  have t1: "?T a = None \<or> ?T a = Some A" using assms(6) by simp
  note one = v2_data_step [OF assms(1) sizes(1) kinds(1) assms(2) refl assms(3) t1 steps(1)]
  from one(3) assms(4) have b1: "b \<in> v2_allocated (v2s_tunnel s1)" by simp
  have t2: "(?T(a \<mapsto> A)) b = None \<or> (?T(a \<mapsto> A)) b = Some B" using assms(5,7) by simp
  note two = v2_data_step [OF one(2) sizes(2) kinds(2) one(4,1) b1 t2 steps(2)]
  from one(3) two(3) assms(3) have a2: "a \<in> v2_allocated (v2s_tunnel s2)" by simp
  have t3: "(?T(a \<mapsto> A, b \<mapsto> B)) a = None \<or> (?T(a \<mapsto> A, b \<mapsto> B)) a = Some A"
    using assms(5) by simp
  note three = v2_data_step [OF two(2) sizes(3) kinds(3) two(4,1) a2 t3 steps(3)]
  show ?thesis
    using one(5) two(5) three(5) assms(5,7,10) by (auto simp: forwards_def)
qed

definition reserved_v2 :: "(sample_client, sample_manager, nat) v2_system" where
  "reserved_v2 = v2_start
     (sample_v2_tunnel\<lparr>v2_mappings := reserve sample_core 100 [7, 8] fmempty\<rparr>)
     (metrics_new\<lparr>v2_active_clients := 2\<rparr>)"

lemma reserved_v2_ok [simp]: "v2_ok sample_core sample_semaphore id reserved_v2"
  by (simp add: v2_ok_def reserved_v2_def v2_start_def v2_tunnel_ok_def dm.len_insert)
     (simp add: sample_v2_tunnel_def tunnel_v2_new_def sample_semaphore_def MAX_HTTP_CONNECTIONS_def)

lemma reserved_v2_simps [simp]:
  "v2s_sent reserved_v2 = []" "v2_maintenance_mode (v2s_tunnel reserved_v2) = False"
  "v2_allocated (v2s_tunnel reserved_v2) = {7, 8}"
  "v2_table sample_core (v2s_tunnel reserved_v2) 7 = None"
  "v2_table sample_core (v2s_tunnel reserved_v2) 8 = None"
  by (auto simp: reserved_v2_def v2_start_def v2_allocated_def v2_table_def endpoint_lawsD)

theorem v2_session_established_witness:
  "\<exists>s'. run_all (v2_step sample_core sample_rater sample_semaphore id)
       [V2_Recv 0 (sample_env 101) (Received (v2_packet 7 8 [1]) v2_addr_a),
        V2_Recv 1 (sample_env 102) (Received (v2_packet 8 7 [2]) v2_addr_c),
        V2_Recv 0 (sample_env 103) (Received (v2_packet 7 8 [3]) v2_addr_a)] reserved_v2 = Some s' \<and>
     v2s_sent s' = [(v2_addr_a, v2_packet 8 7 [2]), (v2_addr_c, v2_packet 7 8 [3])]"
proof -
  let ?es = "[V2_Recv 0 (sample_env 101) (Received (v2_packet 7 8 [1]) v2_addr_a),
        V2_Recv 1 (sample_env 102) (Received (v2_packet 8 7 [2]) v2_addr_c),
        V2_Recv 0 (sample_env 103) (Received (v2_packet 7 8 [3]) v2_addr_a)]"
  obtain s' where s': "run_all (v2_step sample_core sample_rater sample_semaphore id) ?es reserved_v2 = Some s'"
    using v2.run_ok [OF reserved_v2_ok, of sample_rater id ?es] by blast
  have "v2_addr_a \<noteq> v2_addr_c" by (simp add: v2_addr_a_def v2_addr_c_def)
  from v2_session_established [OF reserved_v2_ok _ _ _ _ _ _ _ _ this _ _ _ s'] s'
  show ?thesis by simp
qed

section \<open>Maintenance\<close>

text \<open>
  Maintenance. In maintenance mode the tunnel relays nothing, not even between clients that are
  already connected: a packet leaves the endpoint table and the ids as they are, and all it can
  make the tunnel send is the echo of a ping. A request for ids is answered 503 and changes nothing.
\<close>

theorem v2_maintenance_blackout:
  assumes "v2_ok R S avail s" and "v2_maintenance_mode (v2s_tunnel s)"
    and "v2_step R L S encode (V2_Recv w E (Received p src)) s = Some s'"
  shows "v2_table R (v2s_tunnel s') = v2_table R (v2s_tunnel s) \<and>
    v2_allocated (v2s_tunnel s') = v2_allocated (v2s_tunnel s) \<and>
    (v2s_sent s' = v2s_sent s \<or> v2s_sent s' = v2s_sent s @ [(src, take 12 p)]) \<and>
    v2_handle_request R E draw q (v2s_tunnel s', v2s_metrics s') =
      (respond 503 ''Server in maintenance mode'', v2s_tunnel s', v2s_metrics s')"
proof -
  have "v2_table_next R E p src (v2s_tunnel s) = v2_table R (v2s_tunnel s)"
    using assms(2) by (simp add: v2_table_next_def split: packet_kind.splits)
  with v2_step_table [OF assms(1,3)] v2.closed_only_pings [OF assms(1,2,3)] assms(2)
  show ?thesis by (simp add: v2_same_idsD v2_handle_request_def)
qed

theorem v2_maintenance_blackout_witness:
  "\<exists>s'. v2_step sample_core sample_rater sample_semaphore id
          (V2_Recv 0 (sample_env 101) (Received (v2_packet 7 8 [1]) v2_addr_a))
          (sample_v2\<lparr>v2s_tunnel := (v2s_tunnel sample_v2)\<lparr>v2_maintenance_mode := True\<rparr>\<rparr>) = Some s' \<and>
        v2_allocated (v2s_tunnel s') = {7, 8}"
proof -
  let ?s = "sample_v2\<lparr>v2s_tunnel := (v2s_tunnel sample_v2)\<lparr>v2_maintenance_mode := True\<rparr>\<rparr>"
  have ok: "v2_ok sample_core sample_semaphore id ?s"
    using sample_v2_ok by (simp add: v2_ok_def v2_tunnel_ok_def)
  obtain s' where s': "v2_step sample_core sample_rater sample_semaphore id
      (V2_Recv 0 (sample_env 101) (Received (v2_packet 7 8 [1]) v2_addr_a)) ?s = Some s'"
    using v2_step_total by blast
  have "v2_maintenance_mode (v2s_tunnel ?s)" by simp
  from v2_maintenance_blackout [OF ok this s'] s' show ?thesis by (auto simp: v2_allocated_def)
qed

section \<open>Accounting and cleanup\<close>

lemma v2_record_sends_counts:
  assumes "new = [] \<or> (\<exists>d. new = [d])" and "unat (v2_packets_tx b) < 64"
  shows "v2_counts (record_sends record_v2_tx E new b, m) = count_sends E new (v2_counts (b, m))"
  using assms by (auto simp: count_sends_def record_counts)

text \<open>
  Accounting. For each packet of acceptable size, what the metrics show plus what the worker
  still has pending grows by exactly one received packet with its bytes and, for each datagram that
  was sent successfully, one sent packet with its bytes, whether or not the worker flushes.
\<close>

theorem v2_accounting:
  assumes "v2_ok R S avail s" and "v2_packet_size_ok p"
    and "v2_step R L S encode (V2_Recv w E (Received p src)) s = Some s'"
  shows "\<exists>new. v2s_sent s' = v2s_sent s @ new \<and>
    v2_counts (v2s_batches s' w, v2s_metrics s') =
      count_sends E new (count_rx (length p) (v2_counts (v2s_batches s w, v2s_metrics s)))"
proof -
  let ?new = "v2_replies R L E p src (v2s_tunnel s)"
  let ?rx = "record_v2_rx (of_nat (length p)) (v2s_batches s w)"
  obtain t' io' where st: "v2_step R L S encode (V2_Recv w E (Received p src)) s =
      Some (v2s_put w (t', io_maybe_flush io') s)"
    and eff: "handler_effect record_v2_tx E (v2s_io w s) ?rx ?new io'"
    by (rule v2_recv_packet [OF assms(1,2)])
  from assms(1) have b: "unat (v2_packets_rx (v2s_batches s w)) < 64"
    "unat (v2_packets_tx (v2s_batches s w)) < 64"
    by (simp_all add: v2_ok_def batch_ok_bounds)
  have "v2_counts (v2s_batches s' w, v2s_metrics s') = io_counts_v2 io'"
    using assms(3) st io_flush_frame(6) [of io', unfolded io_counts_v2_def]
    by (auto simp: io_counts_v2_def)
  also have "\<dots> = count_sends E ?new (v2_counts (?rx, io_metrics io'))"
    using eff b v2_record_sends_counts [OF v2_replies_at_most_one, of ?rx]
    by (simp add: io_counts_v2_def handler_effect_def)
  also have "v2_counts (?rx, io_metrics io') =
      count_rx (length p) (v2_counts (v2s_batches s w, v2s_metrics s))"
    using eff b counts_published(2) [of "io_metrics io'" "v2s_metrics s"]
    by (simp add: handler_effect_def record_counts)
  finally show ?thesis
    using v2_step_sent [OF assms(1,3)] assms(2) by auto
qed

theorem v2_accounting_witness:
  "\<exists>s'. v2_step sample_core sample_rater sample_semaphore id
          (V2_Recv 0 (sample_env 101) (Received (v2_packet 7 8 [1]) v2_addr_a)) sample_v2 = Some s' \<and>
        fst (v2_counts (v2s_batches s' 0, v2s_metrics s')) = 1"
proof -
  obtain s' where s': "v2_step sample_core sample_rater sample_semaphore id
      (V2_Recv 0 (sample_env 101) (Received (v2_packet 7 8 [1]) v2_addr_a)) sample_v2 = Some s'"
    using v2_step_total by blast
  have tx: "fst (count_sends E new n) = fst n" for E :: "nat env" and new n
    unfolding count_sends_def
    by (induction new arbitrary: n) (auto split: prod.splits)
  have "v2_counts (v2s_batches sample_v2 0, v2s_metrics sample_v2) = (0, 0, 0, 0)"
    by (simp add: sample_v2_def v2_start_def v2_counts_def batch_new_def metrics_new_def)
  moreover have "v2_packet_size_ok (v2_packet 7 8 [1])" by simp
  ultimately show ?thesis
    using v2_accounting [OF sample_v2_ok _ s'] s' by (auto simp: tx)
qed

text \<open>
  Every heartbeat cleans up. One tick keeps exactly the clients that have not timed out, bound
  or not, sets the gauge to their number, leaves connections and sockets alone, and starts a new
  count of dropped connections.
\<close>

theorem v2_heartbeat_cleans:
  assumes "v2_step R L S encode (V2_Tick E) s = Some s'"
  shows "(fmlookup (v2_mappings (v2s_tunnel s')) k = Some c) =
      (fmlookup (v2_mappings (v2s_tunnel s)) k = Some c \<and> \<not> is_timed_out R c (instant E)) \<and>
    v2_active_clients (v2s_metrics s') = card (v2_allocated (v2s_tunnel s')) \<and>
    v2s_conns s' = v2s_conns s \<and> v2s_sent s' = v2s_sent s \<and>
    v2_dropped_connections (v2s_tunnel s') = 0"
  using v2_step_tick [OF assms]
  by (auto simp: dm_len_def v2_allocated_def fcard.rep_eq split: option.splits if_splits)

theorem v2_heartbeat_cleans_witness:
  "\<exists>s'. v2_step sample_core sample_rater sample_semaphore id (V2_Tick (sample_env 200)) sample_v2 = Some s' \<and>
     fmlookup (v2_mappings (v2s_tunnel s')) 7 = None"
proof -
  obtain s' where s': "v2_step sample_core sample_rater sample_semaphore id
      (V2_Tick (sample_env 200)) sample_v2 = Some s'"
    using v2_step_total by blast
  have late: "is_timed_out sample_core (v2_client_at v2_addr_a) (instant (sample_env 200))"
    by (simp add: sample_core_def v2_client_at_def saturating_sub_def V2_TIMEOUT_SECONDS_def sample_env_def)
  have "fmlookup (v2_mappings (v2s_tunnel s')) 7 \<noteq> Some c" for c
    using v2_heartbeat_cleans [OF s', of 7 c] late by auto
  with s' show ?thesis by (cases "fmlookup (v2_mappings (v2s_tunnel s')) 7") auto
qed

section \<open>Overload\<close>

text \<open>
  Overload. A new connection is served when fewer than one hundred are open, and is then one
  more open connection; otherwise it is dropped, counted once for the status page and once for the
  metrics, and nothing else changes.
\<close>

lemma v2_connection_overload:
  assumes "v2_ok R S avail s" and "fmlookup (v2s_conns s) k = None" and "v2s_listening s"
    and "v2_step R L S encode (V2_Accept k a) s = Some s'"
  shows "v2s_conns s' = (if dm_len (v2s_conns s) < 100 then fmupd k (a, False) (v2s_conns s) else v2s_conns s) \<and>
    v2_dropped_connections (v2s_tunnel s') =
      v2_dropped_connections (v2s_tunnel s) + (if dm_len (v2s_conns s) < 100 then 0 else 1) \<and>
    dropped_connections (v2s_metrics s') =
      dropped_connections (v2s_metrics s) + (if dm_len (v2s_conns s) < 100 then 0 else 1) \<and>
    v2_mappings (v2s_tunnel s') = v2_mappings (v2s_tunnel s) \<and> v2s_sent s' = v2s_sent s"
proof -
  let ?sem = "v2_http_semaphore (v2s_tunnel s)"
  from assms(1) have law: "try_acquire_owned S ?sem = None \<longleftrightarrow> avail ?sem = 0"
    and sum: "avail ?sem + dm_len (v2s_conns s) = 100"
    by (simp_all add: v2_ok_def semaphore_laws_def MAX_HTTP_CONNECTIONS_def)
  have fresh: "\<not> dm_contains (v2s_conns s) k" "v2s_listening s"
    using assms(2,3) by (simp_all add: dm_contains_def)
  show ?thesis
  proof (cases "try_acquire_owned S ?sem")
    case None
    with law sum have full: "\<not> dm_len (v2s_conns s) < 100" by linarith
    from assms(4) fresh None have "s' = s\<lparr>v2s_tunnel := (v2s_tunnel s)
          \<lparr>v2_dropped_connections := v2_dropped_connections (v2s_tunnel s) + 1\<rparr>,
        v2s_metrics := dropped_connections_update (\<lambda>n. n + 1) (v2s_metrics s)\<rparr>"
      by (simp add: v2_step.simps v2_accept_def)
    with full show ?thesis by simp
  next
    case (Some sem)
    with law sum have room: "dm_len (v2s_conns s) < 100" by (cases "avail ?sem") auto
    from assms(4) fresh Some have "s' = s\<lparr>v2s_tunnel := (v2s_tunnel s)\<lparr>v2_http_semaphore := sem\<rparr>,
        v2s_conns := fmupd k (a, False) (v2s_conns s)\<rparr>"
      by (simp add: v2_step.simps v2_accept_def)
    with room show ?thesis by simp
  qed
qed

section \<open>A failed accept\<close>

text \<open>The HTTP side is gone: nothing is accepted any more and nobody is connected.\<close>

definition v2_deaf :: "('c, 'm, 's) v2_system \<Rightarrow> bool" where
  "v2_deaf s \<longleftrightarrow> \<not> v2s_listening s \<and> v2s_conns s = fmempty"

lemma v2_deaf_step:
  assumes "v2_ok R S avail s" and "v2_deaf s" and "v2_step R L S encode e s = Some s'"
  shows "v2_deaf s' \<and> v2s_responses s' = v2s_responses s \<and>
    v2_allocated (v2s_tunnel s') \<subseteq> v2_allocated (v2s_tunnel s)"
proof (cases e)
  case (V2_Recv w E r)
  show ?thesis
  proof (cases r)
    case (Received p src)
    with v2_step_table(2) [OF assms(1)] assms(3) V2_Recv
    have "v2_allocated (v2s_tunnel s') = v2_allocated (v2s_tunnel s)"
      using v2_same_idsD(1) by blast
    with assms(2,3) V2_Recv show ?thesis
      by (auto simp: v2_step.simps v2_deaf_def v2s_put_def)
  next
    case Receive_Error
    with assms(2,3) V2_Recv show ?thesis
      by (auto simp: v2_step.simps v2_receive_step_def v2_deaf_def v2s_put_def)
  qed
next
  case (V2_Tick E)
  from v2_step_tick(1) [OF assms(3) [unfolded V2_Tick]]
  have "v2_allocated (v2s_tunnel s') \<subseteq> v2_allocated (v2s_tunnel s)"
    by (auto simp: v2_allocated_iff split: option.splits)
  with assms(2,3) V2_Tick show ?thesis
    by (auto simp: v2_step.simps v2_deaf_def v2_heartbeat_tick_def Let_def split: prod.splits)
qed (use assms(2,3) in \<open>auto simp: v2_step.simps v2_deaf_def dm_contains_def\<close>)

lemma v2_deaf_run:
  assumes "v2_ok R S avail s" and "v2_deaf s" and "run_all (v2_step R L S encode) es s = Some s'"
  shows "v2_deaf s' \<and> v2s_responses s' = v2s_responses s \<and>
    v2_allocated (v2s_tunnel s') \<subseteq> v2_allocated (v2s_tunnel s)"
proof -
  let ?I = "\<lambda>q. v2_ok R S avail q \<and> v2_deaf q \<and> v2s_responses q = v2s_responses s \<and>
    v2_allocated (v2s_tunnel q) \<subseteq> v2_allocated (v2s_tunnel s)"
  have "?I s'"
  proof (rule run_all_invariant [where I = ?I, OF assms(3)])
    show "?I s" using assms(1,2) by simp
  next
    fix e q q' assume "?I q" "v2_step R L S encode e q = Some q'"
    then show "?I q'" using v2_deaf_step [of R S avail q L encode e q'] v2_step_ok [of R S avail q L encode e]
      by auto
  qed
  then show ?thesis by blast
qed

text \<open>
  One failed accept ends the allocation of ids. When \<open>accept\<close> returns an error while no
  connection is open, then, whatever happens afterwards and for as long as the process runs, no
  HTTP request is answered any more and no id is allocated that was not allocated before, so no
  new player can join, although the packet side goes on.
\<close>

theorem v2_accept_error_is_final:
  assumes "v2_ok R S avail s" and "v2s_conns s = fmempty"
    and "run_all (v2_step R L S encode) (V2_Accept_Error # es) s = Some s'"
  shows "v2s_responses s' = v2s_responses s \<and> v2s_conns s' = fmempty \<and>
    v2_allocated (v2s_tunnel s') \<subseteq> v2_allocated (v2s_tunnel s)"
proof -
  let ?s = "s\<lparr>v2s_listening := False\<rparr>"
  have run: "run_all (v2_step R L S encode) es ?s = Some s'"
    using assms(3) by (simp add: v2_step.simps)
  have "v2_ok R S avail ?s" "v2_deaf ?s"
    using assms(1,2) by (simp_all add: v2_ok_def v2_deaf_def)
  from v2_deaf_run [OF this run] show ?thesis by (simp add: v2_deaf_def)
qed

theorem v2_accept_error_is_final_witness:
  "\<exists>s'. run_all (v2_step sample_core sample_rater sample_semaphore id)
     [V2_Accept_Error, V2_Accept 0 v2_addr_a,
      V2_Http 0 (sample_env 1) (\<lambda>n. of_nat (n + 1))
        \<lparr>req_method = GET, path = ''/request'', query = Some ''clients=2''\<rparr>] sample_v2 = Some s' \<and>
     v2s_responses s' = [] \<and> v2_allocated (v2s_tunnel s') \<subseteq> v2_allocated (v2s_tunnel sample_v2)"
proof -
  let ?es = "[V2_Accept 0 v2_addr_a,
      V2_Http 0 (sample_env 1) (\<lambda>n. of_nat (n + 1))
        \<lparr>req_method = GET, path = ''/request'', query = Some ''clients=2''\<rparr>]"
  obtain s' where s': "run_all (v2_step sample_core sample_rater sample_semaphore id)
      (V2_Accept_Error # ?es) sample_v2 = Some s'"
    using v2.run_ok [OF sample_v2_ok] by blast
  have "v2s_conns sample_v2 = fmempty" "v2s_responses sample_v2 = []"
    by (simp_all add: sample_v2_def v2_start_def)
  with v2_accept_error_is_final [OF sample_v2_ok _ s'] s' show ?thesis by auto
qed

end
