(* ===== verification/Peer_To_Peer.thy ===== *)
theory Peer_To_Peer
  imports Udp_Service Rate_Limiter
begin

text \<open>
  \<open>src/peer_to_peer.rs\<close>: the STUN-like service that tells a client its public address. A worker
  owns a reply buffer of 40 bytes, filled at random once, whose bytes 6 and 7 hold the STUN id;
  every accepted request writes the client's address and port, each byte xor 0x20, into bytes 0
  to 5 and sends the buffer back. Binding the socket and spawning the tasks is not modelled: the
  service is a set of workers and a timer that share the rate limiter.
\<close>

section \<open>The handler\<close>

definition MAX_REQUESTS_PER_IP :: u32 where
  "MAX_REQUESTS_PER_IP = 20"

definition STUN_ID :: i16 where
  "STUN_ID = 26262"

record 'm peer_to_peer =
  p2p_port :: u16
  p2p_limiter :: "'m rate_limiter"

definition peer_to_peer_new :: "('m, 'g, 'i) rater \<Rightarrow> u16 \<Rightarrow> 'm peer_to_peer" where
  "peer_to_peer_new L port =
     \<lparr>p2p_port = port, p2p_limiter = rate_limiter_new L 60 MAX_REQUESTS_PER_IP\<rparr>"

text \<open>The buffer of a worker before its loop, from the random filling.\<close>

definition init_send_buffer :: "u8 list \<Rightarrow> u8 list" where
  "init_send_buffer random =
     random[6 := ucast (signed_drop_bit 8 STUN_ID AND 0xFF), 7 := ucast (STUN_ID AND 0xFF)]"

definition xor_prefix :: "u8 list \<Rightarrow> u8 list" where
  "xor_prefix buf = fold (\<lambda>i b. b[i := b ! i XOR 0x20]) [0..<6] buf"

definition fill_reply :: "socket_addr \<Rightarrow> u8 list \<Rightarrow> u8 list" where
  "fill_reply remote buf =
     (let buf = (case sock_ip remote of
            V4 a b c d \<Rightarrow> buf[0 := a, 1 := b, 2 := c, 3 := d]
          | V6 w \<Rightarrow> buf[0 := 0, 1 := 0, 2 := 0, 3 := 0]);
          port = u16_to_be_bytes (sock_port remote);
          buf = buf[4 := fst port, 5 := snd port]
      in xor_prefix buf)"

type_synonym 'm p2p_state = "u8 list \<times> 'm peer_to_peer \<times> io"

definition p2p_on_receive ::
    "('c, 'q, 'i) relay_core \<Rightarrow> ('m, 'g, 'i) rater \<Rightarrow> 'i env \<Rightarrow> u8 list \<Rightarrow> socket_addr
       \<Rightarrow> 'm p2p_state \<Rightarrow> 'm p2p_state option" where
  "p2p_on_receive R L E packet remote s =
     (let (buf, p, io) = s in
      if \<not> validate_address R remote then Some (buf, p, io)
      else let (ok, l) = check_and_increment L (p2p_limiter p) (sock_ip remote) (instant E);
               p = p\<lparr>p2p_limiter := l\<rparr>
      in if \<not> ok
         then Some (buf, p, io_metrics_update (rate_limit_hits_update (\<lambda>n. n + 1)) io)
         else let io = io_metrics_update (p2p_requests_update (\<lambda>n. n + 1)) io in
           do {
             b0 \<leftarrow> index packet 0;
             b1 \<leftarrow> index packet 1;
             (if u16_from_be_bytes b0 b1 \<noteq> STUN_ID then Some (buf, p, io)
              else let buf = fill_reply remote buf;
                       io = io_send remote buf io
                   in Some (buf, p,
                        if send_succeeds E remote buf
                        then io_metrics_update (p2p_responses_update (\<lambda>n. n + 1)) io else io))
           })"

text \<open>One turn of the receive loop: only packets of exactly 48 bytes are handled.\<close>

definition p2p_receive_step ::
    "('c, 'q, 'i) relay_core \<Rightarrow> ('m, 'g, 'i) rater \<Rightarrow> 'i env \<Rightarrow> recv_result
       \<Rightarrow> 'm p2p_state \<Rightarrow> 'm p2p_state option" where
  "p2p_receive_step R L E r s =
     (case r of
        Received packet remote \<Rightarrow>
          if length packet = 48 then p2p_on_receive R L E packet remote s else Some s
      | Receive_Error \<Rightarrow> Some s)"

section \<open>The reply\<close>

lemma upt_0_6: "[0..<6] = [0, 1, 2, 3, 4, 5 :: nat]"
  by (simp add: upt_rec)

lemma xor_prefix_eq:
  "length buf = 40 \<Longrightarrow>
   xor_prefix buf = map (\<lambda>b. b XOR 0x20) (take 6 buf) @ drop 6 buf"
  by (rule nth_equalityI)
     (auto simp: xor_prefix_def upt_0_6 nth_append nth_list_update less_Suc_eq numeral_eq_Suc)

lemma length_fill_reply [simp]: "length (fill_reply remote buf) = length buf"
  by (cases remote) (simp_all add: fill_reply_def xor_prefix_def upt_0_6 Let_def)


text \<open>What a reply holds, independently of what the buffer held before.\<close>

primrec ip_bytes :: "ip_addr \<Rightarrow> u8 list" where
  "ip_bytes (V4 a b c d) = [a, b, c, d]"
| "ip_bytes (V6 w) = [0, 0, 0, 0]"

definition address_bytes :: "socket_addr \<Rightarrow> u8 list" where
  "address_bytes a =
     ip_bytes (sock_ip a) @ [fst (u16_to_be_bytes (sock_port a)), snd (u16_to_be_bytes (sock_port a))]"

lemma length_address_bytes [simp]: "length (address_bytes a) = 6"
  by (cases a) (simp_all add: address_bytes_def)

lemma fill_reply_eq:
  assumes "length buf = 40"
  shows "fill_reply a buf = map (\<lambda>b. b XOR 0x20) (address_bytes a) @ drop 6 buf"
proof -
  obtain b0 b1 b2 b3 b4 b5 rest where buf: "buf = b0 # b1 # b2 # b3 # b4 # b5 # rest"
    using assms by (auto simp: numeral_eq_Suc length_Suc_conv)
  show ?thesis
    by (cases a)
       (simp_all add: buf fill_reply_def address_bytes_def xor_prefix_def upt_0_6 Let_def)
qed

text \<open>The client's side: undo the xor and read the address off the reply.\<close>

definition decode_reply :: "u8 list \<Rightarrow> socket_addr" where
  "decode_reply q =
     (let b = (\<lambda>i. q ! i XOR 0x20)
      in SocketV4 (b 0) (b 1) (b 2) (b 3) (u16_from_be_bytes (b 4) (b 5)))"

lemma decode_fill_reply:
  assumes "length buf = 40"
  shows "decode_reply (fill_reply (SocketV4 a b c d p) buf) = SocketV4 a b c d p"
  using u16_be_round_trip [of p]
  by (simp add: fill_reply_eq assms decode_reply_def address_bytes_def Let_def
      xor.assoc)

section \<open>The service\<close>

text \<open>
  The tasks of \<open>start\<close>: the workers, each with its buffer, and the timer that resets the limiter
  every minute.
\<close>

definition p2p_num_workers :: "nat \<Rightarrow> nat" where
  "p2p_num_workers cpus = max (min cpus 2) 1"

record 'm p2p_system =
  p2p_shared :: "'m peer_to_peer"
  p2p_buffers :: "nat \<Rightarrow> u8 list"
  p2p_io :: io

datatype 'i p2p_event = P2P_Recv nat "'i env" recv_result | P2P_Reset

fun p2p_step ::
    "('c, 'q, 'i) relay_core \<Rightarrow> ('m, 'g, 'i) rater \<Rightarrow> 'i p2p_event \<Rightarrow> 'm p2p_system
       \<Rightarrow> 'm p2p_system option" where
  "p2p_step R L (P2P_Recv w E r) s =
     map_option
       (\<lambda>(buf, p, io). s\<lparr>p2p_buffers := (p2p_buffers s)(w := buf), p2p_shared := p, p2p_io := io\<rparr>)
       (p2p_receive_step R L E r (p2p_buffers s w, p2p_shared s, p2p_io s))"
| "p2p_step R L P2P_Reset s =
     Some (s\<lparr>p2p_shared := (p2p_shared s)\<lparr>p2p_limiter := reset L (p2p_limiter (p2p_shared s))\<rparr>\<rparr>)"

fun p2p_rx :: "'i p2p_event \<Rightarrow> recv_result option" where
  "p2p_rx (P2P_Recv w E r) = Some r"
| "p2p_rx P2P_Reset = None"

abbreviation p2p_sent :: "'m p2p_system \<Rightarrow> datagram list" where
  "p2p_sent s \<equiv> io_sent (p2p_io s)"

text \<open>Every worker's buffer has its size and carries the STUN id.\<close>

definition buffer_ok :: "u8 list \<Rightarrow> bool" where
  "buffer_ok buf \<longleftrightarrow> length buf = 40 \<and> buf ! 6 = 0x66 \<and> buf ! 7 = 0x96"

definition p2p_ok :: "'m p2p_system \<Rightarrow> bool" where
  "p2p_ok s \<longleftrightarrow> (\<forall>w. buffer_ok (p2p_buffers s w))"

lemma init_send_buffer_ok: "length random = 40 \<Longrightarrow> buffer_ok (init_send_buffer random)"
  by (simp add: buffer_ok_def init_send_buffer_def STUN_ID_def)

lemma buffer_ok_fill_reply: "buffer_ok buf \<Longrightarrow> buffer_ok (fill_reply a buf)"
  by (simp add: buffer_ok_def fill_reply_eq nth_append)

text \<open>
  A packet is answered when its source is a valid address, the limiter has a token for it and it
  carries the STUN id; then the buffer is filled and sent, otherwise nothing happens to either.
\<close>

definition p2p_accepts ::
    "('c, 'q, 'i) relay_core \<Rightarrow> ('m, 'g, 'i) rater \<Rightarrow> 'i env \<Rightarrow> u8 list \<Rightarrow> socket_addr
       \<Rightarrow> 'm peer_to_peer \<Rightarrow> bool" where
  "p2p_accepts R L E packet a p \<longleftrightarrow>
     length packet = 48 \<and> validate_address R a \<and>
     fst (check_and_increment L (p2p_limiter p) (sock_ip a) (instant E)) \<and>
     u16_from_be_bytes (packet ! 0) (packet ! 1) = STUN_ID"

lemma p2p_receive_step_eq:
  obtains p' io' where
    "p2p_receive_step R L E (Received packet a) (buf, p, io) =
       Some (if p2p_accepts R L E packet a p then fill_reply a buf else buf, p', io')"
    "io_sent io' =
       io_sent io @ (if p2p_accepts R L E packet a p then [(a, fill_reply a buf)] else [])"
    "v3_active_clients (io_metrics io') = v3_active_clients (io_metrics io)"
    "v2_active_clients (io_metrics io') = v2_active_clients (io_metrics io)"
proof -
  obtain ok l where chk:
    "check_and_increment L (p2p_limiter p) (sock_ip a) (instant E) = (ok, l)" by fastforce
  consider "length packet \<noteq> 48" | "length packet = 48" "\<not> validate_address R a"
    | "length packet = 48" "validate_address R a" "\<not> ok"
    | "length packet = 48" "validate_address R a" "ok"
        "u16_from_be_bytes (packet ! 0) (packet ! 1) \<noteq> STUN_ID"
    | "length packet = 48" "validate_address R a" "ok"
        "u16_from_be_bytes (packet ! 0) (packet ! 1) = STUN_ID"
    by blast
  then have "\<exists>p' io'. p2p_receive_step R L E (Received packet a) (buf, p, io) =
       Some (if p2p_accepts R L E packet a p then fill_reply a buf else buf, p', io') \<and>
     io_sent io' =
       io_sent io @ (if p2p_accepts R L E packet a p then [(a, fill_reply a buf)] else []) \<and>
     v3_active_clients (io_metrics io') = v3_active_clients (io_metrics io) \<and>
     v2_active_clients (io_metrics io') = v2_active_clients (io_metrics io)"
    by cases (simp_all add: p2p_receive_step_def p2p_on_receive_def p2p_accepts_def chk Let_def)
  then show thesis using that by blast
qed

lemma p2p_receive_error [simp]: "p2p_receive_step R L E Receive_Error s = Some s"
  by (simp add: p2p_receive_step_def)

lemma p2p_step_ok:
  assumes "p2p_ok s"
  shows "\<exists>s'. p2p_step R L e s = Some s' \<and> p2p_ok s'"
proof (cases e)
  case (P2P_Recv w E r)
  show ?thesis
  proof (cases r)
    case (Received packet a)
    obtain p' io' where "p2p_receive_step R L E r (p2p_buffers s w, p2p_shared s, p2p_io s) =
        Some (if p2p_accepts R L E packet a (p2p_shared s) then fill_reply a (p2p_buffers s w)
              else p2p_buffers s w, p', io')"
      unfolding Received by (rule p2p_receive_step_eq)
    with assms show ?thesis by (auto simp: P2P_Recv p2p_ok_def buffer_ok_fill_reply)
  next
    case Receive_Error
    with assms show ?thesis by (auto simp: P2P_Recv p2p_ok_def)
  qed
next
  case P2P_Reset
  with assms show ?thesis by (simp add: p2p_ok_def)
qed

lemma p2p_step_sent:
  assumes "p2p_step R L (P2P_Recv w E (Received packet a)) s = Some s'"
  shows "p2p_sent s' = p2p_sent s @
    (if p2p_accepts R L E packet a (p2p_shared s) then [(a, fill_reply a (p2p_buffers s w))] else [])"
proof -
  obtain p' io' where
    "p2p_receive_step R L E (Received packet a) (p2p_buffers s w, p2p_shared s, p2p_io s) =
       Some (if p2p_accepts R L E packet a (p2p_shared s) then fill_reply a (p2p_buffers s w)
             else p2p_buffers s w, p', io')"
    "io_sent io' = p2p_sent s @
       (if p2p_accepts R L E packet a (p2p_shared s)
        then [(a, fill_reply a (p2p_buffers s w))] else [])"
    by (rule p2p_receive_step_eq)
  with assms show ?thesis by auto
qed

lemma p2p_step_quiet:
  assumes "p2p_step R L e s = Some s'" and "\<nexists>packet a. p2p_rx e = Some (Received packet a)"
  shows "p2p_sent s' = p2p_sent s"
proof (cases e)
  case (P2P_Recv w E r)
  with assms(2) have "r = Receive_Error" by (cases r) auto
  with assms(1) P2P_Recv show ?thesis by auto
qed (use assms(1) in auto)

interpretation p2p: udp_service "p2p_step R L" p2p_rx p2p_sent p2p_ok for R L
proof
  fix R L s e
  show "p2p_ok s \<Longrightarrow> \<exists>s'. p2p_step R L e s = Some s' \<and> p2p_ok s'"
    by (rule p2p_step_ok)
next
  fix R L s s' e
  assume ok: "p2p_ok s" and step: "p2p_step R L e s = Some s'"
  show "\<exists>new. p2p_sent s' = p2p_sent s @ new \<and> answers (p2p_rx e) new"
  proof (cases "\<exists>packet a. p2p_rx e = Some (Received packet a)")
    case False
    with p2p_step_quiet [OF step] show ?thesis by (auto simp: answers_def)
  next
    case True
    then obtain w E packet a where e: "e = P2P_Recv w E (Received packet a)"
      by (auto elim!: p2p_rx.elims)
    from ok have "length (p2p_buffers s w) = 40" by (simp add: p2p_ok_def buffer_ok_def)
    with p2p_step_sent [OF step [unfolded e]] show ?thesis
      by (auto simp: e answers_def p2p_accepts_def)
  qed
qed

section \<open>Properties\<close>

text \<open>
  C21: The STUN reply. When a packet makes the service send, it sends one datagram of 40 bytes
  back to the source: it carries the STUN id in bytes 6 and 7, an IPv4 source reads its own public
  address and port off it, bytes from 8 on are the worker's own constant filling, and the packet
  was 48 bytes long with the STUN id in front and came from a valid address.
\<close>

theorem stun_reply:
  assumes "p2p_ok s"
    and "p2p_step R L (P2P_Recv w E (Received packet src)) s = Some s'"
    and "p2p_sent s' \<noteq> p2p_sent s"
  shows "\<exists>q. p2p_sent s' = p2p_sent s @ [(src, q)] \<and> buffer_ok q \<and>
      (\<forall>a b c d p. src = SocketV4 a b c d p \<longrightarrow> decode_reply q = src) \<and>
      drop 6 q = drop 6 (p2p_buffers s w) \<and> length packet = 48 \<and> validate_address R src \<and>
      u16_from_be_bytes (packet ! 0) (packet ! 1) = STUN_ID"
proof -
  from p2p_step_sent [OF assms(2)] assms(3)
  have acc: "p2p_accepts R L E packet src (p2p_shared s)"
    and sent: "p2p_sent s' = p2p_sent s @ [(src, fill_reply src (p2p_buffers s w))]"
    by (auto split: if_splits)
  from assms(1) have buf: "buffer_ok (p2p_buffers s w)" "length (p2p_buffers s w) = 40"
    by (auto simp: p2p_ok_def buffer_ok_def)
  let ?q = "fill_reply src (p2p_buffers s w)"
  have "buffer_ok ?q" "drop 6 ?q = drop 6 (p2p_buffers s w)"
    using buf(2) by (simp_all add: buffer_ok_fill_reply [OF buf(1)]) (simp add: fill_reply_eq)
  moreover have "\<forall>a b c d p. src = SocketV4 a b c d p \<longrightarrow> decode_reply ?q = src"
    using buf(2) by (auto simp: decode_fill_reply)
  ultimately show ?thesis
    using acc sent by (intro exI [of _ ?q]) (simp add: p2p_accepts_def)
qed

definition sample_p2p :: "sample_manager p2p_system" where
  "sample_p2p =
     \<lparr>p2p_shared = peer_to_peer_new sample_rater 8054,
      p2p_buffers = (\<lambda>_. init_send_buffer (replicate 40 7)),
      p2p_io = io_new\<rparr>"

lemma sample_p2p_ok [simp]: "p2p_ok sample_p2p"
  by (simp add: p2p_ok_def sample_p2p_def init_send_buffer_ok)

definition stun_packet :: "u8 list" where
  "stun_packet = 0x66 # 0x96 # replicate 46 0"

theorem stun_reply_witness:
  "\<exists>s' q. p2p_step sample_core sample_rater
       (P2P_Recv 0 (sample_env 5) (Received stun_packet (SocketV4 1 2 3 4 5))) sample_p2p = Some s' \<and>
     p2p_sent s' = [(SocketV4 1 2 3 4 5, q)] \<and> decode_reply q = SocketV4 1 2 3 4 5"
proof -
  let ?e = "P2P_Recv 0 (sample_env 5) (Received stun_packet (SocketV4 1 2 3 4 5))"
  obtain s' where s': "p2p_step sample_core sample_rater ?e sample_p2p = Some s'"
    using p2p_step_ok [OF sample_p2p_ok] by blast
  have "p2p_accepts sample_core sample_rater (sample_env 5) stun_packet (SocketV4 1 2 3 4 5)
      (p2p_shared sample_p2p)"
    by (simp add: p2p_accepts_def stun_packet_def sample_core_def sample_p2p_def peer_to_peer_new_def
        check_and_increment_def rate_limiter_new_def sample_rater_def Let_def MAX_REQUESTS_PER_IP_def
        u16_from_be_bytes_def STUN_ID_def)
  with p2p_step_sent [OF s'] have "p2p_sent s' \<noteq> p2p_sent sample_p2p" by simp
  from stun_reply [OF sample_p2p_ok s' this] s' show ?thesis
    by (auto simp: sample_p2p_def io_new_def)
qed

text \<open>
  The STUN service as a whole. No sequence of packets of any size, receive errors and limiter
  resets, on any workers, makes it panic; it sends at most one datagram for each event and, in all,
  no more bytes than it receives.
\<close>

theorem p2p_runs_safe:
  assumes "\<And>w. length (random w) = 40"
  shows "\<exists>s'. run_all (p2p_step R L) es
      \<lparr>p2p_shared = peer_to_peer_new L port, p2p_buffers = (\<lambda>w. init_send_buffer (random w)),
       p2p_io = io_new\<rparr> = Some s' \<and>
    (\<forall>w. buffer_ok (p2p_buffers s' w)) \<and> length (p2p_sent s') \<le> length es \<and>
    payload_bytes (p2p_sent s') \<le> received_bytes p2p_rx es"
proof -
  let ?s = "\<lparr>p2p_shared = peer_to_peer_new L port, p2p_buffers = (\<lambda>w. init_send_buffer (random w)),
       p2p_io = io_new\<rparr>"
  have ok: "p2p_ok ?s" using assms by (simp add: p2p_ok_def init_send_buffer_ok)
  from p2p.run_ok [OF ok] obtain s' where s': "run_all (p2p_step R L) es ?s = Some s'" "p2p_ok s'"
    by blast
  from p2p.run_sent [OF ok s'(1)] s' show ?thesis by (auto simp: p2p_ok_def io_new_def)
qed

theorem p2p_runs_safe_witness:
  "\<exists>s'. run_all (p2p_step sample_core sample_rater)
      [P2P_Recv 0 (sample_env 5) (Received [] (SocketV4 1 2 3 4 5)), P2P_Reset]
      \<lparr>p2p_shared = peer_to_peer_new sample_rater 8054,
       p2p_buffers = (\<lambda>w. init_send_buffer (replicate 40 7)), p2p_io = io_new\<rparr> = Some s' \<and>
    length (p2p_sent s') \<le> 2"
proof -
  have "length (replicate 40 (7 :: u8)) = 40" by simp
  from p2p_runs_safe [of "\<lambda>_. replicate 40 7", OF this,
      of sample_core sample_rater
        "[P2P_Recv 0 (sample_env 5) (Received [] (SocketV4 1 2 3 4 5)), P2P_Reset]" 8054]
  show ?thesis by (auto simp del: p2p_step.simps)
qed

end
