(* ===== verification/Health.thy ===== *)
theory Health
  imports Http Metrics
begin

text \<open>
  \<open>src/health.rs\<close>: the health and metrics server, its routing and its accept loop. The text
  encoder of the \<open>prometheus\<close> crate is a parameter that turns the calls made so far into the
  exported text.
\<close>

section \<open>Routing\<close>

definition export_prometheus ::
    "(prom_call list \<Rightarrow> string) \<Rightarrow> u64 \<Rightarrow> metrics \<Rightarrow> string \<times> metrics" where
  "export_prometheus encode uptime m =
     (let (calls, m') = update_prometheus uptime m in (encode calls, m'))"

definition health_handle_request ::
    "(prom_call list \<Rightarrow> string) \<Rightarrow> u64 \<Rightarrow> http_request \<Rightarrow> metrics \<Rightarrow> response \<times> metrics" where
  "health_handle_request encode uptime req m =
     (if path req = ''/health'' then (respond 200 ''OK'', m)
      else if path req = ''/ready'' then (respond 200 ''READY'', m)
      else if path req = ''/metrics'' then
        (let (text, m') = export_prometheus encode uptime m in (respond 200 text, m'))
      else (respond 404 ''Not Found'', m))"

lemma health_counters_kept:
  "current_of c (snd (health_handle_request encode up req m)) = current_of c m"
  using update_prometheus_current [of c up m]
  by (auto simp: health_handle_request_def export_prometheus_def split: prod.splits)

section \<open>The accept loop\<close>

text \<open>
  The task first binds its port, and its \<open>unwrap\<close> panics if it cannot; the release profile of the
  crate turns a panic into the end of the process. One turn of the loop is a \<open>select!\<close> over
  \<open>Ok((stream, _)) = listener.accept()\<close> and the shutdown receiver. When \<open>accept\<close> completes with an
  error the pattern does not match, so its branch is disabled and the same \<open>select!\<close> goes on waiting
  for the other branch alone. A connection that was accepted is served by a task of its own, for any
  number of requests, whatever the loop does. The process can abort the task wherever it is.
\<close>

datatype health_loop = Binding | Selecting | Only_Shutdown | Stopped

record health_server =
  hs_loop :: health_loop
  hs_conns :: "nat set"
  hs_responses :: "(nat \<times> response) list"

definition start_health_server :: health_server where
  "start_health_server = \<lparr>hs_loop = Binding, hs_conns = {}, hs_responses = []\<rparr>"

datatype health_event =
    Health_Bind bool
  | Health_Accept nat
  | Health_Accept_Error
  | Health_Shutdown
  | Health_Request nat u64 http_request
  | Health_Close nat
  | Health_Abort

text \<open>A step is \<open>None\<close> when it panics.\<close>

fun health_step ::
    "(prom_call list \<Rightarrow> string) \<Rightarrow> health_event \<Rightarrow> health_server \<times> metrics
       \<Rightarrow> (health_server \<times> metrics) option" where
  "health_step encode (Health_Bind ok) (h, m) =
     (if hs_loop h = Binding then if ok then Some (h\<lparr>hs_loop := Selecting\<rparr>, m) else None
      else Some (h, m))"
| "health_step encode (Health_Accept k) (h, m) =
     Some (if hs_loop h = Selecting then (h\<lparr>hs_conns := Set.insert k (hs_conns h)\<rparr>, m) else (h, m))"
| "health_step encode Health_Accept_Error (h, m) =
     Some (if hs_loop h = Selecting then (h\<lparr>hs_loop := Only_Shutdown\<rparr>, m) else (h, m))"
| "health_step encode Health_Shutdown (h, m) =
     Some (if hs_loop h = Binding then (h, m) else (h\<lparr>hs_loop := Stopped\<rparr>, m))"
| "health_step encode (Health_Request k uptime req) (h, m) =
     Some (if k \<in> hs_conns h then
        let (resp, m) = health_handle_request encode uptime req m
        in (h\<lparr>hs_responses := hs_responses h @ [(k, resp)]\<rparr>, m)
      else (h, m))"
| "health_step encode (Health_Close k) (h, m) = Some (h\<lparr>hs_conns := hs_conns h - {k}\<rparr>, m)"
| "health_step encode Health_Abort (h, m) = Some (h\<lparr>hs_loop := Stopped\<rparr>, m)"

definition health_run ::
    "(prom_call list \<Rightarrow> string) \<Rightarrow> health_event list \<Rightarrow> health_server \<times> metrics
       \<Rightarrow> (health_server \<times> metrics) option" where
  "health_run encode = run_all (health_step encode)"

lemma health_run_simps [simp]:
  "health_run encode [] s = Some s"
  "health_run encode (e # es) s = Option.bind (health_step encode e s) (health_run encode es)"
  by (simp_all add: health_run_def)

text \<open>The only panic is the one of the bind.\<close>

lemma health_step_None:
  "health_step encode e (h, m) = None \<longleftrightarrow> e = Health_Bind False \<and> hs_loop h = Binding"
  by (cases "(encode, e, (h, m))" rule: health_step.cases) auto

lemma health_step_current [frame_simps]:
  "health_step encode e s = Some s' \<Longrightarrow> current_of c (snd s') = current_of c (snd s)"
  by (cases "(encode, e, s)" rule: health_step.cases)
     (auto simp: case_prod_beta health_counters_kept split: if_splits)

text \<open>
  The connections whose requests are answered, in order, when the open ones are \<open>conns\<close> and none is
  accepted any more.
\<close>

fun served :: "nat set \<Rightarrow> health_event list \<Rightarrow> nat list" where
  "served conns [] = []"
| "served conns (Health_Request k uptime req # es) = (if k \<in> conns then k # served conns es else served conns es)"
| "served conns (Health_Close k # es) = served (conns - {k}) es"
| "served conns (e # es) = served conns es"

text \<open>Once the loop does not select it never accepts again, and the open connections go on.\<close>

lemma health_not_selecting:
  assumes "hs_loop h = Only_Shutdown \<or> hs_loop h = Stopped"
  shows "\<exists>h' m'. health_run encode es (h, m) = Some (h', m') \<and>
    (hs_loop h' = Only_Shutdown \<or> hs_loop h' = Stopped) \<and>
    hs_conns h' = hs_conns h - {k. Health_Close k \<in> set es} \<and>
    (\<exists>new. hs_responses h' = hs_responses h @ new \<and> map fst new = served (hs_conns h) es)"
  using assms
proof (induction es arbitrary: h m)
  case Nil
  then show ?case by simp
next
  case (Cons e es)
  obtain h1 m1 where step: "health_step encode e (h, m) = Some (h1, m1)"
    using health_step_None [of encode e h m] Cons.prems by fastforce
  have loop: "hs_loop h1 = Only_Shutdown \<or> hs_loop h1 = Stopped"
    and conns: "hs_conns h1 - {k. Health_Close k \<in> set es} = hs_conns h - {k. Health_Close k \<in> set (e # es)}"
    and first: "\<exists>new. hs_responses h1 = hs_responses h @ new \<and>
      map fst new @ served (hs_conns h1) es = served (hs_conns h) (e # es)"
    using step Cons.prems by (cases e; auto simp: case_prod_beta split: if_splits)+
  from Cons.IH [OF loop, of m1] obtain h' m' new' where IH: "health_run encode es (h1, m1) = Some (h', m')"
    "hs_loop h' = Only_Shutdown \<or> hs_loop h' = Stopped" "hs_conns h' = hs_conns h1 - {k. Health_Close k \<in> set es}"
    "hs_responses h' = hs_responses h1 @ new'" "map fst new' = served (hs_conns h1) es" by blast
  from first obtain new where "hs_responses h1 = hs_responses h @ new"
    "map fst new @ served (hs_conns h1) es = served (hs_conns h) (e # es)" by blast
  with IH step conns show ?case
    by (intro exI [of _ h'] exI [of _ m']) (auto intro!: exI [of _ "new @ new'"])
qed

text \<open>
  C35: One failed accept ends the health server. As soon as \<open>accept\<close> has returned an error once, for
  whatever passing reason, no connection is ever accepted again, however long the server goes on;
  the connections that were open at that moment go on: they stay open until they are closed, every
  request on one of them is answered, in order, and no other request is.
\<close>

theorem health_accept_error_is_final:
  assumes "hs_loop h = Selecting"
  shows "\<exists>h' m' new. health_run encode (Health_Accept_Error # es) (h, m) = Some (h', m') \<and>
    hs_loop h' \<noteq> Selecting \<and> hs_conns h' = hs_conns h - {k. Health_Close k \<in> set es} \<and>
    hs_responses h' = hs_responses h @ new \<and> map fst new = served (hs_conns h) es"
proof -
  let ?h = "h\<lparr>hs_loop := Only_Shutdown\<rparr>"
  have "hs_loop ?h = Only_Shutdown \<or> hs_loop ?h = Stopped" by simp
  from health_not_selecting [OF this, of encode es m] obtain h' m' new where
    "health_run encode es (?h, m) = Some (h', m')" "hs_loop h' \<noteq> Selecting"
    "hs_conns h' = hs_conns h - {k. Health_Close k \<in> set es}"
    "hs_responses h' = hs_responses h @ new" "map fst new = served (hs_conns h) es" by auto
  with assms show ?thesis by auto
qed

theorem health_accept_error_is_final_witness:
  "\<exists>h' m'. health_run (\<lambda>_. [])
     [Health_Bind True, Health_Accept 3, Health_Accept_Error, Health_Accept 4,
      Health_Request 4 9 \<lparr>req_method = GET, path = ''/health'', query = None\<rparr>,
      Health_Request 3 9 \<lparr>req_method = GET, path = ''/health'', query = None\<rparr>]
     (start_health_server, metrics_new) = Some (h', m') \<and> hs_conns h' = {3} \<and> map fst (hs_responses h') = [3]"
  using health_accept_error_is_final [of "start_health_server\<lparr>hs_loop := Selecting, hs_conns := {3}\<rparr>" "\<lambda>_. []"
     "[Health_Accept 4, Health_Request 4 9 \<lparr>req_method = GET, path = ''/health'', query = None\<rparr>,
       Health_Request 3 9 \<lparr>req_method = GET, path = ''/health'', query = None\<rparr>]" metrics_new]
  by (auto simp: start_health_server_def)

end
