(* ===== verification/Shutdown.thy ===== *)
theory Shutdown
  imports Libraries
begin

text \<open>
  \<open>src/shutdown.rs\<close>: the coordinator wraps a watch channel and an atomic flag; \<open>shutdown\<close> sends
  once. A receiver is a handle on the same channel, so whether its \<open>recv\<close> completes is a question
  to the channel.
\<close>

record 'w shutdown_coordinator =
  sender :: 'w
  is_shutting_down :: bool

definition coordinator_new :: "'w watch \<Rightarrow> 'w shutdown_coordinator" where
  "coordinator_new W = \<lparr>sender = watch_channel W False, is_shutting_down = False\<rparr>"

definition shutdown :: "'w watch \<Rightarrow> 'w shutdown_coordinator \<Rightarrow> 'w shutdown_coordinator" where
  "shutdown W c =
     (if \<not> is_shutting_down c
      then c\<lparr>is_shutting_down := True, sender := send_replace W True (sender c)\<rparr>
      else c)"

definition recv_completes :: "'w watch \<Rightarrow> 'w shutdown_coordinator \<Rightarrow> bool" where
  "recv_completes W c = wait_for_true_ready W (sender c)"

definition coordinator_ok :: "'w watch \<Rightarrow> 'w shutdown_coordinator \<Rightarrow> bool" where
  "coordinator_ok W c \<longleftrightarrow> recv_completes W c = is_shutting_down c"

lemma coordinator_new_ok: "watch_laws W \<Longrightarrow> coordinator_ok W (coordinator_new W)"
  by (simp add: coordinator_ok_def recv_completes_def coordinator_new_def watch_laws_def)

lemma shutdown_ok: "watch_laws W \<Longrightarrow> coordinator_ok W c \<Longrightarrow> coordinator_ok W (shutdown W c)"
  by (auto simp: coordinator_ok_def recv_completes_def shutdown_def watch_laws_def)

lemma shutdown_idempotent: "shutdown W (shutdown W c) = shutdown W c"
  by (simp add: shutdown_def)

lemma shutdown_repeated: "(shutdown W ^^ Suc n) c = shutdown W c"
  by (induction n) (simp_all add: shutdown_idempotent)

text \<open>
  Graceful shutdown. Before \<open>shutdown\<close> is called no receiver of the coordinator wakes; after
  it has been called any positive number of times every receiver does, also one subscribed late,
  and the channel has been sent to exactly as by a single call.
\<close>

theorem shutdown_wakes_all:
  assumes "watch_laws W"
  shows "\<not> recv_completes W (coordinator_new W) \<and>
         recv_completes W ((shutdown W ^^ Suc n) (coordinator_new W)) \<and>
         sender ((shutdown W ^^ Suc n) (coordinator_new W)) =
           send_replace W True (watch_channel W False)"
proof -
  have "coordinator_ok W (shutdown W (coordinator_new W))"
    using assms by (blast intro: shutdown_ok coordinator_new_ok)
  then have "recv_completes W (shutdown W (coordinator_new W))"
    by (simp add: coordinator_ok_def shutdown_def)
  moreover have "\<not> recv_completes W (coordinator_new W)"
    using coordinator_new_ok [OF assms] by (simp add: coordinator_ok_def coordinator_new_def)
  ultimately show ?thesis
    unfolding shutdown_repeated by (simp add: shutdown_def coordinator_new_def)
qed

theorem shutdown_wakes_all_witness:
  "\<not> recv_completes sample_watch (coordinator_new sample_watch) \<and>
   recv_completes sample_watch ((shutdown sample_watch ^^ Suc 1) (coordinator_new sample_watch))"
  using shutdown_wakes_all [OF sample_watch_laws, of 1] by blast

end
