(* ===== verification/Server.thy ===== *)
theory Server
  imports V3_Control V2_Properties Peer_To_Peer Health Shutdown
begin

text \<open>
  \<open>src/main.rs\<close>: the server as a whole. First all services run side by side over the one
  \<open>Metrics\<close> they share, in any order of whole handler calls. The whole is an instance of the contract
  of a service that one event kills: the failed bind of the health port.
\<close>

section \<open>Gauges of the other services\<close>

text \<open>No service writes the gauge of another one.\<close>

lemma v3_admit_frame [frame_simps]:
  "v3_admit_sender R L E sid p src now (t, io) = (b, t', io') \<Longrightarrow>
     v2_active_clients (io_metrics io') = v2_active_clients (io_metrics io)"
  by (auto simp: v3_admit_sender_def Let_def split: option.splits if_splits prod.splits)

lemma v3_forward_frame [frame_simps]:
  assumes "v3_handle_data_forward R L E sid rid p src now (t, io) = (t', io')"
  shows "v2_active_clients (io_metrics io') = v2_active_clients (io_metrics io)"
proof -
  obtain b t1 io1 where adm: "v3_admit_sender R L E sid p src now (t, io) = (b, t1, io1)"
    by (cases "v3_admit_sender R L E sid p src now (t, io)")
  from assms have "v2_active_clients (io_metrics io') = v2_active_clients (io_metrics io1)"
    by (auto simp: v3_handle_data_forward_def adm Let_def split: option.splits if_splits)
  with v3_admit_frame [OF adm] show ?thesis by simp
qed

lemma v3_cleanup_frame [frame_simps]:
  "v3_cleanup_expired_mappings R L E (t, io) = (t', io') \<Longrightarrow>
     v2_active_clients (io_metrics io') = v2_active_clients (io_metrics io)"
  by (auto simp: v3_cleanup_expired_mappings_def Let_def)

lemma v3_command_frame [frame_simps]:
  assumes "v3_execute_command R L E p (t, io) = Some (t', io')" and "29 \<le> length p"
  shows "v2_active_clients (io_metrics io') = v2_active_clients (io_metrics io)"
  using assms(1) unfolding v3_execute_command_eq [OF assms(2)]
  by (auto simp: Let_def dest: v3_cleanup_frame split: if_splits)

lemma v3_on_receive_frame [frame_simps]:
  assumes "v3_on_receive R L E p src (t, io) = Some (t', io')"
  shows "v2_active_clients (io_metrics io') = v2_active_clients (io_metrics io)"
proof -
  have ping: "v3_handle_ping E p src (t1, io1) = (t2, io2) \<Longrightarrow>
      v2_active_clients (io_metrics io2) = v2_active_clients (io_metrics io1)" for t1 io1 t2 io2
    by (auto simp: v3_handle_ping_def Let_def split: if_splits)
  from assms show ?thesis
    by (auto simp: v3_on_receive_def Let_def dest: ping v3_forward_frame v3_command_frame
        split: option.splits if_splits prod.splits)
qed

lemma v3_step_frame [frame_simps]:
  assumes "v3_step R L encode e s = Some s'"
  shows "v2_active_clients (v3s_metrics s') = v2_active_clients (v3s_metrics s)"
proof (cases e)
  case (V3_Recv w E r)
  with assms show ?thesis
    by (auto simp: v3_step.simps v3_receive_step_def Let_def dest: v3_on_receive_frame
        split: recv_result.splits if_splits Option.bind_splits prod.splits)
next
  case (V3_Tick E)
  with assms show ?thesis
    by (auto simp: v3_step.simps v3_heartbeat_tick_def Let_def dest: v3_cleanup_frame
        split: if_splits prod.splits)
qed

lemma v2_udp_frame [frame_simps]:
  assumes "v2_on_udp_receive R L E p src (t, io) = (t', io')"
  shows "v3_active_clients (io_metrics io') = v3_active_clients (io_metrics io)"
proof -
  have ping: "v2_handle_ping E p src (t1, io1) = (t2, io2) \<Longrightarrow>
      v3_active_clients (io_metrics io2) = v3_active_clients (io_metrics io1)" for t1 io1 t2 io2
    by (auto simp: v2_handle_ping_def Let_def split: if_splits)
  have fwd: "v2_handle_data_forward R E sid rid p src now (t1, io1) = (t2, io2) \<Longrightarrow>
      v3_active_clients (io_metrics io2) = v3_active_clients (io_metrics io1)" for sid rid now t1 io1 t2 io2
    by (auto simp: v2_handle_data_forward_def Let_def split: option.splits if_splits)
  from assms show ?thesis
    by (auto simp: v2_on_udp_receive_def Let_def dest: ping fwd split: if_splits prod.splits)
qed

lemma v2_http_frame [frame_simps]:
  assumes "v2_handle_http_request R L E draw req a (t, m) = (resp, t', m')"
  shows "v3_active_clients m' = v3_active_clients m"
proof -
  have req: "v2_handle_request R E draw q (t1, m1) = (r, t2, m2) \<Longrightarrow>
      v3_active_clients m2 = v3_active_clients m1" for q t1 m1 r t2 m2
    unfolding v2_handle_request_eq by (auto simp: v2_request_spec_def Let_def split: if_splits)
  from assms show ?thesis
    by (auto simp: v2_handle_http_request_def Let_def dest: req split: if_splits prod.splits)
qed

lemma v2_cleanup_frame [frame_simps]:
  "v3_active_clients (snd (v2_cleanup_expired_mappings R L E (t, m))) = v3_active_clients m"
  by (simp add: v2_cleanup_expired_mappings_def Let_def)

lemma v2_step_frame [frame_simps]:
  assumes "v2_step R L S encode e s = Some s'"
  shows "v3_active_clients (v2s_metrics s') = v3_active_clients (v2s_metrics s)"
proof (cases e)
  case (V2_Recv w E r)
  have "v3_active_clients (io_metrics (snd (v2_receive_step R L E r (v2s_tunnel s, v2s_io w s)))) =
      v3_active_clients (v2s_metrics s)"
    by (auto simp: v2_receive_step_def dest: v2_udp_frame split: recv_result.splits prod.splits)
  with assms V2_Recv show ?thesis by (auto simp: v2_step.simps v2s_put_def)
next
  case (V2_Tick E)
  obtain t m where cl: "v2_cleanup_expired_mappings R L E (v2s_tunnel s, v2s_metrics s) = (t, m)"
    by fastforce
  have "v3_active_clients m = v3_active_clients (v2s_metrics s)"
    using v2_cleanup_frame [of R L E "v2s_tunnel s" "v2s_metrics s"] by (simp add: cl)
  with assms V2_Tick show ?thesis by (auto simp: v2_step.simps v2_heartbeat_tick_def cl Let_def)
next
  case (V2_Accept k a)
  with assms show ?thesis
    by (auto simp: v2_step.simps v2_accept_def Let_def split: option.splits if_splits)
next
  case (V2_Http k E draw req)
  with assms show ?thesis
    by (auto simp: v2_step.simps Let_def dest: v2_http_frame split: option.splits bool.splits prod.splits)
qed (use assms in \<open>auto simp: v2_step.simps split: if_splits\<close>)

lemma p2p_step_frame [frame_simps]:
  assumes "p2p_step R L e s = Some s'"
  shows "v3_active_clients (io_metrics (p2p_io s')) = v3_active_clients (io_metrics (p2p_io s)) \<and>
    v2_active_clients (io_metrics (p2p_io s')) = v2_active_clients (io_metrics (p2p_io s))"
proof (cases e)
  case (P2P_Recv w E r)
  show ?thesis
  proof (cases r)
    case (Received packet a)
    show ?thesis
      by (rule p2p_receive_step_eq
            [of R L E packet a "p2p_buffers s w" "p2p_shared s" "p2p_io s"])
         (use assms P2P_Recv Received in auto)
  next
    case Receive_Error
    with assms P2P_Recv show ?thesis by auto
  qed
next
  case P2P_Reset
  with assms show ?thesis by auto
qed

lemma health_request_frame:
  "v3_active_clients (snd (health_handle_request encode up req m)) = v3_active_clients m \<and>
     v2_active_clients (snd (health_handle_request encode up req m)) = v2_active_clients m"
  by (simp add: health_handle_request_def export_prometheus_def update_prometheus_def Let_def)

lemma health_frame [frame_simps]:
  "health_step encode e s = Some s' \<Longrightarrow>
     v3_active_clients (snd s') = v3_active_clients (snd s) \<and>
     v2_active_clients (snd s') = v2_active_clients (snd s)"
  by (cases "(encode, e, s)" rule: health_step.cases)
     (auto simp: case_prod_beta health_request_frame split: if_splits)

section \<open>All services over one set of metrics\<close>

text \<open>
  The state of the running server. Every component's own copy of the metrics is overwritten with
  the shared one before it runs. \<open>sv_sent\<close> logs every datagram of every socket, in order.
\<close>

record ('c, 'q, 'm, 's) server =
  sv_v3 :: "('c, 'q, 'm) v3_system"
  sv_v2 :: "('c, 'm, 's) v2_system"
  sv_p2p :: "'m p2p_system list"
  sv_metrics :: metrics
  sv_health :: health_server
  sv_sent :: "datagram list"

datatype 'i server_event =
    On_V3 "'i v3_event"
  | On_V2 "'i v2_event"
  | On_P2P nat "'i p2p_event"
  | On_Health health_event

definition with_metrics_p2p :: "metrics \<Rightarrow> 'm p2p_system \<Rightarrow> 'm p2p_system" where
  "with_metrics_p2p m s = s\<lparr>p2p_io := (p2p_io s)\<lparr>io_metrics := m\<rparr>\<rparr>"

text \<open>The parameters of the model together: the libraries, the URL encoding and the text encoder.\<close>

record ('c, 'q, 'm, 'g, 'i, 's) libraries =
  lib_core :: "('c, 'q, 'i) relay_core"
  lib_rater :: "('m, 'g, 'i) rater"
  lib_semaphore :: "'s semaphore"
  lib_urlencode :: "string \<Rightarrow> string"
  lib_prometheus :: "prom_call list \<Rightarrow> string"

fun server_step ::
    "('c, 'q, 'm, 'g, 'i, 's) libraries \<Rightarrow> 'i server_event \<Rightarrow> ('c, 'q, 'm, 's) server
       \<Rightarrow> ('c, 'q, 'm, 's) server option" where
  "server_step X (On_V3 e) s =
     map_option (\<lambda>t. s\<lparr>sv_v3 := t, sv_metrics := v3s_metrics t,
         sv_sent := sv_sent s @ drop (length (v3s_sent (sv_v3 s))) (v3s_sent t)\<rparr>)
       (v3_step (lib_core X) (lib_rater X) (lib_urlencode X) e ((sv_v3 s)\<lparr>v3s_metrics := sv_metrics s\<rparr>))"
| "server_step X (On_V2 e) s =
     map_option (\<lambda>t. s\<lparr>sv_v2 := t, sv_metrics := v2s_metrics t,
         sv_sent := sv_sent s @ drop (length (v2s_sent (sv_v2 s))) (v2s_sent t)\<rparr>)
       (v2_step (lib_core X) (lib_rater X) (lib_semaphore X) (lib_urlencode X) e
          ((sv_v2 s)\<lparr>v2s_metrics := sv_metrics s\<rparr>))"
| "server_step X (On_P2P n e) s =
     (if n < length (sv_p2p s) then
        map_option (\<lambda>t. s\<lparr>sv_p2p := (sv_p2p s)[n := t], sv_metrics := io_metrics (p2p_io t),
            sv_sent := sv_sent s @ drop (length (p2p_sent (sv_p2p s ! n))) (p2p_sent t)\<rparr>)
          (p2p_step (lib_core X) (lib_rater X) e (with_metrics_p2p (sv_metrics s) (sv_p2p s ! n)))
      else Some s)"
| "server_step X (On_Health e) s =
     map_option (\<lambda>(h, m). s\<lparr>sv_metrics := m, sv_health := h\<rparr>)
       (health_step (lib_prometheus X) e (sv_health s, sv_metrics s))"

fun server_rx :: "'i server_event \<Rightarrow> recv_result option" where
  "server_rx (On_V3 e) = v3_rx e"
| "server_rx (On_V2 e) = v2_rx e"
| "server_rx (On_P2P n e) = p2p_rx e"
| "server_rx (On_Health e) = None"

definition server_ok ::
    "('c, 'q, 'm, 'g, 'i, 's) libraries \<Rightarrow> ('s \<Rightarrow> nat) \<Rightarrow> ('c, 'q, 'm, 's) server \<Rightarrow> bool" where
  "server_ok X avail s \<longleftrightarrow>
     v3_ok (lib_core X) ((sv_v3 s)\<lparr>v3s_metrics := sv_metrics s\<rparr>) \<and>
     v2_ok (lib_core X) (lib_semaphore X) avail ((sv_v2 s)\<lparr>v2s_metrics := sv_metrics s\<rparr>) \<and>
     list_all p2p_ok (sv_p2p s)"

lemma p2p_ok_metrics [simp]: "p2p_ok (with_metrics_p2p m s) = p2p_ok s"
  by (simp add: p2p_ok_def with_metrics_p2p_def)

lemma v3_ok_metrics:
  "v3_ok R (s\<lparr>v3s_metrics := m\<rparr>) \<Longrightarrow> v3_active_clients m' = v3_active_clients m \<Longrightarrow>
     v3_ok R (s\<lparr>v3s_metrics := m'\<rparr>)"
  by (simp add: v3_ok_def)

lemma v2_ok_metrics:
  "v2_ok R S avail (s\<lparr>v2s_metrics := m\<rparr>) \<Longrightarrow> v2_active_clients m' = v2_active_clients m \<Longrightarrow>
     v2_ok R S avail (s\<lparr>v2s_metrics := m'\<rparr>)"
  by (simp add: v2_ok_def v2_tunnel_ok_def)

text \<open>One event of the server, as one event of the component it belongs to.\<close>

lemma server_step_v3:
  assumes "server_ok X avail s"
  obtains t where "server_step X (On_V3 e) s = Some (s\<lparr>sv_v3 := t, sv_metrics := v3s_metrics t,
      sv_sent := sv_sent s @ drop (length (v3s_sent (sv_v3 s))) (v3s_sent t)\<rparr>)"
    "v3_ok (lib_core X) t" "v2_active_clients (v3s_metrics t) = v2_active_clients (sv_metrics s)"
    "\<exists>new. v3s_sent t = v3s_sent (sv_v3 s) @ new \<and> answers (v3_rx e) new"
proof -
  let ?s = "(sv_v3 s)\<lparr>v3s_metrics := sv_metrics s\<rparr>"
  from assms have ok: "v3_ok (lib_core X) ?s" by (simp add: server_ok_def)
  from v3_step_ok [OF ok] obtain t where t:
    "v3_step (lib_core X) (lib_rater X) (lib_urlencode X) e ?s = Some t" "v3_ok (lib_core X) t" by blast
  from v3.step_answers [OF ok t(1)] v3_step_frame [OF t(1)] t show thesis by (intro that [of t]) simp_all
qed

lemma server_step_v2:
  assumes "server_ok X avail s"
  obtains t where "server_step X (On_V2 e) s = Some (s\<lparr>sv_v2 := t, sv_metrics := v2s_metrics t,
      sv_sent := sv_sent s @ drop (length (v2s_sent (sv_v2 s))) (v2s_sent t)\<rparr>)"
    "v2_ok (lib_core X) (lib_semaphore X) avail t"
    "v3_active_clients (v2s_metrics t) = v3_active_clients (sv_metrics s)"
    "\<exists>new. v2s_sent t = v2s_sent (sv_v2 s) @ new \<and> answers (v2_rx e) new"
proof -
  let ?s = "(sv_v2 s)\<lparr>v2s_metrics := sv_metrics s\<rparr>"
  from assms have ok: "v2_ok (lib_core X) (lib_semaphore X) avail ?s" by (simp add: server_ok_def)
  from v2_step_ok [OF ok] obtain t where t:
    "v2_step (lib_core X) (lib_rater X) (lib_semaphore X) (lib_urlencode X) e ?s = Some t"
    "v2_ok (lib_core X) (lib_semaphore X) avail t" by blast
  from v2.step_answers [OF ok t(1)] v2_step_frame [OF t(1)] t show thesis by (intro that [of t]) simp_all
qed

lemma server_step_p2p:
  assumes "server_ok X avail s" and "n < length (sv_p2p s)"
  obtains t where "server_step X (On_P2P n e) s = Some (s\<lparr>sv_p2p := (sv_p2p s)[n := t],
      sv_metrics := io_metrics (p2p_io t),
      sv_sent := sv_sent s @ drop (length (p2p_sent (sv_p2p s ! n))) (p2p_sent t)\<rparr>)"
    "p2p_ok t"
    "v3_active_clients (io_metrics (p2p_io t)) = v3_active_clients (sv_metrics s)"
    "v2_active_clients (io_metrics (p2p_io t)) = v2_active_clients (sv_metrics s)"
    "\<exists>new. p2p_sent t = p2p_sent (sv_p2p s ! n) @ new \<and> answers (p2p_rx e) new"
proof -
  let ?s = "with_metrics_p2p (sv_metrics s) (sv_p2p s ! n)"
  from assms have ok: "p2p_ok ?s" by (simp add: server_ok_def list_all_length)
  from p2p_step_ok [OF ok] obtain t where t:
    "p2p_step (lib_core X) (lib_rater X) e ?s = Some t" "p2p_ok t" by blast
  have "server_step X (On_P2P n e) s = Some (s\<lparr>sv_p2p := (sv_p2p s)[n := t],
      sv_metrics := io_metrics (p2p_io t),
      sv_sent := sv_sent s @ drop (length (p2p_sent (sv_p2p s ! n))) (p2p_sent t)\<rparr>)"
    by (simp add: assms(2) t(1) del: p2p_step.simps)
  with p2p.step_answers [OF ok t(1)] p2p_step_frame [OF t(1)] t(2) show thesis
    by (intro that [of t]) (simp_all add: with_metrics_p2p_def)
qed

text \<open>
  The one event that ends the process: the port of the health server cannot be bound, and the
  \<open>unwrap\<close> of \<open>start_health_server\<close> panics.
\<close>

definition bind_fails :: "'i server_event \<Rightarrow> ('c, 'q, 'm, 's) server \<Rightarrow> bool" where
  "bind_fails e s \<longleftrightarrow> e = On_Health (Health_Bind False) \<and> hs_loop (sv_health s) = Binding"

lemma bind_fails_dies: "bind_fails e s \<Longrightarrow> server_step X e s = None"
  by (auto simp: bind_fails_def)

lemma server_step_ok:
  assumes ok: "server_ok X avail s" and lives: "\<not> bind_fails e s"
  shows "\<exists>s'. server_step X e s = Some s' \<and> server_ok X avail s'"
proof (cases e)
  case (On_V3 e')
  show ?thesis
    by (rule server_step_v3 [OF ok, of e'])
       (use ok On_V3 in \<open>auto simp: server_ok_def intro: v2_ok_metrics\<close>)
next
  case (On_V2 e')
  show ?thesis
    by (rule server_step_v2 [OF ok, of e'])
       (use ok On_V2 in \<open>auto simp: server_ok_def intro: v3_ok_metrics\<close>)
next
  case (On_P2P n e')
  have upd: "list_all p2p_ok (sv_p2p s) \<Longrightarrow> p2p_ok t \<Longrightarrow> list_all p2p_ok ((sv_p2p s)[n := t])" for t
    by (auto simp: list_all_iff dest: set_update_subset_insert [THEN subsetD])
  show ?thesis
  proof (cases "n < length (sv_p2p s)")
    case True
    show ?thesis
      by (rule server_step_p2p [OF ok True, of e'])
         (use ok On_P2P upd in \<open>auto simp: server_ok_def intro: v3_ok_metrics v2_ok_metrics\<close>)
  next
    case False
    with ok On_P2P show ?thesis by simp
  qed
next
  case (On_Health e')
  with lives obtain h m where
    step: "health_step (lib_prometheus X) e' (sv_health s, sv_metrics s) = Some (h, m)"
    using health_step_None [of "lib_prometheus X" e' "sv_health s" "sv_metrics s"]
    by (auto simp: bind_fails_def)
  with ok On_Health health_frame [OF step] show ?thesis
    by (auto simp: server_ok_def intro: v3_ok_metrics v2_ok_metrics)
qed

interpretation server: fallible_service "server_step X" server_rx sv_sent "server_ok X avail" bind_fails
  for X avail
proof
  fix X avail s e
  show "server_ok X avail s \<Longrightarrow> \<not> bind_fails e s \<Longrightarrow> \<exists>s'. server_step X e s = Some s' \<and> server_ok X avail s'"
    by (rule server_step_ok)
  show "bind_fails e s \<Longrightarrow> server_step X e s = None" by (rule bind_fails_dies)
next
  fix X avail s s' e
  assume ok: "server_ok X avail s" and step: "server_step X e s = Some s'"
  show "\<exists>new. sv_sent s' = sv_sent s @ new \<and> answers (server_rx e) new"
  proof (cases e)
    case (On_V3 e')
    show ?thesis
      by (rule server_step_v3 [OF ok, of e']) (use step On_V3 in auto)
  next
    case (On_V2 e')
    show ?thesis
      by (rule server_step_v2 [OF ok, of e']) (use step On_V2 in auto)
  next
    case (On_P2P n e')
    show ?thesis
    proof (cases "n < length (sv_p2p s)")
      case True
      show ?thesis
        by (rule server_step_p2p [OF ok True, of e']) (use step On_P2P in auto)
    next
      case False
      with step On_P2P show ?thesis by (auto simp: answers_def)
    qed
  next
    case (On_Health e')
    with step show ?thesis by (auto simp: answers_def)
  qed
qed

declare server_step.simps [simp del]

section \<open>The server from its arguments\<close>

text \<open>
  What \<open>async_main\<close> builds: one configuration, one set of metrics, the two STUN services unless
  they are switched off, and the two tunnels. \<open>random\<close> fills the workers' send buffers.
\<close>

definition p2p_ports :: "server_config \<Rightarrow> u16 list" where
  "p2p_ports c = (if no_p2p c then [] else [8054, 3478])"

definition server_start ::
    "('c, 'q, 'm, 'g, 'i, 's) libraries \<Rightarrow> (u8 list \<Rightarrow> u8 list) \<Rightarrow> (nat \<Rightarrow> u8 list) \<Rightarrow> args
       \<Rightarrow> config_error + ('c, 'q, 'm, 's) server" where
  "server_start X sha1 random a =
     (case from_args a of
        Inl err \<Rightarrow> Inl err
      | Inr c \<Rightarrow> Inr \<lparr>
          sv_v3 = v3_start (tunnel_v3_new (lib_rater X) sha1 c) metrics_new,
          sv_v2 = v2_start (tunnel_v2_new (lib_rater X) (lib_semaphore X) c) metrics_new,
          sv_p2p = map (\<lambda>port. \<lparr>p2p_shared = peer_to_peer_new (lib_rater X) port,
                                p2p_buffers = (\<lambda>w. init_send_buffer (random w)), p2p_io = io_new\<rparr>)
                     (p2p_ports c),
          sv_metrics = metrics_new, sv_health = start_health_server, sv_sent = []\<rparr>)"

definition server_configs :: "('c, 'q, 'm, 's) server \<Rightarrow> server_config \<times> server_config" where
  "server_configs s = (v3_config (v3s_tunnel (sv_v3 s)), v2_config (v2s_tunnel (sv_v2 s)))"

lemma server_step_configs:
  assumes ok: "server_ok X avail s" and step: "server_step X e s = Some s'"
  shows "server_configs s' = server_configs s"
proof (cases e)
  case (On_V3 e')
  let ?s = "(sv_v3 s)\<lparr>v3s_metrics := sv_metrics s\<rparr>"
  from ok have "v3_ok (lib_core X) ?s" by (simp add: server_ok_def)
  with step On_V3 show ?thesis
    by (auto simp: server_step.simps server_configs_def dest: v3_step_config)
next
  case (On_V2 e')
  let ?s = "(sv_v2 s)\<lparr>v2s_metrics := sv_metrics s\<rparr>"
  from ok have "v2_ok (lib_core X) (lib_semaphore X) avail ?s" by (simp add: server_ok_def)
  with step On_V2 show ?thesis
    by (auto simp: server_step.simps server_configs_def dest: v2_step_config)
next
  case (On_P2P n e')
  with step show ?thesis by (auto simp: server_step.simps server_configs_def split: if_splits)
next
  case (On_Health e')
  with step show ?thesis by (auto simp: server_step.simps server_configs_def)
qed

lemma server_start_ok:
  assumes "endpoint_laws (lib_core X)" and "semaphore_laws (lib_semaphore X) avail"
    and "\<And>w. length (random w) = 40" and "server_start X sha1 random a = Inr s"
  shows "server_ok X avail s"
proof -
  have zero: "v3_active_clients metrics_new = 0" "v2_active_clients metrics_new = 0"
    by (simp_all add: metrics_new_def)
  obtain c where c: "from_args a = Inr c"
    and s: "s = \<lparr>
          sv_v3 = v3_start (tunnel_v3_new (lib_rater X) sha1 c) metrics_new,
          sv_v2 = v2_start (tunnel_v2_new (lib_rater X) (lib_semaphore X) c) metrics_new,
          sv_p2p = map (\<lambda>port. \<lparr>p2p_shared = peer_to_peer_new (lib_rater X) port,
                                p2p_buffers = (\<lambda>w. init_send_buffer (random w)), p2p_io = io_new\<rparr>)
                     (p2p_ports c),
          sv_metrics = metrics_new, sv_health = start_health_server, sv_sent = []\<rparr>"
    using assms(4) by (auto simp: server_start_def split: sum.splits)
  have same: "(v3_start t m)\<lparr>v3s_metrics := m\<rparr> = v3_start t m"
    "(v2_start t2 m)\<lparr>v2s_metrics := m\<rparr> = v2_start t2 m" for t t2 m
    by (simp_all add: v3_start_def v2_start_def)
  show ?thesis
    using assms(3)
    by (simp add: server_ok_def s same list_all_iff p2p_ok_def init_send_buffer_ok
        v3_start_ok [OF assms(1) zero(1)] v2_start_ok [OF assms(1,2) zero(2)])
qed

text \<open>The limits and gauges of a server, from its invariant and its configuration.\<close>

lemma server_ok_limits:
  assumes "server_ok X avail s" and "server_configs s = (c, c)"
  shows "dm_len (v3_mappings (v3s_tunnel (sv_v3 s))) \<le> max_clients c"
    and "dm_len (v2_mappings (v2s_tunnel (sv_v2 s))) \<le> max_clients c"
    and "v3_active_clients (sv_metrics s) = dm_len (v3_mappings (v3s_tunnel (sv_v3 s)))"
    and "v2_active_clients (sv_metrics s) = dm_len (v2_mappings (v2s_tunnel (sv_v2 s)))"
  using assms
  by (simp_all add: server_configs_def server_ok_def v3_ok_def v2_ok_def v3_tunnel_ok_def
      clients_ok_def v2_tunnel_ok_def)

lemma server_start_configs:
  assumes "server_start X sha1 random a = Inr s"
  obtains c where "from_args a = Inr c" "server_configs s = (c, c)" "sv_sent s = []"
    "max_clients c = arg_maxclients a" "arg_maxclients a \<le> 10000" "sv_health s = start_health_server"
    "length (sv_p2p s) = length (p2p_ports c)"
proof -
  from assms obtain c where c: "from_args a = Inr c"
    by (auto simp: server_start_def split: sum.splits)
  with assms that [of c] show thesis
    by (auto simp: server_start_def server_configs_def from_args_def split: if_splits)
qed

section \<open>The failed bind\<close>

text \<open>Whether the first outcome of the health server's bind is a failure, in a sequence of events.\<close>

fun binding_fails :: "'i server_event list \<Rightarrow> bool" where
  "binding_fails [] = False"
| "binding_fails (On_Health (Health_Bind ok) # es) = (\<not> ok)"
| "binding_fails (On_Health Health_Abort # es) = False"
| "binding_fails (e # es) = binding_fails es"

lemma server_step_None:
  assumes "server_ok X avail s"
  shows "server_step X e s = None \<longleftrightarrow> bind_fails e s"
  by (cases "bind_fails e s") (use server.step_lives [OF assms, of e] bind_fails_dies [of e s X] in auto)

lemma server_step_binding:
  assumes "server_step X e s = Some s'"
  shows "hs_loop (sv_health s') = Binding \<longleftrightarrow>
    hs_loop (sv_health s) = Binding \<and> e \<noteq> On_Health Health_Abort \<and> (\<forall>ok. e \<noteq> On_Health (Health_Bind ok))"
proof (cases e)
  case (On_Health h)
  with assms show ?thesis
    by (cases h) (auto simp: server_step.simps case_prod_beta split: if_splits)
qed (use assms in \<open>auto simp: server_step.simps split: if_splits\<close>)

lemma server_run_None:
  "server_ok X avail s \<Longrightarrow>
     run_all (server_step X) es s = None \<longleftrightarrow> hs_loop (sv_health s) = Binding \<and> binding_fails es"
proof (induction es arbitrary: s)
  case Nil
  then show ?case by simp
next
  case (Cons e es)
  show ?case
  proof (cases "server_step X e s")
    case None
    with server_step_None [OF Cons.prems, of e] show ?thesis by (auto simp: bind_fails_def)
  next
    case (Some s1)
    have "\<not> bind_fails e s" using server_step_None [OF Cons.prems, of e] Some by simp
    with Some Cons.IH [OF server.step_inv [OF Cons.prems Some]] server_step_binding [OF Some] show ?thesis
      by (cases "e # es" rule: binding_fails.cases) (auto simp: bind_fails_def)
  qed
qed

text \<open>
  C1: The whole server is safe, one handler call at a time. When the arguments are accepted, take
  any sequence of whole handler calls: packets on any socket, HTTP requests, scrapes, timers and
  the bind of the health port (what handler calls that overlap in time do to the limits and the
  gauges is stated by the race properties). The sequence makes the server panic exactly if the
  port of the health server cannot be bound. If it does not, each tunnel holds at most as many
  clients as the configured limit, which is at most 10000, both gauges in the shared metrics show
  the number of clients of their tunnel, and all services together have sent at most one datagram
  per event and no more bytes than they have received.
\<close>

theorem server_runs_safe:
  assumes "endpoint_laws (lib_core X)" and "semaphore_laws (lib_semaphore X) avail"
    and "\<And>w. length (random w) = 40" and "server_start X sha1 random a = Inr s"
  shows "(run_all (server_step X) es s = None \<longleftrightarrow> binding_fails es) \<and>
    (\<forall>s'. run_all (server_step X) es s = Some s' \<longrightarrow>
      dm_len (v3_mappings (v3s_tunnel (sv_v3 s'))) \<le> arg_maxclients a \<and>
      dm_len (v2_mappings (v2s_tunnel (sv_v2 s'))) \<le> arg_maxclients a \<and> arg_maxclients a \<le> 10000 \<and>
      v3_active_clients (sv_metrics s') = dm_len (v3_mappings (v3s_tunnel (sv_v3 s'))) \<and>
      v2_active_clients (sv_metrics s') = dm_len (v2_mappings (v2s_tunnel (sv_v2 s'))) \<and>
      length (sv_sent s') \<le> length es \<and>
      payload_bytes (sv_sent s') \<le> received_bytes server_rx es)"
proof -
  have ok: "server_ok X avail s" by (rule server_start_ok [OF assms])
  from server_start_configs [OF assms(4)] obtain c where
    cs: "server_configs s = (c, c)" "sv_sent s = []" "sv_health s = start_health_server"
    and lim: "max_clients c = arg_maxclients a" "arg_maxclients a \<le> 10000" by blast
  have limits: "server_ok X avail s' \<and> server_configs s' = (c, c)"
    if "run_all (server_step X) es s = Some s'" for s'
    using server.run_inv [OF ok that] server.run_frame [where f = server_configs, OF server_step_configs ok that]
      cs(1) by simp
  have "run_all (server_step X) es s = None \<longleftrightarrow> binding_fails es"
    using server_run_None [OF ok, of es] cs(3) by (simp add: start_health_server_def)
  with limits server_ok_limits [where c = c and X = X and avail = avail] server.run_sent [OF ok] lim cs(2)
  show ?thesis by force
qed

definition sample_libraries :: "(sample_client, nat, sample_manager, nat, nat, nat) libraries" where
  "sample_libraries = \<lparr>
     lib_core = sample_core, lib_rater = sample_rater, lib_semaphore = sample_semaphore,
     lib_urlencode = remove_char (CHR ''&''), lib_prometheus = (\<lambda>_. [])\<rparr>"

theorem server_runs_safe_witness:
  "\<exists>s s'. server_start sample_libraries sample_sha1 (\<lambda>_. replicate 40 0) default_args = Inr s \<and>
    run_all (server_step sample_libraries)
      [On_V3 (V3_Recv 0 (sample_env 1) (Received sample_packet addr_a)),
       On_Health (Health_Bind True),
       On_P2P 1 (P2P_Recv 0 (sample_env 1) (Received stun_packet addr_b)),
       On_Health (Health_Accept 0),
       On_Health (Health_Request 0 2 \<lparr>req_method = GET, path = ''/metrics'', query = None\<rparr>)] s = Some s' \<and>
    dm_len (v3_mappings (v3s_tunnel (sv_v3 s'))) \<le> 200 \<and> length (sv_sent s') \<le> 5 \<and>
    run_all (server_step sample_libraries) [On_Health (Health_Bind False)] s = None"
proof -
  let ?es = "[On_V3 (V3_Recv 0 (sample_env 1) (Received sample_packet addr_a)),
       On_Health (Health_Bind True),
       On_P2P 1 (P2P_Recv 0 (sample_env 1) (Received stun_packet addr_b)),
       On_Health (Health_Accept 0),
       On_Health (Health_Request 0 2 \<lparr>req_method = GET, path = ''/metrics'', query = None\<rparr>)]"
  have "\<exists>c. from_args default_args = Inr c"
    by (simp add: from_args_def default_args_def)
  then obtain s where s:
    "server_start sample_libraries sample_sha1 (\<lambda>_. replicate 40 0) default_args = Inr s"
    by (auto simp: server_start_def)
  have "endpoint_laws (lib_core sample_libraries)" "semaphore_laws (lib_semaphore sample_libraries) id"
    by (simp_all add: sample_libraries_def)
  note safe = server_runs_safe [OF this _ s]
  have "\<not> binding_fails ?es" "binding_fails [On_Health (Health_Bind False) :: nat server_event]" by simp_all
  moreover from this safe [of ?es] obtain s' where "run_all (server_step sample_libraries) ?es s = Some s'"
    by auto
  ultimately show ?thesis
    using safe [of ?es] safe [of "[On_Health (Health_Bind False)]"] s
    by (intro exI [of _ s] exI [of _ s']) (simp add: default_args_def)
qed

end
