(* ===== verification/Lifecycle.thy ===== *)
theory Lifecycle
  imports Server
begin

text \<open>
  The life of the process in \<open>src/main.rs\<close>: the threads of its runtime, the services
  \<open>async_main\<close> spawns, the signal that starts the shutdown, and the drain with its timeout. A
  service's own work is no step here; what counts is when its task ends: because \<open>start\<close> returned
  or because the shutdown receiver in its \<open>select!\<close> completed. A panic that ends
  the process at once, as a failed bind of the health port is, is the matter of \<open>Deployment\<close>.
\<close>

section \<open>Threads\<close>

datatype architecture = Aarch64 | Other_Architecture

text \<open>The worker threads and the blocking threads the builder is given, if it is given any.\<close>

definition runtime_threads :: "architecture \<Rightarrow> nat \<Rightarrow> nat \<Rightarrow> nat option \<times> nat option" where
  "runtime_threads arch workers num_cpus =
     (case arch of
        Aarch64 \<Rightarrow>
          let worker_threads = (if 0 < workers then workers else min num_cpus 4)
          in (Some worker_threads, Some (worker_threads * 2))
      | Other_Architecture \<Rightarrow> (if 0 < workers then Some workers else None, None))"

text \<open>The core a thread is pinned to, by the order in which the threads start.\<close>

definition pinned_cpu :: "nat \<Rightarrow> nat \<Rightarrow> nat" where
  "pinned_cpu tid num_cpus = tid mod num_cpus"

section \<open>Services and their tasks\<close>

datatype service = Stun_Service u16 | V3_Tunnel_Service u16 | V2_Tunnel_Service u16

definition services :: "server_config \<Rightarrow> service list" where
  "services c =
     map Stun_Service (p2p_ports c)
     @ [V3_Tunnel_Service (tunnel_port c), V2_Tunnel_Service (tunnel_v2_port c)]"

datatype task_state = Serving | Returned | Woken

datatype phase = Running | Draining | Finished

record 'w process =
  phase :: phase
  coordinator :: "'w shutdown_coordinator"
  tasks :: "(service \<times> task_state) list"
  health_alive :: bool

definition async_main :: "'w watch \<Rightarrow> args \<Rightarrow> config_error + 'w process" where
  "async_main W a =
     (case from_args a of
        Inl err \<Rightarrow> Inl err
      | Inr c \<Rightarrow> Inr \<lparr>phase = Running, coordinator = coordinator_new W,
                       tasks = map (\<lambda>s. (s, Serving)) (services c), health_alive = True\<rparr>)"

text \<open>
  The steps. A task ends for one of two reasons; the health server watches the shutdown too; a
  signal starts the drain; the drain ends when all tasks have ended or after its thirty seconds,
  and the health server is aborted.
\<close>

inductive main_step :: "'w watch \<Rightarrow> 'w process \<Rightarrow> 'w process \<Rightarrow> bool" for W where
  service_returns:
    "phase p \<noteq> Finished \<Longrightarrow> i < length (tasks p) \<Longrightarrow> tasks p ! i = (s, Serving) \<Longrightarrow>
     main_step W p (p\<lparr>tasks := (tasks p)[i := (s, Returned)]\<rparr>)"
| service_wakes:
    "phase p \<noteq> Finished \<Longrightarrow> i < length (tasks p) \<Longrightarrow> tasks p ! i = (s, Serving) \<Longrightarrow>
     recv_completes W (coordinator p) \<Longrightarrow>
     main_step W p (p\<lparr>tasks := (tasks p)[i := (s, Woken)]\<rparr>)"
| health_wakes:
    "phase p \<noteq> Finished \<Longrightarrow> health_alive p \<Longrightarrow> recv_completes W (coordinator p) \<Longrightarrow>
     main_step W p (p\<lparr>health_alive := False\<rparr>)"
| signal:
    "phase p = Running \<Longrightarrow>
     main_step W p (p\<lparr>phase := Draining, coordinator := shutdown W (coordinator p)\<rparr>)"
| drained:
    "phase p = Draining \<Longrightarrow> \<forall>t \<in> set (tasks p). snd t \<noteq> Serving \<Longrightarrow>
     main_step W p (p\<lparr>phase := Finished, health_alive := False\<rparr>)"
| timed_out:
    "phase p = Draining \<Longrightarrow> main_step W p (p\<lparr>phase := Finished, health_alive := False\<rparr>)"

inductive_cases main_stepE: "main_step W p p'"
inductive_simps finished_step: "main_step W (p\<lparr>phase := Finished\<rparr>) p'"

section \<open>The invariant\<close>

definition process_ok :: "'w watch \<Rightarrow> 'w process \<Rightarrow> bool" where
  "process_ok W p \<longleftrightarrow>
     coordinator_ok W (coordinator p) \<and>
     (phase p = Running \<longleftrightarrow> \<not> is_shutting_down (coordinator p)) \<and>
     (phase p = Running \<longrightarrow> health_alive p \<and> (\<forall>t \<in> set (tasks p). snd t \<noteq> Woken)) \<and>
     (phase p = Finished \<longrightarrow> \<not> health_alive p)"

lemma process_ok_start:
  "watch_laws W \<Longrightarrow> async_main W a = Inr p \<Longrightarrow> process_ok W p"
  using coordinator_new_ok [of W]
  by (auto simp: async_main_def process_ok_def coordinator_new_def split: sum.splits)

lemma shutdown_flag [simp]: "is_shutting_down (shutdown W c)"
  by (simp add: shutdown_def)

lemma set_updD: "x \<in> set (xs[i := y]) \<Longrightarrow> x = y \<or> x \<in> set xs"
  using set_update_subset_insert [of xs i y] by auto

lemma process_ok_step:
  assumes "watch_laws W" and "main_step W p p'" and "process_ok W p"
  shows "process_ok W p'"
  using assms(2)
proof (cases rule: main_step.cases)
  case (service_returns i s)
  with assms(3) show ?thesis by (auto simp: process_ok_def dest!: set_updD)
next
  case (service_wakes i s)
  with assms(3) show ?thesis by (auto simp: process_ok_def coordinator_ok_def)
next
  case health_wakes
  with assms(3) show ?thesis by (auto simp: process_ok_def coordinator_ok_def)
next
  case signal
  with assms(1,3) show ?thesis by (auto simp: process_ok_def shutdown_ok)
next
  case drained
  with assms(3) show ?thesis by (auto simp: process_ok_def)
next
  case timed_out
  with assms(3) show ?thesis by (auto simp: process_ok_def)
qed

lemma process_ok_reachable:
  assumes "watch_laws W" and "(main_step W)\<^sup>*\<^sup>* p p'" and "process_ok W p"
  shows "process_ok W p'"
  using assms(2,3) by induction (auto intro: process_ok_step [OF assms(1)])

text \<open>What is left to do: tasks still serving, the health server, and the phases ahead.\<close>

definition remaining :: "'w process \<Rightarrow> nat" where
  "remaining p =
     length (filter (\<lambda>t. snd t = Serving) (tasks p)) + (if health_alive p then 1 else 0) +
     (case phase p of Running \<Rightarrow> 2 | Draining \<Rightarrow> 1 | Finished \<Rightarrow> 0)"

lemma serving_update:
  assumes "i < length ts" and "ts ! i = (s, Serving)" and "x \<noteq> Serving"
  shows "length (filter (\<lambda>t. snd t = Serving) (ts[i := (s, x)])) <
    length (filter (\<lambda>t. snd t = Serving) ts)"
  using assms
proof (induction ts arbitrary: i)
  case Nil
  then show ?case by simp
next
  case (Cons t ts)
  then show ?case by (cases i) auto
qed

lemma main_step_remaining: "main_step W p p' \<Longrightarrow> remaining p' < remaining p"
  by (erule main_stepE) (auto simp: remaining_def serving_update split: phase.splits)

lemma main_steps_bounded: "(main_step W ^^ n) p p' \<Longrightarrow> remaining p' + n \<le> remaining p"
proof (induction n arbitrary: p')
  case 0
  then show ?case by simp
next
  case (Suc n)
  then obtain q where "(main_step W ^^ n) p q" "main_step W q p'" by auto
  with Suc.IH [of q] main_step_remaining [of W q p'] show ?case by linarith
qed

section \<open>Properties\<close>

lemma tasks_length_step: "main_step W p p' \<Longrightarrow> length (tasks p') = length (tasks p)"
  by (erule main_stepE) auto

lemma tasks_length_reachable:
  "(main_step W)\<^sup>*\<^sup>* p p' \<Longrightarrow> length (tasks p') = length (tasks p)"
  by (induction rule: rtranclp_induct) (auto dest: tasks_length_step)

lemma services_length: "length (services c) \<le> 4"
  by (simp add: services_def p2p_ports_def)

text \<open>While the server drains, the tasks can all end by themselves.\<close>

lemma drain_path:
  assumes "process_ok W p" and "phase p = Draining"
  shows "\<exists>p'. (main_step W)\<^sup>*\<^sup>* p p' \<and> phase p' = Finished \<and> (\<forall>t \<in> set (tasks p'). snd t \<noteq> Serving)"
  using assms
proof (induction "length (filter (\<lambda>t. snd t = Serving) (tasks p))" arbitrary: p rule: less_induct)
  case less
  show ?case
  proof (cases "\<forall>t \<in> set (tasks p). snd t \<noteq> Serving")
    case True
    from main_step.drained [OF less.prems(2) True] True show ?thesis
      by (intro exI [of _ "p\<lparr>phase := Finished, health_alive := False\<rparr>"]) auto
  next
    case False
    then obtain i s where i: "i < length (tasks p)" "tasks p ! i = (s, Serving)"
      by (metis in_set_conv_nth prod.collapse)
    let ?p = "p\<lparr>tasks := (tasks p)[i := (s, Woken)]\<rparr>"
    from less.prems have wakes: "recv_completes W (coordinator p)"
      by (auto simp: process_ok_def coordinator_ok_def)
    have step: "main_step W p ?p"
      by (rule main_step.service_wakes) (use i less.prems wakes in auto)
    have "process_ok W ?p" "phase ?p = Draining"
      using less.prems by (auto simp: process_ok_def)
    from less.hyps [OF _ this] serving_update [OF i, of Woken] obtain p' where
      "(main_step W)\<^sup>*\<^sup>* ?p p'" "phase p' = Finished" "\<forall>t \<in> set (tasks p'). snd t \<noteq> Serving" by auto
    with step show ?thesis by (meson converse_rtranclp_into_rtranclp)
  qed
qed

text \<open>
  C22: Shutdown always ends. Once the signal has arrived, any sequence of steps of the process has
  length at most six, one that cannot go on has finished, with the health server stopped, and from
  every point of the drain all services can end by themselves, without the timeout.
\<close>

theorem shutdown_terminates:
  assumes "watch_laws W" and "async_main W a = Inr p0" and "(main_step W)\<^sup>*\<^sup>* p0 p"
    and "phase p = Draining"
  shows "(\<forall>n p'. (main_step W ^^ n) p p' \<longrightarrow> n \<le> 6) \<and>
    (\<forall>p'. (main_step W)\<^sup>*\<^sup>* p p' \<and> (\<nexists>q. main_step W p' q) \<longrightarrow>
       phase p' = Finished \<and> \<not> health_alive p') \<and>
    (\<exists>p'. (main_step W)\<^sup>*\<^sup>* p p' \<and> phase p' = Finished \<and> (\<forall>t \<in> set (tasks p'). snd t \<noteq> Serving))"
proof (intro conjI allI impI)
  have ok: "process_ok W p"
    using assms by (blast intro: process_ok_reachable process_ok_start)
  show "\<exists>p'. (main_step W)\<^sup>*\<^sup>* p p' \<and> phase p' = Finished \<and> (\<forall>t \<in> set (tasks p'). snd t \<noteq> Serving)"
    by (rule drain_path [OF ok assms(4)])
  have "length (tasks p) \<le> 4"
    using assms(2) tasks_length_reachable [OF assms(3)] services_length
    by (auto simp: async_main_def split: sum.splits)
  then have "length (filter (\<lambda>t. snd t = Serving) (tasks p)) \<le> 4"
    using length_filter_le le_trans by blast
  with assms(4) have "remaining p \<le> 6" by (simp add: remaining_def)
  then show "n \<le> 6" if "(main_step W ^^ n) p p'" for n p'
    using main_steps_bounded [OF that] by linarith
  fix p' assume p': "(main_step W)\<^sup>*\<^sup>* p p' \<and> (\<nexists>q. main_step W p' q)"
  then have ok': "process_ok W p'" using ok assms(1) by (blast intro: process_ok_reachable)
  have "phase p' \<noteq> Running" "phase p' \<noteq> Draining"
    using p' main_step.signal main_step.timed_out by blast+
  then show "phase p' = Finished" by (cases "phase p'") auto
  with ok' show "\<not> health_alive p'" by (simp add: process_ok_def)
qed

lemma sample_process:
  obtains p where "async_main sample_watch default_args = Inr p" "phase p = Running"
    "length (tasks p) = 4"
  by (simp add: async_main_def from_args_def default_args_def services_def p2p_ports_def)

theorem shutdown_terminates_witness:
  "\<exists>p0 p. async_main sample_watch default_args = Inr p0 \<and> main_step sample_watch p0 p \<and>
     phase p = Draining \<and> (\<forall>n p'. (main_step sample_watch ^^ n) p p' \<longrightarrow> n \<le> 6)"
proof -
  obtain p0 where p0: "async_main sample_watch default_args = Inr p0" "phase p0 = Running"
    using sample_process by blast
  let ?p = "p0\<lparr>phase := Draining, coordinator := shutdown sample_watch (coordinator p0)\<rparr>"
  have step: "main_step sample_watch p0 ?p" by (rule main_step.signal [OF p0(2)])
  have "phase ?p = Draining" by simp
  from shutdown_terminates [OF sample_watch_laws p0(1) r_into_rtranclp [of "main_step sample_watch", OF step] this]
    p0(1) step show ?thesis by auto
qed

text \<open>
  Nothing stops before the signal. As long as no signal has arrived, whatever has happened in
  between, no service has been woken by the shutdown, none can be, and the health server is
  alive; a service can only be gone because its own \<open>start\<close> returned.
\<close>

theorem no_shutdown_before_signal:
  assumes "watch_laws W" and "async_main W a = Inr p0" and "(main_step W)\<^sup>*\<^sup>* p0 p"
    and "phase p = Running"
  shows "(\<forall>t \<in> set (tasks p). snd t = Serving \<or> snd t = Returned) \<and> health_alive p \<and>
    \<not> recv_completes W (coordinator p)"
proof -
  have "process_ok W p"
    using assms by (blast intro: process_ok_reachable process_ok_start)
  with assms(4) have "health_alive p" "\<forall>t \<in> set (tasks p). snd t \<noteq> Woken"
    "\<not> recv_completes W (coordinator p)"
    by (auto simp: process_ok_def coordinator_ok_def)
  then show ?thesis by (metis task_state.exhaust)
qed

theorem no_shutdown_before_signal_witness:
  "\<exists>p. async_main sample_watch default_args = Inr p \<and> health_alive p \<and>
     \<not> recv_completes sample_watch (coordinator p)"
proof -
  obtain p where p: "async_main sample_watch default_args = Inr p" "phase p = Running"
    using sample_process by blast
  from no_shutdown_before_signal [OF sample_watch_laws p(1) rtranclp.rtrancl_refl p(2)] p(1)
  show ?thesis by blast
qed

text \<open>
  Threads. On a machine with at least one core the runtime is never built with zero worker or
  blocking threads, an ARM server with no setting uses at most four, and every thread is pinned
  to a core that exists.
\<close>

lemma runtime_threads_bounds:
  assumes "0 < num_cpus"
  shows "(\<forall>n. fst (runtime_threads arch workers num_cpus) = Some n \<longrightarrow> 0 < n) \<and>
    (\<forall>n. snd (runtime_threads arch workers num_cpus) = Some n \<longrightarrow> 0 < n) \<and>
    (\<exists>n \<le> 4. runtime_threads Aarch64 0 num_cpus = (Some n, Some (2 * n))) \<and>
    pinned_cpu tid num_cpus < num_cpus"
  using assms by (cases arch) (auto simp: runtime_threads_def pinned_cpu_def Let_def)

end
