(* ===== verification/Interleaving.thy ===== *)
theory Interleaving
  imports Prelude "HOL-Library.Multiset"
begin

text \<open>
  What the fine grained models of the two tunnels share: histories of labelled steps, the store of
  client objects behind a map of addresses (a \<open>DashMap\<close> of \<open>Arc\<close>s), and three contracts of
  interleaved programs: bounds that are checked before they are used, threads whose jobs are
  bounded whatever the others do, and relays that send nothing of their own.
\<close>

section \<open>Histories\<close>

inductive labelled_path :: "('l \<Rightarrow> 's \<Rightarrow> 's \<Rightarrow> bool) \<Rightarrow> 'l list \<Rightarrow> 's \<Rightarrow> 's \<Rightarrow> bool"
  for step where
  stop: "labelled_path step [] s s"
| go: "step l s s1 \<Longrightarrow> labelled_path step ls s1 s' \<Longrightarrow> labelled_path step (l # ls) s s'"

inductive_simps labelled_path_simps:
  "labelled_path step [] s s'"
  "labelled_path step (l # ls) s s'"

lemma labelled_path_append:
  "labelled_path step ls s s1 \<Longrightarrow> labelled_path step ls' s1 s' \<Longrightarrow> labelled_path step (ls @ ls') s s'"
  by (induction rule: labelled_path.induct) (auto intro: labelled_path.go)

lemma labelled_path_single: "step l s s' \<Longrightarrow> labelled_path step [l] s s'"
  by (blast intro: labelled_path.intros)

lemma labelled_path_invariant:
  assumes "labelled_path step ls s s'" and "I s"
    and "\<And>l s s'. I s \<Longrightarrow> step l s s' \<Longrightarrow> I s'"
  shows "I s'"
  using assms(1,2) by induction (auto intro: assms(3))

text \<open>
  When every thread has a function for its next step, which does nothing while the thread is idle,
  the threads can run in the order of any list, and one of them can run alone.
\<close>

lemma labelled_path_fold:
  assumes "\<And>w s. w \<in> set ws \<Longrightarrow> f w s = s \<or> step (own w) s (f w s)"
  shows "\<exists>ls. labelled_path step ls s (fold f ws s) \<and> set ls \<subseteq> own ` set ws \<and> length ls \<le> length ws"
  using assms
proof (induction ws arbitrary: s)
  case Nil
  then show ?case by (auto intro: labelled_path.stop)
next
  case (Cons w ws)
  then obtain ls where ls: "labelled_path step ls (f w s) (fold f ws (f w s))" "set ls \<subseteq> own ` set ws"
    "length ls \<le> length ws" by (metis list.set_intros(2))
  from Cons.prems [of w s] consider "f w s = s" | "step (own w) s (f w s)" by auto
  then show ?case
  proof cases
    case 1
    with ls show ?thesis by (intro exI [of _ ls]) auto
  next
    case 2
    with ls show ?thesis by (intro exI [of _ "own w # ls"]) (auto intro: labelled_path.go)
  qed
qed

lemma labelled_path_funpow:
  assumes "\<And>s. f s = s \<or> step l s (f s)"
  shows "\<exists>ls. labelled_path step ls s ((f ^^ n) s) \<and> set ls \<subseteq> {l} \<and> length ls \<le> n"
  using labelled_path_fold [of "replicate n ()" "\<lambda>_. f" step "\<lambda>_. l" s] assms
  by (auto simp: fold_replicate image_subset_iff dest: subset_singletonD)

section \<open>Objects behind a map of addresses\<close>

text \<open>Every address is one of an object, and no object is in the map twice.\<close>

definition refs_ok :: "('k, nat) fmap \<Rightarrow> 'c list \<Rightarrow> bool" where
  "refs_ok refs heap \<longleftrightarrow>
     (\<forall>k a. fmlookup refs k = Some a \<longrightarrow> a < length heap) \<and>
     (\<forall>k k' a. fmlookup refs k = Some a \<longrightarrow> fmlookup refs k' = Some a \<longrightarrow> k = k')"

text \<open>The map of clients that the addresses stand for.\<close>

definition deref :: "('k, nat) fmap \<Rightarrow> 'c list \<Rightarrow> ('k, 'c) fmap" where
  "deref refs heap = fmmap (\<lambda>a. heap ! a) refs"

lemma refs_okD:
  assumes "refs_ok refs heap"
  shows "fmlookup refs k = Some a \<Longrightarrow> a < length heap"
    and "fmlookup refs k = Some a \<Longrightarrow> fmlookup refs k' = Some a \<Longrightarrow> k = k'"
  using assms unfolding refs_ok_def by blast+

lemma refs_ok_empty [simp]: "refs_ok fmempty heap"
  by (simp add: refs_ok_def)

lemma refs_ok_update [simp]: "refs_ok refs (heap[a := c]) = refs_ok refs heap"
  by (simp add: refs_ok_def)

lemma refs_ok_drop: "refs_ok refs heap \<Longrightarrow> refs_ok (fmdrop k refs) heap"
  by (simp add: refs_ok_def)

lemma refs_ok_new: "refs_ok refs heap \<Longrightarrow> refs_ok (fmupd k (length heap) refs) (heap @ [c])"
  by (fastforce simp: refs_ok_def)

lemma deref_lookup [simp]: "fmlookup (deref refs heap) k = map_option (\<lambda>a. heap ! a) (fmlookup refs k)"
  by (simp add: deref_def)

lemma deref_empty [simp]: "deref fmempty heap = fmempty"
  by (simp add: deref_def)

lemma deref_len [simp]: "dm_len (deref refs heap) = dm_len refs"
  by (simp add: deref_def dm_len_def)

lemma dm_len_fmupd_any: "dm_len (fmupd k c (deref refs heap)) = dm_len (fmupd k a refs)"
  by (simp add: dm.len_insert)

lemma deref_drop: "deref (fmdrop k refs) heap = fmdrop k (deref refs heap)"
  by (rule fmap_ext) simp

text \<open>Writing through an address changes the client of that id and no other.\<close>

lemma deref_write:
  assumes "refs_ok refs heap" and "fmlookup refs k = Some a"
  shows "deref refs (heap[a := f (heap ! a)]) = dm_modify k f (deref refs heap)"
proof (rule fmap_ext)
  fix k'
  from refs_okD [OF assms(1)] assms(2)
  show "fmlookup (deref refs (heap[a := f (heap ! a)])) k' = fmlookup (dm_modify k f (deref refs heap)) k'"
    by (cases "fmlookup refs k'") (auto simp: dm.get_modify nth_list_update)
qed

lemma deref_new:
  assumes "refs_ok refs heap"
  shows "deref (fmupd k (length heap) refs) (heap @ [c]) = fmupd k c (deref refs heap)"
proof (rule fmap_ext)
  fix k'
  from refs_okD(1) [OF assms, of k']
  show "fmlookup (deref (fmupd k (length heap) refs) (heap @ [c])) k' = fmlookup (fmupd k c (deref refs heap)) k'"
    by (cases "fmlookup refs k'") (auto simp: nth_append)
qed

section \<open>Bounds that are checked before they are used\<close>

text \<open>
  A program whose threads check a size and act on it later can pass the limit. How far is bounded
  when the size together with what the threads have been promised is.
\<close>

locale promised_room =
  fixes step :: "'l \<Rightarrow> 's \<Rightarrow> 's \<Rightarrow> bool"
    and good :: "'s \<Rightarrow> bool"
    and size_of :: "'s \<Rightarrow> nat"
    and promised :: "'s \<Rightarrow> nat"
    and bound :: nat
  assumes size_promised: "size_of s \<le> promised s"
    and keeps_good: "step l s s' \<Longrightarrow> good s \<Longrightarrow> good s'"
    and keeps_bound: "step l s s' \<Longrightarrow> good s \<Longrightarrow> promised s \<le> bound \<Longrightarrow> promised s' \<le> bound"
begin

lemma bounded:
  assumes "labelled_path step ls s s'" and "good s" and "promised s \<le> bound"
  shows "size_of s' \<le> bound"
proof -
  have "good s' \<and> promised s' \<le> bound"
    by (rule labelled_path_invariant [where I = "\<lambda>s. good s \<and> promised s \<le> bound", OF assms(1)])
       (use assms(2,3) keeps_good keeps_bound in auto)
  with size_promised [of s'] show ?thesis by simp
qed

end

section \<open>Threads with a bounded number of operations\<close>

text \<open>
  \<open>left w s\<close> bounds the steps thread \<open>w\<close> still has to take for its job. Only a new job raises it;
  a step of its own lowers it, and no other thread does anything to it.
\<close>

locale wait_free =
  fixes step :: "'l \<Rightarrow> 's \<Rightarrow> 's \<Rightarrow> bool"
    and begins :: "'w \<Rightarrow> 'l \<Rightarrow> bool"
    and own :: "'w \<Rightarrow> 'l"
    and left :: "'w \<Rightarrow> 's \<Rightarrow> nat"
  assumes left_step:
    "step l s s' \<Longrightarrow> \<not> begins w l \<Longrightarrow> (if l = own w then 1 else 0) + left w s' \<le> left w s"
begin

lemma own_steps:
  assumes "labelled_path step ls s s'" and "\<forall>l \<in> set ls. \<not> begins w l"
  shows "count_list ls (own w) + left w s' \<le> left w s"
  using assms
proof induction
  case (go l s s1 ls s')
  then show ?case using left_step [OF go.hyps(1), of w] by (auto split: if_splits)
qed simp

end

section \<open>Relays\<close>

text \<open>
  A label brings in packets and gives away who sent them; a packet that is pending may still be sent,
  once. \<open>known A s\<close> says that all addresses the state knows are in \<open>A\<close>.
\<close>

locale relaying =
  fixes step :: "'l \<Rightarrow> 's \<Rightarrow> 's \<Rightarrow> bool"
    and brings :: "'l \<Rightarrow> 'p multiset"
    and sources :: "'l \<Rightarrow> 'a set"
    and sent pending :: "'s \<Rightarrow> 'p multiset"
    and known :: "'a set \<Rightarrow> 's \<Rightarrow> bool"
  assumes relay_step: "step l s s' \<Longrightarrow> sent s' + pending s' \<subseteq># sent s + pending s + brings l"
    and known_step: "step l s s' \<Longrightarrow> known A s \<Longrightarrow> known (A \<union> sources l) s'"
begin

lemma path_relays:
  assumes "labelled_path step ls s s'"
  shows "sent s' + pending s' \<subseteq># sent s + pending s + (\<Sum>l \<leftarrow> ls. brings l)"
  using assms
proof induction
  case (go l s s1 ls s')
  note go.IH
  also have "sent s1 + pending s1 + (\<Sum>l \<leftarrow> ls. brings l) \<subseteq>#
      sent s + pending s + brings l + (\<Sum>l \<leftarrow> ls. brings l)"
    using relay_step [OF go.hyps(1)] by (rule subset_mset.add_right_mono)
  finally show ?case by (simp add: ac_simps)
qed simp

lemma path_sends_received:
  assumes "labelled_path step ls s s'" and "sent s = {#}" and "pending s = {#}"
  shows "sent s' \<subseteq># (\<Sum>l \<leftarrow> ls. brings l)"
proof -
  have "sent s' \<subseteq># sent s' + pending s'" by simp
  also have "\<dots> \<subseteq># (\<Sum>l \<leftarrow> ls. brings l)" using path_relays [OF assms(1)] assms(2,3) by simp
  finally show ?thesis .
qed

lemma path_known:
  assumes "labelled_path step ls s s'" and "known A s"
  shows "known (A \<union> (\<Union>l \<in> set ls. sources l)) s'"
  using assms
proof (induction arbitrary: A)
  case (go l s s1 ls s')
  from go.IH [OF known_step [OF go.hyps(1) go.prems]] show ?case by (simp add: Un_assoc)
qed simp

end

end
