(* ===== verification/Deployment.thy ===== *)
theory Deployment
  imports Lifecycle Interleaving
begin

text \<open>
  The two views of \<open>src/main.rs\<close> put together: the life of the process (\<open>Lifecycle\<close>) decides which
  of the services (\<open>Server\<close>) can still do something. A service runs as a task that owns a \<open>JoinSet\<close>
  of its workers, its timers and, for version 2, its accept loop. When that task ends, the set is
  dropped and the workers are told to stop; each stops when it next waits, so there is a while in
  which they still take packets. The connections of the HTTP server and of the health server are
  tasks of their own, outside every set, and go on until the process ends. A panic of any task ends
  the process at once: the release profile of the crate sets \<open>panic = "abort"\<close>.
\<close>

section \<open>The state and its steps\<close>

text \<open>
  \<open>dep_gone\<close> are the services, by their place in \<open>tasks\<close>, whose workers have all stopped;
  \<open>dep_aborted\<close> says that a panic has ended the process.
\<close>

record ('w, 'c, 'q, 'm, 's) deployment =
  dep_process :: "'w process"
  dep_server :: "('c, 'q, 'm, 's) server"
  dep_gone :: "nat set"
  dep_aborted :: bool

definition deployment_start ::
    "'w watch \<Rightarrow> ('c, 'q, 'm, 'g, 'i, 's) libraries \<Rightarrow> (u8 list \<Rightarrow> u8 list) \<Rightarrow> (nat \<Rightarrow> u8 list) \<Rightarrow> args
       \<Rightarrow> config_error + ('w, 'c, 'q, 'm, 's) deployment" where
  "deployment_start W X sha1 random a =
     (case async_main W a of
        Inl err \<Rightarrow> Inl err
      | Inr p \<Rightarrow>
          (case server_start X sha1 random a of
             Inl err \<Rightarrow> Inl err
           | Inr s \<Rightarrow> Inr \<lparr>dep_process = p, dep_server = s, dep_gone = {}, dep_aborted = False\<rparr>))"

text \<open>
  What an event needs: the place of the service whose task or workers have to be there, in the order
  in which \<open>async_main\<close> spawns them (the STUN services, version 3, version 2), or nothing for what
  happens on an open connection. The health server's own loop guards what it still accepts.
\<close>

fun needs :: "('c, 'q, 'm, 's) server \<Rightarrow> 'i server_event \<Rightarrow> nat option" where
  "needs s (On_P2P n e) = Some n"
| "needs s (On_V3 e) = Some (length (sv_p2p s))"
| "needs s (On_V2 e) =
     (case e of V2_Http k E draw req \<Rightarrow> None | V2_Close k \<Rightarrow> None | _ \<Rightarrow> Some (Suc (length (sv_p2p s))))"
| "needs s (On_Health e) = None"

definition enabled :: "('w, 'c, 'q, 'm, 's) deployment \<Rightarrow> 'i server_event \<Rightarrow> bool" where
  "enabled d e \<longleftrightarrow>
     phase (dep_process d) \<noteq> Finished \<and> \<not> dep_aborted d \<and>
     e \<noteq> On_Health Health_Shutdown \<and> e \<noteq> On_Health Health_Abort \<and>
     (case needs (dep_server d) e of
        None \<Rightarrow> True
      | Some n \<Rightarrow> n < length (tasks (dep_process d)) \<and> n \<notin> dep_gone d)"

text \<open>
  A step is labelled with the events of the server it stands for. The health server's loop breaks in
  the step in which its task wakes, which it can once it has bound its port, and it is aborted,
  wherever it is, together with the process. An event the server panics of ends the process.
\<close>

definition health_end :: "'w process \<Rightarrow> health_event" where
  "health_end p = (if phase p = Finished then Health_Abort else Health_Shutdown)"

inductive deployment_step ::
    "'w watch \<Rightarrow> ('c, 'q, 'm, 'g, 'i, 's) libraries \<Rightarrow> 'i server_event list
       \<Rightarrow> ('w, 'c, 'q, 'm, 's) deployment \<Rightarrow> ('w, 'c, 'q, 'm, 's) deployment \<Rightarrow> bool" for W X where
  lives:
    "\<not> dep_aborted d \<Longrightarrow> main_step W (dep_process d) p \<Longrightarrow>
     health_alive p = health_alive (dep_process d) \<Longrightarrow>
     deployment_step W X [] d (d\<lparr>dep_process := p\<rparr>)"
| health_ends:
    "\<not> dep_aborted d \<Longrightarrow> main_step W (dep_process d) p \<Longrightarrow>
     health_alive p \<noteq> health_alive (dep_process d) \<Longrightarrow>
     phase p = Finished \<or> hs_loop (sv_health (dep_server d)) \<noteq> Binding \<Longrightarrow>
     server_step X (On_Health (health_end p)) (dep_server d) = Some s \<Longrightarrow>
     deployment_step W X [On_Health (health_end p)] d (d\<lparr>dep_process := p, dep_server := s\<rparr>)"
| workers_stop:
    "\<not> dep_aborted d \<Longrightarrow> phase (dep_process d) \<noteq> Finished \<Longrightarrow> n < length (tasks (dep_process d)) \<Longrightarrow>
     snd (tasks (dep_process d) ! n) \<noteq> Serving \<Longrightarrow>
     deployment_step W X [] d (d\<lparr>dep_gone := Set.insert n (dep_gone d)\<rparr>)"
| serves:
    "enabled d e \<Longrightarrow> server_step X e (dep_server d) = Some s \<Longrightarrow>
     deployment_step W X [e] d (d\<lparr>dep_server := s\<rparr>)"
| aborts:
    "enabled d e \<Longrightarrow> server_step X e (dep_server d) = None \<Longrightarrow>
     deployment_step W X [] d (d\<lparr>dep_aborted := True\<rparr>)"

inductive_cases deployment_stepE: "deployment_step W X l d d'"

abbreviation deployment_run ::
    "'w watch \<Rightarrow> ('c, 'q, 'm, 'g, 'i, 's) libraries \<Rightarrow> 'i server_event list list
       \<Rightarrow> ('w, 'c, 'q, 'm, 's) deployment \<Rightarrow> ('w, 'c, 'q, 'm, 's) deployment \<Rightarrow> bool" where
  "deployment_run W X \<equiv> labelled_path (deployment_step W X)"

section \<open>The two projections\<close>

lemma deployment_step_projects:
  assumes "deployment_step W X l d d'"
  shows "run_all (server_step X) l (dep_server d) = Some (dep_server d')"
    and "(main_step W)\<^sup>=\<^sup>= (dep_process d) (dep_process d')"
  using assms by (auto elim!: deployment_stepE)

text \<open>Every history is a run of the server, and its process takes the steps of \<open>main\<close>.\<close>

lemma deployment_run_projects:
  assumes "deployment_run W X ls d d'"
  shows "run_all (server_step X) (concat ls) (dep_server d) = Some (dep_server d')"
    and "(main_step W)\<^sup>*\<^sup>* (dep_process d) (dep_process d')"
proof -
  have "run_all (server_step X) (concat ls) (dep_server d) = Some (dep_server d') \<and>
      (main_step W)\<^sup>*\<^sup>* (dep_process d) (dep_process d')"
    using assms
  proof induction
    case (stop s)
    then show ?case by simp
  next
    case (go l s s1 ls s')
    from deployment_step_projects [OF go.hyps(1)] go.IH show ?case
      by (auto simp: run_all_append intro: converse_rtranclp_into_rtranclp)
  qed
  then show "run_all (server_step X) (concat ls) (dep_server d) = Some (dep_server d')"
    and "(main_step W)\<^sup>*\<^sup>* (dep_process d) (dep_process d')" by blast+
qed

section \<open>The invariant\<close>

text \<open>
  The server and the process are well formed, the tasks are those of the server's services, only a
  service whose task has ended is gone, the health server's loop stands when and only when the
  process says that it does, and the process has aborted only if the health port is still unbound.
\<close>

definition deployment_ok ::
    "'w watch \<Rightarrow> ('c, 'q, 'm, 'g, 'i, 's) libraries \<Rightarrow> ('s \<Rightarrow> nat) \<Rightarrow> ('w, 'c, 'q, 'm, 's) deployment \<Rightarrow> bool" where
  "deployment_ok W X avail d \<longleftrightarrow>
     server_ok X avail (dep_server d) \<and> process_ok W (dep_process d) \<and>
     length (tasks (dep_process d)) = length (sv_p2p (dep_server d)) + 2 \<and>
     (\<forall>n \<in> dep_gone d. n < length (tasks (dep_process d)) \<and> snd (tasks (dep_process d) ! n) \<noteq> Serving) \<and>
     (health_alive (dep_process d) \<longleftrightarrow> hs_loop (sv_health (dep_server d)) \<noteq> Stopped) \<and>
     (dep_aborted d \<longrightarrow> hs_loop (sv_health (dep_server d)) = Binding)"

lemma server_step_health_end:
  assumes "phase p = Finished \<or> hs_loop (sv_health s) \<noteq> Binding"
  shows "server_step X (On_Health (health_end p)) s = Some (s\<lparr>sv_health := (sv_health s)\<lparr>hs_loop := Stopped\<rparr>\<rparr>)"
  using assms by (auto simp: server_step.simps health_end_def)

text \<open>No other event stops the health server's loop or starts it again.\<close>

lemma server_step_loop:
  assumes "server_step X e s = Some s'" and "e \<noteq> On_Health Health_Shutdown" and "e \<noteq> On_Health Health_Abort"
  shows "hs_loop (sv_health s') = Stopped \<longleftrightarrow> hs_loop (sv_health s) = Stopped"
proof (cases e)
  case (On_Health h)
  with assms show ?thesis
    by (cases h) (auto simp: server_step.simps case_prod_beta split: if_splits)
qed (use assms in \<open>auto simp: server_step.simps split: if_splits\<close>)

lemma server_step_services:
  "server_step X e s = Some s' \<Longrightarrow> length (sv_p2p s') = length (sv_p2p s)"
  by (cases e) (auto simp: server_step.simps split: if_splits)

lemma main_step_keeps_ended:
  assumes "main_step W p p'" and "n < length (tasks p)" and "snd (tasks p ! n) \<noteq> Serving"
  shows "snd (tasks p' ! n) \<noteq> Serving"
  using assms by (auto elim!: main_stepE simp: nth_list_update split: if_splits)

lemma main_step_health: "main_step W p p' \<Longrightarrow> health_alive p' \<Longrightarrow> health_alive p"
  by (auto elim!: main_stepE)

lemma deployment_step_ok:
  assumes W: "watch_laws W" and step: "deployment_step W X l d d'" and ok: "deployment_ok W X avail d"
  shows "deployment_ok W X avail d'"
  using step
proof (cases rule: deployment_step.cases)
  case (lives p)
  with ok process_ok_step [OF W lives(4)] show ?thesis
    by (auto simp: deployment_ok_def tasks_length_step dest: main_step_keeps_ended)
next
  case (health_ends p s)
  have "server_ok X avail s"
    using server.step_inv [OF _ health_ends(7)] ok by (auto simp: deployment_ok_def)
  with health_ends ok process_ok_step [OF W health_ends(4)] main_step_health [OF health_ends(4)]
    server_step_health_end [OF health_ends(6), of X]
  show ?thesis
    by (auto simp: deployment_ok_def tasks_length_step dest: main_step_keeps_ended)
next
  case (workers_stop n)
  with ok show ?thesis by (auto simp: deployment_ok_def)
next
  case (serves e s)
  have "server_ok X avail s"
    using server.step_inv [OF _ serves(4)] ok by (auto simp: deployment_ok_def)
  with serves ok server_step_loop [OF serves(4)] server_step_services [OF serves(4)] show ?thesis
    by (auto simp: deployment_ok_def enabled_def)
next
  case (aborts e)
  with ok server_step_None [of X avail "dep_server d" e] show ?thesis
    by (auto simp: deployment_ok_def bind_fails_def)
qed

lemma deployment_run_ok:
  assumes "watch_laws W" and "deployment_run W X ls d d'" and "deployment_ok W X avail d"
  shows "deployment_ok W X avail d'"
  using assms(2,3) by (rule labelled_path_invariant) (rule deployment_step_ok [OF assms(1)])

lemma deployment_start_parts:
  assumes "deployment_start W X sha1 random a = Inr d"
  shows "async_main W a = Inr (dep_process d)" and "server_start X sha1 random a = Inr (dep_server d)"
    and "dep_gone d = {}" and "\<not> dep_aborted d"
  using assms by (auto simp: deployment_start_def split: sum.splits)

lemma deployment_start_ok:
  assumes "watch_laws W" and "endpoint_laws (lib_core X)"
    and "semaphore_laws (lib_semaphore X) avail" and "\<And>w. length (random w) = 40"
    and "deployment_start W X sha1 random a = Inr d"
  shows "deployment_ok W X avail d"
proof -
  note parts = deployment_start_parts [OF assms(5)]
  from server_start_configs [OF parts(2)] obtain c where
    c: "from_args a = Inr c" "sv_health (dep_server d) = start_health_server"
      "length (sv_p2p (dep_server d)) = length (p2p_ports c)" by blast
  have "length (tasks (dep_process d)) = length (sv_p2p (dep_server d)) + 2" "health_alive (dep_process d)"
    using parts(1) c by (auto simp: async_main_def services_def dest!: sym [of _ "dep_process d"])
  with c(2) parts(3,4) show ?thesis
    by (simp add: deployment_ok_def server_start_ok [OF assms(2-4) parts(2)]
        process_ok_start [OF assms(1) parts(1)] start_health_server_def)
qed

section \<open>Safety of the whole\<close>

text \<open>Nothing happens in a process that has aborted.\<close>

lemma aborted_is_final: "dep_aborted d \<Longrightarrow> \<not> deployment_step W X l d d'"
  by (auto elim!: deployment_stepE simp: enabled_def)

text \<open>
  C2: The server is safe for as long as its process lives, one handler call at a time. From accepted
  arguments, through any mixture of whole handler calls with services that fail, a shutdown signal,
  a drain and its timeout: every enabled event can happen, except that a failed bind of the health
  port, and nothing else, aborts the process, which then does nothing any more. Both tunnels stay
  within the client limit of the arguments and the gauges show their clients (what handler calls
  that overlap in time do to them is stated by the race properties), at most one datagram is sent
  for every event and no more bytes than were received, and the health server's task is there
  exactly while the process holds it alive, which it does until the signal.
\<close>

theorem deployment_runs_safe:
  assumes "watch_laws W" and "endpoint_laws (lib_core X)"
    and "semaphore_laws (lib_semaphore X) avail" and "\<And>w. length (random w) = 40"
    and "deployment_start W X sha1 random a = Inr d0" and "deployment_run W X ls d0 d"
  shows "(\<forall>e. enabled d e \<longrightarrow>
      (if bind_fails e (dep_server d) then deployment_step W X [] d (d\<lparr>dep_aborted := True\<rparr>)
       else \<exists>d'. deployment_step W X [e] d d')) \<and>
    (dep_aborted d \<longrightarrow> hs_loop (sv_health (dep_server d)) = Binding \<and> (\<nexists>l d'. deployment_step W X l d d')) \<and>
    dm_len (v3_mappings (v3s_tunnel (sv_v3 (dep_server d)))) \<le> arg_maxclients a \<and>
    dm_len (v2_mappings (v2s_tunnel (sv_v2 (dep_server d)))) \<le> arg_maxclients a \<and>
    v3_active_clients (sv_metrics (dep_server d)) = dm_len (v3_mappings (v3s_tunnel (sv_v3 (dep_server d)))) \<and>
    v2_active_clients (sv_metrics (dep_server d)) = dm_len (v2_mappings (v2s_tunnel (sv_v2 (dep_server d)))) \<and>
    length (sv_sent (dep_server d)) \<le> length (concat ls) \<and>
    payload_bytes (sv_sent (dep_server d)) \<le> received_bytes server_rx (concat ls) \<and>
    (health_alive (dep_process d) \<longleftrightarrow> hs_loop (sv_health (dep_server d)) \<noteq> Stopped) \<and>
    (phase (dep_process d) = Running \<longrightarrow> health_alive (dep_process d))"
proof -
  note parts = deployment_start_parts [OF assms(5)]
  from server_start_configs [OF parts(2)] obtain c where
    c: "server_configs (dep_server d0) = (c, c)" "sv_sent (dep_server d0) = []"
      "max_clients c = arg_maxclients a" by blast
  have ok0: "server_ok X avail (dep_server d0)" by (rule server_start_ok [OF assms(2-4) parts(2)])
  note run = deployment_run_projects(1) [OF assms(6)]
  have ok: "deployment_ok W X avail d"
    by (rule deployment_run_ok [OF assms(1,6) deployment_start_ok [OF assms(1-5)]])
  then have okd: "server_ok X avail (dep_server d)" by (simp add: deployment_ok_def)
  have "server_configs (dep_server d) = (c, c)"
    using server.run_frame [where f = server_configs, OF server_step_configs ok0 run] c(1) by simp
  note limits = server_ok_limits [OF okd this, unfolded c(3)]
  have events: "\<forall>e. enabled d e \<longrightarrow>
      (if bind_fails e (dep_server d) then deployment_step W X [] d (d\<lparr>dep_aborted := True\<rparr>)
       else \<exists>d'. deployment_step W X [e] d d')"
    using server_step_ok [OF okd] deployment_step.serves [of d _ X _ W]
      deployment_step.aborts [of d _ X W] bind_fails_dies [of _ "dep_server d" X] by (metis (no_types))
  with limits ok server.run_sent [OF ok0 run] c(2) aborted_is_final [of d W X] show ?thesis
    by (auto simp: deployment_ok_def process_ok_def)
qed

section \<open>Without services\<close>

text \<open>Where all services are gone, an event can only be one of an open connection.\<close>

definition all_gone :: "('w, 'c, 'q, 'm, 's) deployment \<Rightarrow> bool" where
  "all_gone d \<longleftrightarrow> (\<forall>n < length (tasks (dep_process d)). n \<in> dep_gone d)"

lemma all_gone_needs: "all_gone d \<Longrightarrow> enabled d e \<Longrightarrow> needs (dep_server d) e = None"
  by (auto simp: all_gone_def enabled_def split: option.splits)

text \<open>What the services have done so far: the datagrams, the clients of version 3 and the STUN services.\<close>

definition traffic ::
    "('c, 'q, 'm, 's) server \<Rightarrow> datagram list \<times> ('c, 'q, 'm) v3_system \<times> 'm p2p_system list" where
  "traffic s = (sv_sent s, sv_v3 s, sv_p2p s)"

lemma server_step_quiet:
  assumes "server_ok X avail s" and "server_step X e s = Some s'" and "needs s e = None"
  shows "traffic s' = traffic s"
proof (cases e)
  case (On_V2 v)
  with assms(3) have quiet: "v2_rx v = None" by (cases v) auto
  show ?thesis
    by (rule server_step_v2 [OF assms(1), of v])
       (use assms(2) On_V2 quiet in \<open>auto simp: answers_def traffic_def\<close>)
next
  case (On_Health h)
  with assms(2) show ?thesis by (auto simp: server_step.simps traffic_def)
qed (use assms(3) in auto)

lemma deployment_step_quiet:
  assumes "deployment_ok W X avail d" and "all_gone d" and "deployment_step W X l d d'"
  shows "all_gone d'" and "traffic (dep_server d') = traffic (dep_server d)"
proof -
  from assms(1) have ok: "server_ok X avail (dep_server d)" by (simp add: deployment_ok_def)
  show "all_gone d'"
    using assms(2,3) by (auto elim!: deployment_stepE simp: all_gone_def dest: tasks_length_step)
  show "traffic (dep_server d') = traffic (dep_server d)"
    using assms(3)
  proof (cases rule: deployment_step.cases)
    case (serves e s)
    from server_step_quiet [OF ok serves(4) all_gone_needs [OF assms(2) serves(3)]] serves(2)
    show ?thesis by simp
  next
    case (health_ends p s)
    from server_step_quiet [OF ok health_ends(7)] health_ends(2) show ?thesis by simp
  qed simp_all
qed

lemma deployment_run_quiet:
  assumes "watch_laws W" and "deployment_run W X ls d d'" and "deployment_ok W X avail d" and "all_gone d"
  shows "all_gone d' \<and> traffic (dep_server d') = traffic (dep_server d)"
proof -
  let ?I = "\<lambda>e. deployment_ok W X avail e \<and> all_gone e \<and> traffic (dep_server e) = traffic (dep_server d)"
  from assms(2) have "?I d'"
  proof (rule labelled_path_invariant)
    show "?I d" using assms(3,4) by simp
  next
    fix l e e' assume I: "?I e" and step: "deployment_step W X l e e'"
    then have "deployment_ok W X avail e" "all_gone e" by blast+
    from deployment_step_quiet [OF this step] deployment_step_ok [OF assms(1) step this(1)] I
    show "?I e'" by auto
  qed
  then show ?thesis by blast
qed

section \<open>Readiness\<close>

text \<open>While the process runs, the tasks can end one by one, and their workers stop.\<close>

lemma tasks_can_return:
  assumes "phase p = Running" and "n \<le> length (tasks p)"
  shows "\<exists>ts. (main_step W)\<^sup>*\<^sup>* p (p\<lparr>tasks := ts\<rparr>) \<and> length ts = length (tasks p) \<and>
    (\<forall>i < n. snd (ts ! i) \<noteq> Serving)"
  using assms(2)
proof (induction n)
  case 0
  show ?case by (rule exI [of _ "tasks p"]) simp
next
  case (Suc n)
  then obtain ts where ts: "(main_step W)\<^sup>*\<^sup>* p (p\<lparr>tasks := ts\<rparr>)" "length ts = length (tasks p)"
    "\<forall>i < n. snd (ts ! i) \<noteq> Serving" by auto
  show ?case
  proof (cases "snd (ts ! n) = Serving")
    case False
    with ts show ?thesis by (intro exI [of _ ts]) (auto simp: less_Suc_eq)
  next
    case True
    then have "main_step W (p\<lparr>tasks := ts\<rparr>)
        ((p\<lparr>tasks := ts\<rparr>)\<lparr>tasks := (tasks (p\<lparr>tasks := ts\<rparr>))[n := (fst (ts ! n), Returned)]\<rparr>)"
      by (intro main_step.service_returns) (use assms(1) Suc.prems ts(2) in \<open>auto simp: prod_eq_iff\<close>)
    with ts Suc.prems show ?thesis
      by (intro exI [of _ "ts[n := (fst (ts ! n), Returned)]"])
         (auto simp: less_Suc_eq nth_list_update elim: rtranclp.rtrancl_into_rtrancl)
  qed
qed

lemma workers_can_stop:
  assumes "phase (dep_process d) \<noteq> Finished" and "\<not> dep_aborted d" and "n \<le> length (tasks (dep_process d))"
    and "\<forall>i < n. snd (tasks (dep_process d) ! i) \<noteq> Serving"
  shows "\<exists>ls. deployment_run W X ls d (d\<lparr>dep_gone := dep_gone d \<union> {..<n}\<rparr>)"
  using assms(3,4)
proof (induction n)
  case 0
  show ?case by (auto intro: exI [of _ "[]"] labelled_path.stop)
next
  case (Suc n)
  let ?d = "d\<lparr>dep_gone := dep_gone d \<union> {..<n}\<rparr>"
  from Suc obtain ls where ls: "deployment_run W X ls d ?d" by auto
  have "deployment_step W X [] ?d (?d\<lparr>dep_gone := Set.insert n (dep_gone ?d)\<rparr>)"
    by (rule deployment_step.workers_stop) (use assms(1,2) Suc.prems in auto)
  from labelled_path_append [OF ls labelled_path_single [where step = "deployment_step W X", OF this]]
  show ?case by (auto simp: lessThan_Suc)
qed

lemma tasks_life:
  assumes "(main_step W)\<^sup>*\<^sup>* (dep_process d) p" and "health_alive p" and "\<not> dep_aborted d"
  shows "\<exists>ls. deployment_run W X ls d (d\<lparr>dep_process := p\<rparr>)"
  using assms
proof (induction rule: rtranclp_induct)
  case base
  show ?case by (auto intro: exI [of _ "[]"] labelled_path.stop)
next
  case (step q r)
  then have alive: "health_alive q" by (auto dest: main_step_health)
  with step obtain ls where ls: "deployment_run W X ls d (d\<lparr>dep_process := q\<rparr>)" by blast
  have "deployment_step W X [] (d\<lparr>dep_process := q\<rparr>) ((d\<lparr>dep_process := q\<rparr>)\<lparr>dep_process := r\<rparr>)"
    by (rule deployment_step.lives) (use step alive in auto)
  from labelled_path_append [OF ls labelled_path_single [where step = "deployment_step W X", OF this]]
  show ?case by auto
qed

text \<open>A request for the readiness probe, on an open connection of a process that has not finished.\<close>

lemma ready_answer:
  assumes "phase (dep_process d) \<noteq> Finished" and "\<not> dep_aborted d"
    and "k \<in> hs_conns (sv_health (dep_server d))" and "path req = ''/ready''"
  shows "\<exists>d'. deployment_step W X [On_Health (Health_Request k up req)] d d' \<and>
    hs_responses (sv_health (dep_server d')) =
      hs_responses (sv_health (dep_server d)) @ [(k, respond 200 ''READY'')]"
proof -
  have "enabled d (On_Health (Health_Request k up req))"
    using assms(1,2) by (simp add: enabled_def)
  moreover obtain s where s: "server_step X (On_Health (Health_Request k up req)) (dep_server d) = Some s"
    "hs_responses (sv_health s) = hs_responses (sv_health (dep_server d)) @ [(k, respond 200 ''READY'')]"
    using assms(3,4) by (simp add: server_step.simps health_handle_request_def)
  ultimately show ?thesis
    using deployment_step.serves [of d _ X s W] by force
qed

text \<open>So the services can all be gone, with the server as it was and the process running.\<close>

lemma services_can_be_gone:
  assumes W: "watch_laws W" and ok: "deployment_ok W X avail d" and run: "phase (dep_process d) = Running"
    and lives: "\<not> dep_aborted d"
  shows "\<exists>ls d'. deployment_run W X ls d d' \<and> all_gone d' \<and> phase (dep_process d') = Running \<and>
    \<not> dep_aborted d' \<and>
    (\<forall>t \<in> set (tasks (dep_process d')). snd t = Returned) \<and> dep_server d' = dep_server d"
proof -
  let ?p = "dep_process d"
  from tasks_can_return [OF run order_refl, of W] obtain ts where
    ts: "(main_step W)\<^sup>*\<^sup>* ?p (?p\<lparr>tasks := ts\<rparr>)" "length ts = length (tasks ?p)"
      "\<forall>i < length (tasks ?p). snd (ts ! i) \<noteq> Serving" by blast
  have pok: "process_ok W ?p" using ok by (simp add: deployment_ok_def)
  with run have alive: "health_alive (?p\<lparr>tasks := ts\<rparr>)" by (simp add: process_ok_def)
  have "\<forall>t \<in> set ts. snd t \<noteq> Woken"
    using process_ok_reachable [where W = W and p = ?p and p' = "?p\<lparr>tasks := ts\<rparr>"] W ts(1) pok run
    by (simp add: process_ok_def)
  then have returned: "\<forall>t \<in> set ts. snd t = Returned"
    using ts(2,3) by (metis in_set_conv_nth task_state.exhaust)
  let ?d1 = "d\<lparr>dep_process := ?p\<lparr>tasks := ts\<rparr>\<rparr>"
  obtain ls1 where ls1: "deployment_run W X ls1 d ?d1"
    using tasks_life [where X = X, OF ts(1) alive lives] by blast
  obtain ls2 where ls2: "deployment_run W X ls2 ?d1 (?d1\<lparr>dep_gone := dep_gone ?d1 \<union> {..<length ts}\<rparr>)"
    using workers_can_stop [of ?d1 "length ts" W X] run lives ts by auto
  from labelled_path_append [OF ls1 ls2] run lives returned show ?thesis
    by (intro exI [of _ "ls1 @ ls2"] exI [of _ "?d1\<lparr>dep_gone := dep_gone ?d1 \<union> {..<length ts}\<rparr>"])
       (simp add: all_gone_def)
qed

text \<open>
  C36: A server without services is ready. The process does not watch its services: from any accepted
  arguments all of them can fail (each \<open>start\<close> returns, as it does when a port cannot be bound)
  while the process goes on as if nothing had happened; from then on no datagram ever leaves, and
  the readiness probe is still answered with \<open>READY\<close>.
\<close>

theorem ready_without_services:
  assumes "watch_laws W" and "endpoint_laws (lib_core X)"
    and "semaphore_laws (lib_semaphore X) avail" and "\<And>w. length (random w) = 40"
    and "deployment_start W X sha1 random a = Inr d0" and "path req = ''/ready''"
  shows "\<exists>ls d. deployment_run W X ls d0 d \<and> phase (dep_process d) = Running \<and>
    (\<forall>t \<in> set (tasks (dep_process d)). snd t = Returned) \<and>
    (\<forall>ls' d'. deployment_run W X ls' d d' \<longrightarrow> sv_sent (dep_server d') = []) \<and>
    (\<exists>d'. deployment_step W X [On_Health (Health_Request k up req)] d d' \<and>
       hs_responses (sv_health (dep_server d')) = [(k, respond 200 ''READY'')])"
proof -
  note parts = deployment_start_parts [OF assms(5)]
  have ok0: "deployment_ok W X avail d0" by (rule deployment_start_ok [OF assms(1-5)])
  have run0: "phase (dep_process d0) = Running"
    using parts(1) by (auto simp: async_main_def split: sum.splits dest!: sym [of _ "dep_process d0"])
  have start: "sv_sent (dep_server d0) = []" "sv_health (dep_server d0) = start_health_server"
    using server_start_configs [OF parts(2)] by blast+
  from services_can_be_gone [where X = X, OF assms(1) ok0 run0 parts(4)] obtain ls1 d1 where
    d1: "deployment_run W X ls1 d0 d1" "all_gone d1" "phase (dep_process d1) = Running"
      "\<forall>t \<in> set (tasks (dep_process d1)). snd t = Returned" "dep_server d1 = dep_server d0"
      "\<not> dep_aborted d1" by blast
  obtain s0 where s0: "server_step X (On_Health (Health_Bind True)) (dep_server d1) = Some s0"
    "sv_health s0 = start_health_server\<lparr>hs_loop := Selecting\<rparr>" "sv_sent s0 = []"
    using start d1(5) by (simp add: server_step.simps start_health_server_def)
  obtain s where s: "server_step X (On_Health (Health_Accept k)) s0 = Some s"
    "k \<in> hs_conns (sv_health s)" "hs_responses (sv_health s) = []" "sv_sent s = []"
    using s0(2,3) by (simp add: server_step.simps start_health_server_def)
  let ?bound = "d1\<lparr>dep_server := s0\<rparr>" and ?d = "d1\<lparr>dep_server := s\<rparr>"
  have "deployment_step W X [On_Health (Health_Bind True)] d1 ?bound"
    by (rule deployment_step.serves) (use d1(3,6) s0 in \<open>simp_all add: enabled_def\<close>)
  moreover have "deployment_step W X [On_Health (Health_Accept k)] ?bound (?bound\<lparr>dep_server := s\<rparr>)"
    by (rule deployment_step.serves) (use d1(3,6) s in \<open>simp_all add: enabled_def\<close>)
  ultimately have "deployment_run W X [[On_Health (Health_Bind True)], [On_Health (Health_Accept k)]] d1 ?d"
    by (auto intro: labelled_path.intros)
  from labelled_path_append [OF d1(1) this] obtain ls where ls: "deployment_run W X ls d0 ?d" by blast
  have ok: "deployment_ok W X avail ?d" by (rule deployment_run_ok [OF assms(1) ls ok0])
  have "all_gone ?d" using d1(2) by (simp add: all_gone_def)
  from deployment_run_quiet [OF assms(1) _ ok this] s(4)
  have "\<forall>ls' d'. deployment_run W X ls' ?d d' \<longrightarrow> sv_sent (dep_server d') = []"
    by (auto simp: traffic_def)
  with ls d1(3,4,6) ready_answer [of ?d k req W X up] s assms(6) show ?thesis
    by (intro exI [of _ ls] exI [of _ ?d]) auto
qed

section \<open>Witnesses\<close>

lemma sample_laws:
  "watch_laws sample_watch" "endpoint_laws (lib_core sample_libraries)"
  "semaphore_laws (lib_semaphore sample_libraries) id"
  by (simp_all add: sample_libraries_def sample_watch_laws)

lemma sample_deployment:
  obtains d0 where
    "deployment_start sample_watch sample_libraries sample_sha1 (\<lambda>_. replicate 40 0) default_args = Inr d0"
    "phase (dep_process d0) = Running" "length (tasks (dep_process d0)) = 4"
    "length (sv_p2p (dep_server d0)) = 2" "dep_gone d0 = {}" "\<not> dep_aborted d0"
  by (simp add: deployment_start_def async_main_def server_start_def from_args_def default_args_def
      services_def p2p_ports_def)

theorem deployment_runs_safe_witness:
  "\<exists>d0 d. deployment_start sample_watch sample_libraries sample_sha1 (\<lambda>_. replicate 40 0) default_args
        = Inr d0 \<and>
     deployment_run sample_watch sample_libraries [[], [On_V3 (V3_Tick (sample_env 1))]] d0 d \<and>
     phase (dep_process d) = Draining \<and> dm_len (v3_mappings (v3s_tunnel (sv_v3 (dep_server d)))) \<le> 200"
proof -
  let ?W = sample_watch and ?X = sample_libraries
  let ?es = "[[], [On_V3 (V3_Tick (sample_env 1))]]"
  obtain d0 where d0: "deployment_start ?W ?X sample_sha1 (\<lambda>_. replicate 40 0) default_args = Inr d0"
    "phase (dep_process d0) = Running" "length (tasks (dep_process d0)) = 4"
    "length (sv_p2p (dep_server d0)) = 2" "dep_gone d0 = {}" "\<not> dep_aborted d0" by (rule sample_deployment)
  let ?p = "(dep_process d0)\<lparr>phase := Draining, coordinator := shutdown ?W (coordinator (dep_process d0))\<rparr>"
  have "deployment_step ?W ?X [] d0 (d0\<lparr>dep_process := ?p\<rparr>)"
    by (rule deployment_step.lives) (use main_step.signal [OF d0(2), of ?W] d0(6) in auto)
  moreover have "server_ok ?X id (dep_server d0)"
    by (rule server_start_ok [OF sample_laws(2,3) _ deployment_start_parts(2) [OF d0(1)]]) simp
  from server_step_ok [OF this, of "On_V3 (V3_Tick (sample_env 1))"] obtain s where
    "server_step ?X (On_V3 (V3_Tick (sample_env 1))) (dep_server d0) = Some s" by (auto simp: bind_fails_def)
  then have "deployment_step ?W ?X [On_V3 (V3_Tick (sample_env 1))] (d0\<lparr>dep_process := ?p\<rparr>)
      (d0\<lparr>dep_process := ?p, dep_server := s\<rparr>)"
    using deployment_step.serves [of "d0\<lparr>dep_process := ?p\<rparr>" "On_V3 (V3_Tick (sample_env 1))" ?X s ?W]
      d0(3-6) by (simp add: enabled_def)
  ultimately have run: "deployment_run ?W ?X ?es d0 (d0\<lparr>dep_process := ?p, dep_server := s\<rparr>)"
    by (blast intro: labelled_path.intros)
  from deployment_runs_safe [OF sample_laws _ d0(1) this] d0(1) run show ?thesis
    by (intro exI [of _ d0] exI [of _ "d0\<lparr>dep_process := ?p, dep_server := s\<rparr>"])
       (simp add: default_args_def)
qed

theorem ready_without_services_witness:
  "\<exists>d0 ls d. deployment_start sample_watch sample_libraries sample_sha1 (\<lambda>_. replicate 40 0) default_args
        = Inr d0 \<and>
     deployment_run sample_watch sample_libraries ls d0 d \<and> phase (dep_process d) = Running \<and>
     (\<forall>t \<in> set (tasks (dep_process d)). snd t = Returned)"
proof -
  obtain d0 where
    d0: "deployment_start sample_watch sample_libraries sample_sha1 (\<lambda>_. replicate 40 0) default_args = Inr d0"
    by (rule sample_deployment)
  from ready_without_services [OF sample_laws _ d0,
      of "\<lparr>req_method = GET, path = ''/ready'', query = None\<rparr>" 3 7] d0
  show ?thesis by auto
qed

end
