(* ===== verification/Sockets.thy ===== *)
theory Sockets
  imports Lifecycle "HOL-Library.Multiset"
begin

text \<open>
  The sockets of the server: which addresses the \<open>create_bound_socket\<close> functions, the HTTP listener
  of the version 2 tunnel and the health server bind, and what the operating system answers. The
  network stack is a parameter with the documented behaviour of a successful \<open>bind\<close>: a port that is
  bound already is bound once more only when all sockets on it share it, and port 0 stands for any
  unused port. A bind may fail for reasons of its own.
\<close>

section \<open>Requests to bind\<close>

datatype transport = Udp | Tcp

record bind_request =
  rq_transport :: transport
  rq_port :: u16
  rq_shared :: bool

text \<open>
  The UDP sockets set \<open>SO_REUSEADDR\<close> and \<open>SO_REUSEPORT\<close>, the TCP listeners share nothing. The
  sizes of the buffers are asked for without looking at the answer.
\<close>

definition udp_socket :: "u16 \<Rightarrow> bind_request" where
  "udp_socket port = \<lparr>rq_transport = Udp, rq_port = port, rq_shared = True\<rparr>"

definition tcp_listener :: "u16 \<Rightarrow> bind_request" where
  "tcp_listener port = \<lparr>rq_transport = Tcp, rq_port = port, rq_shared = False\<rparr>"

definition p2p_create_bound_socket :: "u16 \<Rightarrow> bind_request" where
  "p2p_create_bound_socket port = udp_socket port"

definition v3_create_bound_socket :: "server_config \<Rightarrow> bind_request" where
  "v3_create_bound_socket c = udp_socket (tunnel_port c)"

definition v2_create_bound_socket :: "server_config \<Rightarrow> bind_request" where
  "v2_create_bound_socket c = udp_socket (tunnel_v2_port c)"

definition v2_http_listener :: "server_config \<Rightarrow> bind_request" where
  "v2_http_listener c = tcp_listener (tunnel_v2_port c)"

definition health_listener :: "server_config \<Rightarrow> bind_request" where
  "health_listener c = tcp_listener (metrics_port c)"

text \<open>Every receive worker has a socket of its own.\<close>

definition p2p_sockets :: "nat \<Rightarrow> u16 \<Rightarrow> bind_request list" where
  "p2p_sockets cpus port = replicate (p2p_num_workers cpus) (p2p_create_bound_socket port)"

definition v3_sockets :: "nat \<Rightarrow> server_config \<Rightarrow> bind_request list" where
  "v3_sockets cpus c = replicate (v3_num_receivers cpus) (v3_create_bound_socket c)"

definition v2_sockets :: "nat \<Rightarrow> server_config \<Rightarrow> bind_request list" where
  "v2_sockets cpus c = v2_http_listener c # replicate (v2_num_receivers cpus) (v2_create_bound_socket c)"

definition server_sockets :: "nat \<Rightarrow> server_config \<Rightarrow> bind_request list" where
  "server_sockets cpus c =
     health_listener c # concat (map (p2p_sockets cpus) (p2p_ports c)) @ v3_sockets cpus c @ v2_sockets cpus c"

lemmas socket_defs = udp_socket_def tcp_listener_def p2p_create_bound_socket_def
  v3_create_bound_socket_def v2_create_bound_socket_def v2_http_listener_def health_listener_def
  p2p_sockets_def v3_sockets_def v2_sockets_def

section \<open>The network stack\<close>

record 'o network_stack =
  bind_socket :: "bind_request \<Rightarrow> 'o \<Rightarrow> u16 option \<times> 'o"

text \<open>A socket that is bound: its transport, its port, and whether it shares the port.\<close>

type_synonym bound_socket = "transport \<times> u16 \<times> bool"

definition compatible :: "bound_socket set \<Rightarrow> bind_request \<Rightarrow> bool" where
  "compatible b r \<longleftrightarrow>
     (\<forall>s. (rq_transport r, rq_port r, s) \<in> b \<longrightarrow> s \<and> rq_shared r)"

definition unused :: "bound_socket set \<Rightarrow> transport \<Rightarrow> u16 \<Rightarrow> bool" where
  "unused b tr p \<longleftrightarrow> (tr, p, True) \<notin> b \<and> (tr, p, False) \<notin> b"

definition stack_laws :: "'o network_stack \<Rightarrow> ('o \<Rightarrow> bound_socket set) \<Rightarrow> bool" where
  "stack_laws N bound \<longleftrightarrow>
     (\<forall>r n p n'. bind_socket N r n = (Some p, n') \<longrightarrow>
        bound n' = Set.insert (rq_transport r, p, rq_shared r) (bound n) \<and>
        (if rq_port r = 0 then p \<noteq> 0 \<and> unused (bound n) (rq_transport r) p
         else p = rq_port r \<and> compatible (bound n) r))"

text \<open>A sequence of binds that stops at the first one that fails.\<close>

primrec bind_all :: "'o network_stack \<Rightarrow> bind_request list \<Rightarrow> 'o \<Rightarrow> (u16 list \<times> 'o) option" where
  "bind_all N [] n = Some ([], n)"
| "bind_all N (r # rs) n =
     (case bind_socket N r n of
        (None, _) \<Rightarrow> None
      | (Some p, n) \<Rightarrow> map_option (\<lambda>(ps, n). (p # ps, n)) (bind_all N rs n))"

lemma bind_all_Cons_Some:
  "bind_all N (r # rs) n = Some (ps, n') \<longleftrightarrow>
     (\<exists>p m qs. bind_socket N r n = (Some p, m) \<and> bind_all N rs m = Some (qs, n') \<and> ps = p # qs)"
  by (cases "bind_socket N r n") (auto split: option.splits)

lemma stack_lawsD:
  assumes "stack_laws N bound" and "bind_socket N r n = (Some p, n')"
  shows "bound n' = Set.insert (rq_transport r, p, rq_shared r) (bound n)"
    "rq_port r = 0 \<Longrightarrow> p \<noteq> 0 \<and> unused (bound n) (rq_transport r) p"
    "rq_port r \<noteq> 0 \<Longrightarrow> p = rq_port r \<and> compatible (bound n) r"
  using assms unfolding stack_laws_def by (metis (lifting))+

text \<open>A port that is not shared is bound once.\<close>

lemma bind_all_exclusive:
  assumes "stack_laws N bound" and "rq_port r \<noteq> 0" and "\<not> rq_shared r"
    and "bind_all N rs n = Some (ps, n')"
  shows "count_list rs r + (if (rq_transport r, rq_port r, False) \<in> bound n then 1 else 0) \<le> 1"
  using assms(4)
proof (induction rs arbitrary: n ps)
  case Nil
  then show ?case by simp
next
  case (Cons x rs)
  from Cons.prems obtain p m qs where m: "bind_socket N x n = (Some p, m)"
    "bind_all N rs m = Some (qs, n')"
    unfolding bind_all_Cons_Some by blast
  note laws = stack_lawsD [OF assms(1) m(1)]
  show ?case
  proof (cases "x = r")
    case True
    with laws assms(2,3) have "compatible (bound n) r" "(rq_transport r, rq_port r, False) \<in> bound m" by simp_all
    with Cons.IH [OF m(2)] True show ?thesis by (auto simp: compatible_def)
  next
    case False
    with Cons.IH [OF m(2)] laws(1) show ?thesis by (auto split: if_splits)
  qed
qed

text \<open>What is bound after a sequence of binds of fixed ports.\<close>

lemma bind_all_bound:
  assumes "stack_laws N bound" and "\<forall>r \<in> set rs. rq_port r \<noteq> 0" and "bind_all N rs n = Some (ps, n')"
  shows "bound n' = bound n \<union> (\<lambda>r. (rq_transport r, rq_port r, rq_shared r)) ` set rs"
  using assms(2,3)
proof (induction rs arbitrary: n ps)
  case Nil
  then show ?case by simp
next
  case (Cons x rs)
  from Cons.prems(2) obtain p m qs where m: "bind_socket N x n = (Some p, m)"
    "bind_all N rs m = Some (qs, n')"
    unfolding bind_all_Cons_Some by blast
  from stack_lawsD [OF assms(1) m(1)] Cons.prems(1) Cons.IH [OF _ m(2)] show ?case by auto
qed

text \<open>Shared UDP ports never clash, so all that counts are the TCP ports.\<close>

definition tcp_ports :: "bind_request list \<Rightarrow> u16 list" where
  "tcp_ports rs = map rq_port (filter (\<lambda>r. rq_transport r = Tcp) rs)"

lemma bind_all_compatible:
  assumes "stack_laws N bound" and "bound n = {}" and "bind_all N xs n = Some (ps, m)"
    and "\<forall>r \<in> set (xs @ r # ys). rq_port r \<noteq> 0 \<and> (rq_shared r \<longleftrightarrow> rq_transport r = Udp)"
    and "distinct (tcp_ports (xs @ r # ys))"
  shows "compatible (bound m) r"
proof -
  have "bound m = (\<lambda>r. (rq_transport r, rq_port r, rq_shared r)) ` set xs"
    using bind_all_bound [OF assms(1) _ assms(3)] assms(2,4) by simp
  with assms(4,5) show ?thesis
    by (cases "rq_transport r") (auto simp: compatible_def tcp_ports_def image_iff; metis)+
qed

lemma bind_all_any_port:
  assumes "stack_laws N bound" and "\<forall>r \<in> set rs. rq_port r = 0 \<and> rq_transport r = tr"
    and "bind_all N rs n = Some (ps, n')"
  shows "length ps = length rs \<and> distinct ps \<and> 0 \<notin> set ps \<and> (\<forall>p \<in> set ps. unused (bound n) tr p)"
  using assms(2,3)
proof (induction rs arbitrary: n ps)
  case Nil
  then show ?case by simp
next
  case (Cons r rs)
  from Cons.prems(2) obtain p m qs where m: "bind_socket N r n = (Some p, m)"
    "bind_all N rs m = Some (qs, n')" "ps = p # qs"
    unfolding bind_all_Cons_Some by blast
  from Cons.prems have r: "rq_port r = 0" "rq_transport r = tr" and rs: "\<forall>r \<in> set rs. rq_port r = 0 \<and> rq_transport r = tr"
    by simp_all
  from stack_lawsD(1,2) [OF assms(1) m(1)] r have p: "p \<noteq> 0" "unused (bound n) tr p"
    "bound m = Set.insert (tr, p, rq_shared r) (bound n)" by simp_all
  then have "unused (bound m) tr q \<Longrightarrow> q \<noteq> p \<and> unused (bound n) tr q" for q
    by (cases "rq_shared r") (auto simp: unused_def)
  with Cons.IH [OF rs m(2)] p m(3) show ?case by auto
qed

section \<open>Properties\<close>

text \<open>A network stack that binds any unused port by counting on from 40000.\<close>

definition sample_stack :: "bound_socket list network_stack" where
  "sample_stack = \<lparr>bind_socket = (\<lambda>r b.
     if rq_port r = 0 then
       let p = of_nat (40000 + length b)
       in if p \<noteq> 0 \<and> unused (set b) (rq_transport r) p
          then (Some p, (rq_transport r, p, rq_shared r) # b) else (None, b)
     else if list_all (\<lambda>(tr, p, s). tr = rq_transport r \<and> p = rq_port r \<longrightarrow> s \<and> rq_shared r) b
     then (Some (rq_port r), (rq_transport r, rq_port r, rq_shared r) # b) else (None, b))\<rparr>"

lemma sample_stack_laws [simp]: "stack_laws sample_stack set"
  by (auto simp: stack_laws_def sample_stack_def compatible_def list_all_iff Let_def split: if_splits)

lemma tcp_ports_mset: "mset rs = mset rs' \<Longrightarrow> mset (tcp_ports rs) = mset (tcp_ports rs')"
  by (simp add: tcp_ports_def)

lemma tcp_ports_simps [simp]:
  "tcp_ports [] = []" "tcp_ports (rs @ rs') = tcp_ports rs @ tcp_ports rs'"
  "tcp_ports (p2p_sockets cpus port) = []" "tcp_ports (v3_sockets cpus c) = []"
  "tcp_ports (v2_sockets cpus c) = [tunnel_v2_port c]"
  "tcp_ports (health_listener c # rs) = metrics_port c # tcp_ports rs"
  by (simp_all add: tcp_ports_def socket_defs)

lemma tcp_ports_server: "tcp_ports (server_sockets cpus c) = [metrics_port c, tunnel_v2_port c]"
  by (simp add: server_sockets_def p2p_ports_def)

lemma server_sockets_ports:
  "\<forall>r \<in> set (server_sockets cpus c). (rq_shared r \<longleftrightarrow> rq_transport r = Udp) \<and>
     rq_port r \<in> {metrics_port c, tunnel_port c, tunnel_v2_port c, 8054, 3478}"
  by (auto simp: server_sockets_def p2p_ports_def socket_defs)

lemma both_listeners:
  "metrics_port c = tunnel_v2_port c \<Longrightarrow> 2 \<le> count (mset (server_sockets cpus c)) (health_listener c)"
  by (simp add: server_sockets_def v2_sockets_def health_listener_def v2_http_listener_def)

text \<open>
  C34: When the server's sockets get in each other's way. The services are started concurrently and
  create their sockets in any order. If the metrics port and the port of the version 2 tunnel are
  the same fixed port, which the validation accepts, then in no order do all binds succeed, whatever
  else is bound: one of the health server and the HTTP server of the tunnel does not get its port.
  If they differ and all three ports are fixed, then no bind meets an incompatible socket of the
  server's own, in any order and at any moment: all the UDP sockets share their ports, as the
  receive workers of a service have to, and each of the two listeners has a TCP port of its own.
\<close>

theorem server_sockets_bind:
  assumes "stack_laws N bound" and "mset rs = mset (server_sockets cpus c)"
  shows "(metrics_port c = tunnel_v2_port c \<and> tunnel_v2_port c \<noteq> 0 \<longrightarrow> bind_all N rs n = None) \<and>
    (metrics_port c \<noteq> tunnel_v2_port c \<and> 0 \<notin> {metrics_port c, tunnel_port c, tunnel_v2_port c} \<and> bound n = {} \<longrightarrow>
      (\<forall>xs r ys ps m. rs = xs @ r # ys \<and> bind_all N xs n = Some (ps, m) \<longrightarrow> compatible (bound m) r))"
proof (intro conjI impI allI)
  assume same: "metrics_port c = tunnel_v2_port c \<and> tunnel_v2_port c \<noteq> 0"
  then have "2 \<le> count_list rs (health_listener c)"
    using both_listeners [of c cpus] assms(2) by (metis count_mset)
  with bind_all_exclusive [OF assms(1), of "health_listener c" rs n] same show "bind_all N rs n = None"
    by (cases "bind_all N rs n") (force simp: health_listener_def tcp_listener_def)+
next
  fix xs r ys ps m
  assume ports: "metrics_port c \<noteq> tunnel_v2_port c \<and> 0 \<notin> {metrics_port c, tunnel_port c, tunnel_v2_port c} \<and>
      bound n = {}"
    and run: "rs = xs @ r # ys \<and> bind_all N xs n = Some (ps, m)"
  have set: "set rs = set (server_sockets cpus c)" using assms(2) by (metis set_mset_mset)
  have "distinct (tcp_ports (xs @ r # ys))"
    using mset_eq_imp_distinct_iff [OF tcp_ports_mset [OF assms(2)]] ports run by (simp add: tcp_ports_server)
  moreover have "\<forall>r \<in> set (xs @ r # ys). rq_port r \<noteq> 0 \<and> (rq_shared r \<longleftrightarrow> rq_transport r = Udp)"
    using server_sockets_ports [of cpus c] ports run set by force
  ultimately show "compatible (bound m) r"
    using bind_all_compatible [OF assms(1)] ports run by blast
qed

theorem server_sockets_bind_witness:
  "\<exists>c. from_args (default_args\<lparr>arg_metrics_port := 50000\<rparr>) = Inr c \<and>
     bind_all sample_stack (rev (server_sockets 4 c)) [] = None"
proof -
  obtain c where c: "from_args (default_args\<lparr>arg_metrics_port := 50000\<rparr>) = Inr c"
    "tunnel_v2_port c = 50000" "metrics_port c = 50000"
    by (simp add: from_args_def default_args_def)
  from server_sockets_bind [OF sample_stack_laws mset_rev, of c 4 "[]"] c show ?thesis by auto
qed

lemma nat_to_string_zero: "nat_to_string 0 = ''0''"
  by code_simp

text \<open>
  Port 0 splits a tunnel. The validation accepts port 0, for a port chosen by the system. Every
  receive worker then binds a port of its own: there are at least two of them, they all differ, and
  the port announced to the master server is none of them, as it is still 0.
\<close>

theorem port_zero_splits_workers:
  assumes "stack_laws N bound" and "from_args a = Inr c" and "tunnel_port c = 0"
    and "bind_all N (v3_sockets cpus c) n = Some (ps, n')"
    and "\<And>s. CHR ''&'' \<notin> set (encode s)"
  shows "2 \<le> length ps \<and> distinct ps \<and> 0 \<notin> set ps \<and>
    query_param ''port='' (announce_query encode V3_VERSION c (tunnel_port c) clients mm) = Some ''0''"
proof -
  have "\<forall>r \<in> set (v3_sockets cpus c).
      rq_port r = 0 \<and> rq_transport r = Udp"
    by (simp add: assms(3) socket_defs)
  from bind_all_any_port [OF assms(1) this assms(4)] show ?thesis
    by (simp add: assms(3) v3_sockets_def v3_num_receivers_def query_param_def nat_to_string_zero
        announce_query_pieces [OF assms(5)]
        starts_with_def strip_prefix_def)
qed

theorem port_zero_splits_workers_witness:
  "\<exists>c ps n'. from_args (default_args\<lparr>arg_port := 0\<rparr>) = Inr c \<and>
     bind_all sample_stack (v3_sockets 1 c) [] = Some (ps, n') \<and>
     2 \<le> length ps \<and> distinct ps \<and> 0 \<notin> set ps"
proof -
  obtain c where c: "from_args (default_args\<lparr>arg_port := 0\<rparr>) = Inr c" "tunnel_port c = 0"
    by (simp add: from_args_def default_args_def)
  have "v3_sockets 1 c =
      [udp_socket 0, udp_socket 0]"
    by (simp add: c(2) socket_defs v3_num_receivers_def numeral_2_eq_2)
  then have "bind_all sample_stack (v3_sockets 1 c) [] \<noteq> None"
    by (simp add: udp_socket_def sample_stack_def unused_def)
  then obtain ps n' where ps:
    "bind_all sample_stack (v3_sockets 1 c) [] = Some (ps, n')"
    by auto
  from port_zero_splits_workers [OF sample_stack_laws c ps, of "remove_char (CHR ''&'')" 0 False]
  show ?thesis using c(1) ps by (auto simp: remove_char_def)
qed

end
