(* ===== verification/Registration.thy ===== *)
theory Registration
  imports Metrics
begin

text \<open>
  The first half of \<open>Metrics::new\<close> in \<open>src/metrics.rs\<close>: the Prometheus objects it creates, each
  with an \<open>unwrap\<close>, and their registration, whose failures are only logged. The \<open>prometheus\<close>
  crate is a parameter: its constructors accept a valid name with a help text, a histogram also
  needs increasing buckets, and a registry takes each name once.
\<close>

section \<open>Names and help texts\<close>

primrec counter_opts :: "prom_counter \<Rightarrow> string \<times> string" where
  "counter_opts PromV3PacketsReceived =
     (''cncnet_v3_packets_received_total'', ''Total packets received by Tunnel V3'')"
| "counter_opts PromV3PacketsSent =
     (''cncnet_v3_packets_sent_total'', ''Total packets sent by Tunnel V3'')"
| "counter_opts PromV3BytesReceived =
     (''cncnet_v3_bytes_received_total'', ''Total bytes received by Tunnel V3'')"
| "counter_opts PromV3BytesSent =
     (''cncnet_v3_bytes_sent_total'', ''Total bytes sent by Tunnel V3'')"
| "counter_opts PromV2PacketsReceived =
     (''cncnet_v2_packets_received_total'', ''Total packets received by Tunnel V2'')"
| "counter_opts PromV2PacketsSent =
     (''cncnet_v2_packets_sent_total'', ''Total packets sent by Tunnel V2'')"
| "counter_opts PromV2HttpRequests =
     (''cncnet_v2_http_requests_total'', ''Total HTTP requests to Tunnel V2'')"
| "counter_opts PromRateLimitHits =
     (''cncnet_rate_limit_hits_total'', ''Total rate limit hits'')"
| "counter_opts PromDroppedPackets =
     (''cncnet_dropped_packets_total'', ''Total dropped packets'')"
| "counter_opts PromDroppedConnections =
     (''cncnet_dropped_connections_total'', ''Total dropped connections'')"

primrec gauge_opts :: "prom_gauge \<Rightarrow> string \<times> string" where
  "gauge_opts PromV3ActiveClients =
     (''cncnet_v3_active_clients'', ''Active clients in Tunnel V3'')"
| "gauge_opts PromV2ActiveClients =
     (''cncnet_v2_active_clients'', ''Active clients in Tunnel V2'')"
| "gauge_opts PromUptimeSeconds = (''cncnet_uptime_seconds'', ''Server uptime in seconds'')"

definition LATENCY_OPTS :: "string \<times> string" where
  "LATENCY_OPTS =
     (''cncnet_packet_processing_latency_microseconds'', ''Packet processing latency in microseconds'')"

text \<open>The bounds of the buckets are floating point numbers with whole values.\<close>

definition LATENCY_BUCKETS :: "nat list" where
  "LATENCY_BUCKETS = [10, 50, 100, 500, 1000, 5000, 10000]"

section \<open>The library\<close>

record ('d, 'r) prometheus_lib =
  int_counter_new :: "string \<times> string \<Rightarrow> 'd option"
  int_gauge_new :: "string \<times> string \<Rightarrow> 'd option"
  histogram_with_opts :: "string \<times> string \<Rightarrow> nat list \<Rightarrow> 'd option"
  prometheus_register :: "'d \<Rightarrow> 'r \<Rightarrow> bool \<times> 'r"

text \<open>\<open>[a-zA-Z_:][a-zA-Z0-9_:]*\<close>\<close>

definition name_start :: "char \<Rightarrow> bool" where
  "name_start c \<longleftrightarrow>
     c \<in> set ''abcdefghijklmnopqrstuvwxyzABCDEFGHIJKLMNOPQRSTUVWXYZ_:''"

definition name_char :: "char \<Rightarrow> bool" where
  "name_char c \<longleftrightarrow> name_start c \<or> c \<in> set ''0123456789''"

definition valid_opts :: "string \<times> string \<Rightarrow> bool" where
  "valid_opts os \<longleftrightarrow>
     (case fst os of [] \<Rightarrow> False | c # cs \<Rightarrow> name_start c \<and> list_all name_char cs) \<and> snd os \<noteq> []"

text \<open>\<open>metric_name\<close> is the name of an object, \<open>names\<close> the names in a registry.\<close>

definition prometheus_laws ::
    "('d, 'r) prometheus_lib \<Rightarrow> ('d \<Rightarrow> string) \<Rightarrow> ('r \<Rightarrow> string set) \<Rightarrow> bool" where
  "prometheus_laws P metric_name names \<longleftrightarrow>
     (\<forall>os. valid_opts os \<longrightarrow> (\<exists>d. int_counter_new P os = Some d \<and> metric_name d = fst os)) \<and>
     (\<forall>os. valid_opts os \<longrightarrow> (\<exists>d. int_gauge_new P os = Some d \<and> metric_name d = fst os)) \<and>
     (\<forall>os b. valid_opts os \<and> sorted_wrt (<) b \<longrightarrow>
        (\<exists>d. histogram_with_opts P os b = Some d \<and> metric_name d = fst os)) \<and>
     (\<forall>d r. if metric_name d \<in> names r then prometheus_register P d r = (False, r)
            else \<exists>r'. prometheus_register P d r = (True, r') \<and> names r' = Set.insert (metric_name d) (names r))"

section \<open>Construction and registration\<close>

text \<open>An \<open>unwrap\<close> that fails is \<open>None\<close>.\<close>

definition prometheus_objects :: "('d, 'r) prometheus_lib \<Rightarrow> 'd list option" where
  "prometheus_objects P =
     do {
       v3_packets_received \<leftarrow> int_counter_new P (counter_opts PromV3PacketsReceived);
       v3_packets_sent \<leftarrow> int_counter_new P (counter_opts PromV3PacketsSent);
       v3_bytes_received \<leftarrow> int_counter_new P (counter_opts PromV3BytesReceived);
       v3_bytes_sent \<leftarrow> int_counter_new P (counter_opts PromV3BytesSent);
       v3_active_clients \<leftarrow> int_gauge_new P (gauge_opts PromV3ActiveClients);
       v2_packets_received \<leftarrow> int_counter_new P (counter_opts PromV2PacketsReceived);
       v2_packets_sent \<leftarrow> int_counter_new P (counter_opts PromV2PacketsSent);
       v2_active_clients \<leftarrow> int_gauge_new P (gauge_opts PromV2ActiveClients);
       v2_http_requests \<leftarrow> int_counter_new P (counter_opts PromV2HttpRequests);
       rate_limit_hits \<leftarrow> int_counter_new P (counter_opts PromRateLimitHits);
       dropped_packets \<leftarrow> int_counter_new P (counter_opts PromDroppedPackets);
       dropped_connections \<leftarrow> int_counter_new P (counter_opts PromDroppedConnections);
       packet_latency \<leftarrow> histogram_with_opts P LATENCY_OPTS LATENCY_BUCKETS;
       uptime_seconds \<leftarrow> int_gauge_new P (gauge_opts PromUptimeSeconds);
       Some [v3_packets_received, v3_packets_sent, v3_bytes_received, v3_bytes_sent,
             v3_active_clients, v2_packets_received, v2_packets_sent, v2_active_clients,
             v2_http_requests, rate_limit_hits, dropped_packets, dropped_connections,
             packet_latency, uptime_seconds]
     }"

primrec register_all :: "('d, 'r) prometheus_lib \<Rightarrow> 'd list \<Rightarrow> 'r \<Rightarrow> bool list \<times> 'r" where
  "register_all P [] r = ([], r)"
| "register_all P (d # ds) r =
     (let (ok, r) = prometheus_register P d r; (oks, r) = register_all P ds r in (ok # oks, r))"

text \<open>The metrics, the number of warnings logged, and the registry.\<close>

definition metrics_new_registered :: "('d, 'r) prometheus_lib \<Rightarrow> 'r \<Rightarrow> (metrics \<times> nat \<times> 'r) option" where
  "metrics_new_registered P r =
     do {
       ds \<leftarrow> prometheus_objects P;
       let (oks, r) = register_all P ds r;
       Some (metrics_new, length (filter Not oks), r)
     }"

section \<open>All names are good\<close>

instantiation prom_counter :: enum
begin

definition enum_prom_counter :: "prom_counter list" where
  "enum_prom_counter =
     [PromV3PacketsReceived, PromV3PacketsSent, PromV3BytesReceived, PromV3BytesSent,
      PromV2PacketsReceived, PromV2PacketsSent, PromV2HttpRequests, PromRateLimitHits,
      PromDroppedPackets, PromDroppedConnections]"

definition enum_all_prom_counter :: "(prom_counter \<Rightarrow> bool) \<Rightarrow> bool" where
  "enum_all_prom_counter P \<longleftrightarrow> list_all P enum_class.enum"

definition enum_ex_prom_counter :: "(prom_counter \<Rightarrow> bool) \<Rightarrow> bool" where
  "enum_ex_prom_counter P \<longleftrightarrow> list_ex P enum_class.enum"

instance
proof
  show univ: "UNIV = set (enum_class.enum :: prom_counter list)"
    unfolding enum_prom_counter_def by (auto intro: prom_counter.exhaust)
  show "distinct (enum_class.enum :: prom_counter list)"
    by (simp add: enum_prom_counter_def)
  show "enum_class.enum_all P \<longleftrightarrow> Ball UNIV P" "enum_class.enum_ex P \<longleftrightarrow> Bex UNIV P"
    for P :: "prom_counter \<Rightarrow> bool"
    by (simp_all add: enum_all_prom_counter_def enum_ex_prom_counter_def univ list_all_iff list_ex_iff)
qed

end

instantiation prom_gauge :: enum
begin

definition enum_prom_gauge :: "prom_gauge list" where
  "enum_prom_gauge = [PromV3ActiveClients, PromV2ActiveClients, PromUptimeSeconds]"

definition enum_all_prom_gauge :: "(prom_gauge \<Rightarrow> bool) \<Rightarrow> bool" where
  "enum_all_prom_gauge P \<longleftrightarrow> list_all P enum_class.enum"

definition enum_ex_prom_gauge :: "(prom_gauge \<Rightarrow> bool) \<Rightarrow> bool" where
  "enum_ex_prom_gauge P \<longleftrightarrow> list_ex P enum_class.enum"

instance
proof
  show univ: "UNIV = set (enum_class.enum :: prom_gauge list)"
    unfolding enum_prom_gauge_def by (auto intro: prom_gauge.exhaust)
  show "distinct (enum_class.enum :: prom_gauge list)"
    by (simp add: enum_prom_gauge_def)
  show "enum_class.enum_all P \<longleftrightarrow> Ball UNIV P" "enum_class.enum_ex P \<longleftrightarrow> Bex UNIV P"
    for P :: "prom_gauge \<Rightarrow> bool"
    by (simp_all add: enum_all_prom_gauge_def enum_ex_prom_gauge_def univ list_all_iff list_ex_iff)
qed

end

definition all_opts :: "(string \<times> string) list" where
  "all_opts = map counter_opts enum_class.enum @ map gauge_opts enum_class.enum @ [LATENCY_OPTS]"

lemma all_opts_good: "list_all valid_opts all_opts" "distinct (map fst all_opts)"
  by code_simp+

lemma opts_in_all:
  "counter_opts c \<in> set all_opts" "gauge_opts g \<in> set all_opts" "LATENCY_OPTS \<in> set all_opts"
  by (simp_all add: all_opts_def enum_UNIV)

lemma opts_valid [simp]: "valid_opts (counter_opts c)" "valid_opts (gauge_opts g)" "valid_opts LATENCY_OPTS"
  using all_opts_good(1) opts_in_all by (simp_all add: list_all_iff)

lemma latency_buckets_sorted [simp]: "sorted_wrt (<) LATENCY_BUCKETS"
  by (simp add: LATENCY_BUCKETS_def)

definition object_names :: "string list" where
  "object_names = map fst
     [counter_opts PromV3PacketsReceived, counter_opts PromV3PacketsSent,
      counter_opts PromV3BytesReceived, counter_opts PromV3BytesSent,
      gauge_opts PromV3ActiveClients, counter_opts PromV2PacketsReceived,
      counter_opts PromV2PacketsSent, gauge_opts PromV2ActiveClients,
      counter_opts PromV2HttpRequests, counter_opts PromRateLimitHits,
      counter_opts PromDroppedPackets, counter_opts PromDroppedConnections,
      LATENCY_OPTS, gauge_opts PromUptimeSeconds]"

lemma object_names: "distinct object_names" "length object_names = 14"
  by code_simp+

lemma set_object_names:
  "set object_names = range (fst \<circ> counter_opts) \<union> range (fst \<circ> gauge_opts) \<union> {fst LATENCY_OPTS}"
  unfolding UNIV_enum enum_prom_counter_def enum_prom_gauge_def object_names_def
  by (simp del: counter_opts.simps gauge_opts.simps) blast

section \<open>Registering\<close>

lemma prometheus_objects_total:
  assumes "prometheus_laws P metric_name names"
  shows "\<exists>ds. prometheus_objects P = Some ds \<and> map metric_name ds = object_names"
proof -
  have counter: "\<exists>d. int_counter_new P (counter_opts c) = Some d \<and> metric_name d = fst (counter_opts c)" for c
    using assms opts_valid(1) unfolding prometheus_laws_def by blast
  have gauge: "\<exists>d. int_gauge_new P (gauge_opts g) = Some d \<and> metric_name d = fst (gauge_opts g)" for g
    using assms opts_valid(2) unfolding prometheus_laws_def by blast
  have latency: "\<exists>d. histogram_with_opts P LATENCY_OPTS LATENCY_BUCKETS = Some d \<and>
      metric_name d = fst LATENCY_OPTS"
    using assms opts_valid(3) latency_buckets_sorted unfolding prometheus_laws_def by blast
  obtain dc dg dl where "\<And>c. int_counter_new P (counter_opts c) = Some (dc c)"
    "\<And>c. metric_name (dc c) = fst (counter_opts c)"
    "\<And>g. int_gauge_new P (gauge_opts g) = Some (dg g)"
    "\<And>g. metric_name (dg g) = fst (gauge_opts g)"
    "histogram_with_opts P LATENCY_OPTS LATENCY_BUCKETS = Some dl"
    "metric_name dl = fst LATENCY_OPTS"
    using counter gauge latency by metis
  then show ?thesis
    by (simp add: prometheus_objects_def object_names_def del: counter_opts.simps gauge_opts.simps)
qed

lemma prometheus_registerD:
  assumes "prometheus_laws P metric_name names"
  shows "metric_name d \<in> names r \<Longrightarrow> prometheus_register P d r = (False, r)"
    and "metric_name d \<notin> names r \<Longrightarrow> \<exists>r'. prometheus_register P d r = (True, r') \<and>
      names r' = Set.insert (metric_name d) (names r)"
  using assms by (auto simp: prometheus_laws_def split: if_splits)

lemma register_all_fresh:
  assumes "prometheus_laws P metric_name names"
    and "distinct (map metric_name ds)" and "set (map metric_name ds) \<inter> names r = {}"
  shows "\<exists>r'. register_all P ds r = (replicate (length ds) True, r') \<and>
    names r' = names r \<union> set (map metric_name ds)"
  using assms(2,3)
proof (induction ds arbitrary: r)
  case Nil
  then show ?case by simp
next
  case (Cons d ds)
  then have "metric_name d \<notin> names r" by simp
  with prometheus_registerD(2) [OF assms(1)] obtain q where
    q: "prometheus_register P d r = (True, q)" "names q = Set.insert (metric_name d) (names r)"
    by blast
  with Cons.prems have "set (map metric_name ds) \<inter> names q = {}" by auto
  with Cons.IH [of q] Cons.prems obtain r' where
    "register_all P ds q = (replicate (length ds) True, r')"
    "names r' = names q \<union> set (map metric_name ds)" by auto
  with q show ?case by auto
qed

lemma register_all_taken:
  assumes "prometheus_laws P metric_name names" and "set (map metric_name ds) \<subseteq> names r"
  shows "register_all P ds r = (replicate (length ds) False, r)"
  using assms(2) by (induction ds) (simp_all add: prometheus_registerD(1) [OF assms(1)])

text \<open>
  Registration of the metrics. With a registry that holds none of the server's names,
  \<open>Metrics::new\<close> does not panic, logs no warning, and registers exactly one name for each counter,
  each gauge and the histogram; calling it again does not panic either, it logs a warning for each
  of the fourteen objects and leaves the registry as it is.
\<close>

theorem metrics_registered:
  assumes "prometheus_laws P metric_name names" and "names r \<inter> set object_names = {}"
  shows "\<exists>r'. metrics_new_registered P r = Some (metrics_new, 0, r') \<and>
    names r' = names r \<union> (range (fst \<circ> counter_opts) \<union> range (fst \<circ> gauge_opts) \<union> {fst LATENCY_OPTS}) \<and>
    card (range (fst \<circ> counter_opts) \<union> range (fst \<circ> gauge_opts) \<union> {fst LATENCY_OPTS}) = 14 \<and>
    metrics_new_registered P r' = Some (metrics_new, 14, r')"
proof -
  obtain ds where ds: "prometheus_objects P = Some ds" "map metric_name ds = object_names"
    using prometheus_objects_total [OF assms(1)] by blast
  have len: "length ds = 14" using ds(2) object_names(2) by (metis length_map)
  have "distinct (map metric_name ds)" "set (map metric_name ds) \<inter> names r = {}"
    using object_names(1) assms(2) by (auto simp: ds(2))
  from register_all_fresh [OF assms(1) this] obtain r' where
    r': "register_all P ds r = (replicate (length ds) True, r')" "names r' = names r \<union> set object_names"
    by (auto simp: ds(2))
  have "set (map metric_name ds) \<subseteq> names r'" by (simp add: ds(2) r'(2))
  note again = register_all_taken [OF assms(1) this]
  have "card (set object_names) = 14" using object_names by (simp add: distinct_card)
  with r' again show ?thesis
    by (simp add: metrics_new_registered_def ds(1) len set_object_names)
qed

text \<open>A registry that is the list of its names, and objects that are their names.\<close>

definition sample_prometheus :: "(string, string list) prometheus_lib" where
  "sample_prometheus = \<lparr>
     int_counter_new = (\<lambda>os. if valid_opts os then Some (fst os) else None),
     int_gauge_new = (\<lambda>os. if valid_opts os then Some (fst os) else None),
     histogram_with_opts = (\<lambda>os b. if valid_opts os \<and> sorted_wrt (<) b then Some (fst os) else None),
     prometheus_register = (\<lambda>d r. if d \<in> set r then (False, r) else (True, d # r))\<rparr>"

lemma sample_prometheus_laws: "prometheus_laws sample_prometheus id set"
  by (simp add: prometheus_laws_def sample_prometheus_def)

theorem metrics_registered_witness:
  "\<exists>r'. metrics_new_registered sample_prometheus [] = Some (metrics_new, 0, r') \<and>
     metrics_new_registered sample_prometheus r' = Some (metrics_new, 14, r')"
  using metrics_registered [OF sample_prometheus_laws, of "[]"] by auto

end
