(* ===== verification/Parallel_V3.thy ===== *)
theory Parallel_V3
  imports V3_Properties Interleaving
begin

text \<open>
  The packet handler of the version 3 tunnel at the grain at which its threads really interleave.
  The receive workers run in parallel, and \<open>handle_data_forward\<close> is a sequence of separate
  operations on the shared maps, the shared limiter, the atomic counters and the client objects
  behind their \<open>Arc\<close>s. Here each of these is a step of its own, the heartbeat's cleanup removes one
  entry at a time, and any order of steps is possible. An operation on a map is taken to be atomic,
  \<open>len\<close> included; the locks behind the operations are the subject of \<open>Locking\<close>.
\<close>

section \<open>Jobs and program points\<close>

text \<open>A data packet that a worker has received, and where the worker is in handling it.\<close>

record job =
  jb_sender :: u32
  jb_receiver :: u32
  jb_packet :: "u8 list"
  jb_source :: socket_addr
  jb_now :: u64

datatype admission_kind = New_Client | Returning

datatype worker_point =
    Idle
  | Look_Sender job
  | Examine job nat
  | Record_Received job
  | Check_Room job
  | Take_Token admission_kind job
  | Insert_Client admission_kind job
  | Insert_Analyzer admission_kind job
  | Read_Count job
  | Store_Count job nat
  | Look_Receiver job
  | Send_Packet job nat socket_addr
  | Record_Loss job
  | Account job nat

section \<open>The shared state\<close>

text \<open>
  A client object lives at an address of the heap, which only grows; the map holds addresses, as
  it holds \<open>Arc\<close>s, so that a worker can go on using an object that is no longer in the map.
  \<open>sh_counted\<close> is the number of clients the heartbeat has read and not yet stored.
\<close>

record ('c, 'q, 'm) shared =
  sh_refs :: "(u32, nat) fmap"
  sh_heap :: "'c list"
  sh_analyzers :: "(u32, 'q) fmap"
  sh_limiter :: "'m connection_rate_limiter"
  sh_metrics :: metrics
  sh_batches :: "nat \<Rightarrow> local_metrics_batch"
  sh_sent :: "datagram list"
  sh_counted :: "nat option"
  sh_workers :: "nat \<Rightarrow> worker_point"

definition goto :: "nat \<Rightarrow> worker_point \<Rightarrow> ('c, 'q, 'm) shared \<Rightarrow> ('c, 'q, 'm) shared" where
  "goto w p s = s\<lparr>sh_workers := (sh_workers s)(w := p)\<rparr>"

section \<open>One step of a worker\<close>

text \<open>
  The two atomic updates of a known client are one step: they touch nothing but its counters.
\<close>

fun advance ::
    "('c, 'q, 'i) relay_core \<Rightarrow> ('m, 'g, 'i) rater \<Rightarrow> nat \<Rightarrow> 'i env \<Rightarrow> nat \<Rightarrow> worker_point
       \<Rightarrow> ('c, 'q, 'm) shared \<Rightarrow> ('c, 'q, 'm) shared" where
  "advance R L limit E w Idle s = s"
| "advance R L limit E w (Look_Sender j) s =
     (case fmlookup (sh_refs s) (jb_sender j) of
        Some a \<Rightarrow> goto w (Examine j a) s
      | None \<Rightarrow> goto w (Check_Room j) s)"
| "advance R L limit E w (Examine j a) s =
     (let client = sh_heap s ! a in
      case remote_ep R client of
        None \<Rightarrow> goto w Idle s
      | Some ep \<Rightarrow>
          if ep \<noteq> jb_source j then
            goto w (if is_timed_out R client (instant E) then Take_Token Returning j else Idle) s
          else
            goto w (Record_Received j)
              (s\<lparr>sh_heap := (sh_heap s)[a := update_stats R (length (jb_packet j)) 0 (jb_now j)
                   (set_last_receive_tick_at R (jb_now j) client)]\<rparr>))"
| "advance R L limit E w (Record_Received j) s =
     goto w (Look_Receiver j)
       (s\<lparr>sh_analyzers := dm_modify (jb_sender j) (record_packet R False (instant E)) (sh_analyzers s)\<rparr>)"
| "advance R L limit E w (Check_Room j) s =
     (if dm_len (sh_refs s) < limit then goto w (Take_Token New_Client j) s
      else goto w Idle (s\<lparr>sh_metrics := dropped_packets_update (\<lambda>n. n + 1) (sh_metrics s)\<rparr>))"
| "advance R L limit E w (Take_Token k j) s =
     (let (ok, l) = try_acquire L (sh_limiter s) (sock_ip (jb_source j)) (instant E);
          s = s\<lparr>sh_limiter := l\<rparr>
      in if ok then goto w (Insert_Client k j) s
         else goto w Idle (case k of
             New_Client \<Rightarrow> s\<lparr>sh_metrics := rate_limit_hits_update (\<lambda>n. n + 1) (sh_metrics s)\<rparr>
           | Returning \<Rightarrow> s))"
| "advance R L limit E w (Insert_Client k j) s =
     goto w (Insert_Analyzer k j)
       (s\<lparr>sh_heap := sh_heap s @ [client_new_with_endpoint R (jb_source j) V3_TIMEOUT_SECONDS (instant E)],
          sh_refs := fmupd (jb_sender j) (length (sh_heap s)) (sh_refs s)\<rparr>)"
| "advance R L limit E w (Insert_Analyzer k j) s =
     goto w (case k of New_Client \<Rightarrow> Read_Count j | Returning \<Rightarrow> Look_Receiver j)
       (s\<lparr>sh_analyzers := fmupd (jb_sender j) (analyzer_new R (instant E)) (sh_analyzers s)\<rparr>)"
| "advance R L limit E w (Read_Count j) s = goto w (Store_Count j (dm_len (sh_refs s))) s"
| "advance R L limit E w (Store_Count j n) s =
     goto w (Look_Receiver j) (s\<lparr>sh_metrics := v3_active_clients_update (\<lambda>_. n) (sh_metrics s)\<rparr>)"
| "advance R L limit E w (Look_Receiver j) s =
     (case fmlookup (sh_refs s) (jb_receiver j) of
        None \<Rightarrow> goto w Idle s
      | Some a \<Rightarrow>
          (case remote_ep R (sh_heap s ! a) of
             None \<Rightarrow> goto w Idle s
           | Some ep \<Rightarrow> goto w (if ep = jb_source j then Idle else Send_Packet j a ep) s))"
| "advance R L limit E w (Send_Packet j a ep) s =
     goto w (if send_succeeds E ep (jb_packet j) then Account j a else Record_Loss j)
       (s\<lparr>sh_sent := sh_sent s @ [(ep, jb_packet j)]\<rparr>)"
| "advance R L limit E w (Record_Loss j) s =
     goto w Idle
       (s\<lparr>sh_analyzers := dm_modify (jb_receiver j) (record_packet R True (instant E)) (sh_analyzers s)\<rparr>)"
| "advance R L limit E w (Account j a) s =
     goto w Idle
       (s\<lparr>sh_batches := (sh_batches s)(w := record_v3_tx (of_nat (length (jb_packet j))) (sh_batches s w)),
          sh_heap := (sh_heap s)[a := update_stats R 0 (length (jb_packet j)) (jb_now j) (sh_heap s ! a)]\<rparr>)"

section \<open>All steps\<close>

datatype step_label = Receive nat job | Work nat | Heartbeat

text \<open>
  A worker that is idle takes the next data packet, a worker that is not takes a step; the
  heartbeat removes a timed out client with its analyzer, or reads or stores the number of clients.
\<close>

inductive parallel_step ::
    "('c, 'q, 'i) relay_core \<Rightarrow> ('m, 'g, 'i) rater \<Rightarrow> nat \<Rightarrow> nat \<Rightarrow> step_label
       \<Rightarrow> ('c, 'q, 'm) shared \<Rightarrow> ('c, 'q, 'm) shared \<Rightarrow> bool"
  for R L limit workers where
  receive:
    "w < workers \<Longrightarrow> sh_workers s w = Idle \<Longrightarrow>
     parallel_step R L limit workers (Receive w j) s (goto w (Look_Sender j) s)"
| work:
    "w < workers \<Longrightarrow> sh_workers s w \<noteq> Idle \<Longrightarrow>
     parallel_step R L limit workers (Work w) s (advance R L limit E w (sh_workers s w) s)"
| expire:
    "fmlookup (sh_refs s) k = Some a \<Longrightarrow> is_timed_out R (sh_heap s ! a) now \<Longrightarrow>
     parallel_step R L limit workers Heartbeat s
       (s\<lparr>sh_refs := fmdrop k (sh_refs s), sh_analyzers := fmdrop k (sh_analyzers s)\<rparr>)"
| count:
    "parallel_step R L limit workers Heartbeat s (s\<lparr>sh_counted := Some (dm_len (sh_refs s))\<rparr>)"
| publish:
    "sh_counted s = Some n \<Longrightarrow>
     parallel_step R L limit workers Heartbeat s
       (s\<lparr>sh_metrics := v3_active_clients_update (\<lambda>_. n) (sh_metrics s), sh_counted := None\<rparr>)"

text \<open>The packet a step takes from the network, if it takes one.\<close>

fun received :: "step_label \<Rightarrow> job list" where
  "received (Receive w j) = [j]"
| "received _ = []"

inductive_cases parallel_stepE: "parallel_step R L limit workers l s s'"

abbreviation parallel_path ::
    "('c, 'q, 'i) relay_core \<Rightarrow> ('m, 'g, 'i) rater \<Rightarrow> nat \<Rightarrow> nat \<Rightarrow> step_label list
       \<Rightarrow> ('c, 'q, 'm) shared \<Rightarrow> ('c, 'q, 'm) shared \<Rightarrow> bool" where
  "parallel_path R L limit workers \<equiv> labelled_path (parallel_step R L limit workers)"

lemma goto_simps [simp]:
  "sh_refs (goto w p s) = sh_refs s" "sh_heap (goto w p s) = sh_heap s"
  "sh_analyzers (goto w p s) = sh_analyzers s" "sh_limiter (goto w p s) = sh_limiter s"
  "sh_metrics (goto w p s) = sh_metrics s" "sh_batches (goto w p s) = sh_batches s"
  "sh_sent (goto w p s) = sh_sent s" "sh_counted (goto w p s) = sh_counted s"
  "sh_workers (goto w p s) = (sh_workers s)(w := p)"
  by (simp_all add: goto_def)

text \<open>The tunnel at its start: no clients, every worker idle.\<close>

definition parallel_start :: "('m, 'g, 'i) rater \<Rightarrow> nat \<Rightarrow> ('c, 'q, 'm) shared" where
  "parallel_start L ip_max = \<lparr>
     sh_refs = fmempty, sh_heap = [], sh_analyzers = fmempty,
     sh_limiter = connection_rate_limiter_new L (of_nat ip_max), sh_metrics = metrics_new,
     sh_batches = (\<lambda>_. batch_new), sh_sent = [], sh_counted = None, sh_workers = (\<lambda>_. Idle)\<rparr>"

section \<open>The store is well formed\<close>

text \<open>The addresses a worker holds, and the id it may be about to add to the map.\<close>

fun held :: "worker_point \<Rightarrow> nat set" where
  "held (Examine j a) = {a}"
| "held (Send_Packet j a ep) = {a}"
| "held (Account j a) = {a}"
| "held _ = {}"

text \<open>
  Every address in the map or held by a worker is one of an object, no object is in the map twice,
  and every object has an endpoint.
\<close>

definition store_ok :: "('c, 'q, 'i) relay_core \<Rightarrow> ('c, 'q, 'm) shared \<Rightarrow> bool" where
  "store_ok R s \<longleftrightarrow> refs_ok (sh_refs s) (sh_heap s) \<and>
     (\<forall>w. \<forall>a \<in> held (sh_workers s w). a < length (sh_heap s)) \<and>
     list_all (\<lambda>c. remote_ep R c \<noteq> None) (sh_heap s)"

lemma store_okI:
  assumes "refs_ok (sh_refs s) (sh_heap s)"
    and "\<And>w a. a \<in> held (sh_workers s w) \<Longrightarrow> a < length (sh_heap s)"
    and "\<And>a. a < length (sh_heap s) \<Longrightarrow> remote_ep R (sh_heap s ! a) \<noteq> None"
  shows "store_ok R s"
  using assms unfolding store_ok_def list_all_length by blast

lemma store_okD:
  assumes "store_ok R s"
  shows "refs_ok (sh_refs s) (sh_heap s)"
    and "fmlookup (sh_refs s) k = Some a \<Longrightarrow> a < length (sh_heap s)"
    and "a \<in> held (sh_workers s w) \<Longrightarrow> a < length (sh_heap s)"
    and "a < length (sh_heap s) \<Longrightarrow> \<exists>ep. remote_ep R (sh_heap s ! a) = Some ep"
  using assms unfolding store_ok_def refs_ok_def list_all_length by blast+

lemma store_ok_goto:
  assumes "store_ok R s" and "\<And>a. a \<in> held p \<Longrightarrow> a < length (sh_heap s)"
  shows "store_ok R (goto w p s)"
  by (rule store_okI) (use assms(2) store_okD [OF assms(1)] in \<open>auto split: if_splits\<close>)

text \<open>What the store does not consist of may change freely.\<close>

lemma store_ok_frame:
  assumes "store_ok R s" and "sh_refs s' = sh_refs s" and "sh_heap s' = sh_heap s"
    and "sh_workers s' = sh_workers s"
  shows "store_ok R s'"
  using assms by (simp add: store_ok_def)

lemma store_ok_heap_update:
  assumes "store_ok R s" and "a < length (sh_heap s) \<Longrightarrow> remote_ep R c = remote_ep R (sh_heap s ! a)"
  shows "store_ok R (s\<lparr>sh_heap := (sh_heap s)[a := c]\<rparr>)"
proof (rule store_okI, goal_cases)
  case (3 b)
  then show ?case using assms(2) store_okD(4) [OF assms(1), of b] by (cases "b = a") auto
qed (use store_okD [OF assms(1)] in auto)

lemma store_ok_new:
  assumes "store_ok R s" and "remote_ep R c \<noteq> None"
  shows "store_ok R (s\<lparr>sh_heap := sh_heap s @ [c], sh_refs := fmupd k (length (sh_heap s)) (sh_refs s)\<rparr>)"
proof (rule store_okI, goal_cases)
  case 1
  then show ?case using refs_ok_new [OF store_okD(1) [OF assms(1)]] by simp
next
  case (2 w a)
  then show ?case using store_okD(3) [OF assms(1), of a w] by simp
next
  case (3 a)
  then show ?case using assms(2) store_okD(4) [OF assms(1), of a] by (auto simp: nth_append)
qed

lemma store_ok_drop:
  assumes "store_ok R s"
  shows "store_ok R (s\<lparr>sh_refs := fmdrop k (sh_refs s), sh_analyzers := q\<rparr>)"
  by (rule store_okI) (use store_okD [OF assms] in \<open>auto intro: refs_ok_drop\<close>)

lemma store_ok_advance:
  assumes laws: "endpoint_laws R" and ok: "store_ok R s"
  shows "store_ok R (advance R L limit E w (sh_workers s w) s)"
proof -
  note ep = endpoint_lawsD [OF laws]
  note held = store_okD(3) [OF ok, of _ w]
  show ?thesis
  proof (cases "sh_workers s w")
    case (Look_Sender j)
    with store_okD(2) [OF ok] show ?thesis
      by (auto intro!: store_ok_goto [OF ok] split: option.splits)
  next
    case (Examine j a)
    have "store_ok R (s\<lparr>sh_heap := (sh_heap s)[a := update_stats R (length (jb_packet j)) 0 (jb_now j)
        (set_last_receive_tick_at R (jb_now j) (sh_heap s ! a))]\<rparr>)"
      by (rule store_ok_heap_update [OF ok]) (simp add: ep)
    with Examine show ?thesis
      by (auto simp: Let_def intro!: store_ok_goto ok split: option.splits)
  next
    case (Insert_Client k j)
    with store_ok_new [OF ok] show ?thesis by (auto simp: ep intro!: store_ok_goto)
  next
    case (Look_Receiver j)
    with store_okD(2) [OF ok] show ?thesis
      by (auto intro!: store_ok_goto [OF ok] split: option.splits if_splits)
  next
    case (Send_Packet j a d)
    with held show ?thesis
      by (auto intro!: store_ok_goto store_ok_frame [OF ok])
  next
    case (Account j a)
    have "store_ok R (s\<lparr>sh_heap := (sh_heap s)[a := update_stats R 0 (length (jb_packet j)) (jb_now j)
        (sh_heap s ! a)]\<rparr>)"
      by (rule store_ok_heap_update [OF ok]) (simp add: ep)
    then have "store_ok R (s\<lparr>sh_batches := b, sh_heap := (sh_heap s)[a := update_stats R 0
        (length (jb_packet j)) (jb_now j) (sh_heap s ! a)]\<rparr>)" for b
      by (rule store_ok_frame) simp_all
    with Account show ?thesis by (auto intro!: store_ok_goto)
  next
    case (Take_Token k j)
    then show ?thesis
      by (auto simp: Let_def intro!: store_ok_goto store_ok_frame [OF ok]
          split: prod.splits admission_kind.splits)
  qed (auto simp: ok intro!: store_ok_goto store_ok_frame [OF ok] split: admission_kind.splits)
qed

lemma store_ok_step:
  assumes "endpoint_laws R" and "store_ok R s" and "parallel_step R L limit workers l s s'"
  shows "store_ok R s'"
  using assms(3)
proof (cases rule: parallel_step.cases)
  case (receive w j)
  with assms(2) show ?thesis by (auto intro!: store_ok_goto)
next
  case (work w E)
  with store_ok_advance [OF assms(1,2)] show ?thesis by simp
next
  case expire
  with store_ok_drop [OF assms(2)] show ?thesis by simp
qed (auto intro: store_ok_frame [OF assms(2)])

lemma store_ok_path:
  assumes "endpoint_laws R" and "parallel_path R L limit workers ls s s'" and "store_ok R s"
  shows "store_ok R s'"
  by (rule labelled_path_invariant [where I = "store_ok R", OF assms(2,3)])
     (rule store_ok_step [OF assms(1)])

lemma store_ok_start [simp]: "store_ok R (parallel_start L n)"
  by (simp add: store_ok_def parallel_start_def)

end
