(* ===== verification/Parallel_Refinement.thy ===== *)
theory Parallel_Refinement
  imports Parallel_V3
begin

text \<open>
  What the fine steps have to do with the handler of \<open>Tunnel_V3\<close>: a worker that handles its packet
  while no other thread takes a step ends exactly where \<open>v3_handle_data_forward\<close> ends. The proof
  follows the handler's two halves, the admission of the sender and the forwarding.
\<close>

section \<open>The tunnel that the shared state stands for\<close>

definition clients_of :: "('c, 'q, 'm) shared \<Rightarrow> (u32, 'c) fmap" where
  "clients_of s = deref (sh_refs s) (sh_heap s)"

definition tunnel_of :: "('c, 'q, 'm) tunnel_v3 \<Rightarrow> ('c, 'q, 'm) shared \<Rightarrow> ('c, 'q, 'm) tunnel_v3" where
  "tunnel_of t s = t\<lparr>v3_mappings := clients_of s, v3_connection_limiter := sh_limiter s,
     v3_quality_analyzers := sh_analyzers s\<rparr>"

definition io_of :: "nat \<Rightarrow> ('c, 'q, 'm) shared \<Rightarrow> io" where
  "io_of w s = \<lparr>io_metrics = sh_metrics s, io_batch = sh_batches s w, io_sent = sh_sent s\<rparr>"

lemma tunnel_of_update:
  "(tunnel_of t s)\<lparr>v3_mappings := m\<rparr> =
     t\<lparr>v3_mappings := m, v3_connection_limiter := sh_limiter s, v3_quality_analyzers := sh_analyzers s\<rparr>"
  "(tunnel_of t s)\<lparr>v3_quality_analyzers := q\<rparr> =
     t\<lparr>v3_mappings := clients_of s, v3_connection_limiter := sh_limiter s, v3_quality_analyzers := q\<rparr>"
  by (cases t; simp add: tunnel_of_def)+

lemma tunnel_of_fields [simp]:
  "v3_mappings (tunnel_of t s) = clients_of s" "v3_connection_limiter (tunnel_of t s) = sh_limiter s"
  "v3_quality_analyzers (tunnel_of t s) = sh_analyzers s" "v3_config (tunnel_of t s) = v3_config t"
  by (simp_all add: tunnel_of_def)

lemma clients_of_lookup: "fmlookup (clients_of s) k = map_option (\<lambda>a. sh_heap s ! a) (fmlookup (sh_refs s) k)"
  by (simp add: clients_of_def)

lemma clients_of_len [simp]: "dm_len (clients_of s) = dm_len (sh_refs s)"
  by (simp add: clients_of_def)

lemma clients_of_goto [simp]: "clients_of (goto w p s) = clients_of s"
  by (simp add: clients_of_def)

section \<open>Running alone\<close>

definition step_alone ::
    "('c, 'q, 'i) relay_core \<Rightarrow> ('m, 'g, 'i) rater \<Rightarrow> nat \<Rightarrow> 'i env \<Rightarrow> nat
       \<Rightarrow> ('c, 'q, 'm) shared \<Rightarrow> ('c, 'q, 'm) shared" where
  "step_alone R L limit E w s = advance R L limit E w (sh_workers s w) s"

lemma idle_step: "sh_workers s w = Idle \<Longrightarrow> step_alone R L limit E w s = s"
  by (simp add: step_alone_def)

lemma idle_alone: "sh_workers s w = Idle \<Longrightarrow> (step_alone R L limit E w ^^ n) s = s"
  by (induction n) (simp_all add: step_alone_def)

lemma steps_alone: "(step_alone R L limit E w ^^ Suc n) s = (step_alone R L limit E w ^^ n) (step_alone R L limit E w s)"
  by (simp add: funpow_swap1)

lemma advance_others:
  "v \<noteq> w \<Longrightarrow> sh_workers (advance R L limit E w p s) v = sh_workers s v"
  by (cases p) (auto simp: Let_def split: option.splits prod.splits admission_kind.splits)

lemma steps_alone_others:
  "v \<noteq> w \<Longrightarrow> sh_workers ((step_alone R L limit E w ^^ n) s) v = sh_workers s v"
  by (induction n) (simp_all add: step_alone_def advance_others)

lemma alone_steps:
  assumes "w < workers"
  shows "\<exists>ls. parallel_path R L limit workers ls s ((step_alone R L limit E w ^^ n) s) \<and>
    set ls \<subseteq> {Work w} \<and> length ls \<le> n"
proof -
  have "step_alone R L limit E w s = s \<or> parallel_step R L limit workers (Work w) s (step_alone R L limit E w s)" for s
    using parallel_step.work [OF assms] idle_step unfolding step_alone_def by metis
  then show ?thesis by (rule labelled_path_funpow)
qed

section \<open>The second half: forwarding\<close>

definition forward_half ::
    "('c, 'q, 'i) relay_core \<Rightarrow> 'i env \<Rightarrow> u32 \<Rightarrow> u8 list \<Rightarrow> socket_addr \<Rightarrow> u64
       \<Rightarrow> ('c, 'q, 'm) v3_state \<Rightarrow> ('c, 'q, 'm) v3_state" where
  "forward_half R E receiver_id packet remote now s =
     (let (t, io) = s in
      case v3_forward_info R receiver_id remote t of
        None \<Rightarrow> (t, io)
      | Some ep \<Rightarrow>
          let io = io_send ep packet io in
          if send_succeeds E ep packet then
            (t\<lparr>v3_mappings := dm_modify receiver_id (update_stats R 0 (length packet) now) (v3_mappings t)\<rparr>,
             io_batch_update (record_v3_tx (of_nat (length packet))) io)
          else
            (t\<lparr>v3_quality_analyzers := dm_modify receiver_id (record_packet R True (instant E))
                 (v3_quality_analyzers t)\<rparr>, io))"

lemma v3_handle_data_forward_halves:
  "v3_handle_data_forward R L E sid rid p src now s =
     (let (valid, t, io) = v3_admit_sender R L E sid p src now s
      in if valid then forward_half R E rid p src now (t, io) else (t, io))"
  by (simp add: v3_handle_data_forward_def forward_half_def case_prod_beta Let_def)

lemma forward_info_of:
  "v3_forward_info R rid src (tunnel_of t s) =
     (case fmlookup (sh_refs s) rid of None \<Rightarrow> None
      | Some a \<Rightarrow> (case remote_ep R (sh_heap s ! a) of None \<Rightarrow> None
                 | Some ep \<Rightarrow> if ep = src then None else Some ep))"
  by (simp add: v3_forward_info_def tunnel_of_def clients_of_lookup split: option.splits)

lemma forward_alone:
  fixes L :: "('m, 'g, 'i) rater" and E :: "'i env" and limit :: nat
  assumes ok: "store_ok R s" and at: "sh_workers s w = Look_Receiver j"
  defines "s' \<equiv> (step_alone R L limit E w ^^ 3) s"
  shows "sh_workers s' w = Idle"
    and "(tunnel_of t s', io_of w s') =
      forward_half R E (jb_receiver j) (jb_packet j) (jb_source j) (jb_now j) (tunnel_of t s, io_of w s)"
proof -
  note run = s'_def numeral_3_eq_3 step_alone_def
  have "sh_workers s' w = Idle \<and> (tunnel_of t s', io_of w s') =
      forward_half R E (jb_receiver j) (jb_packet j) (jb_source j) (jb_now j) (tunnel_of t s, io_of w s)"
  proof (cases "v3_forward_info R (jb_receiver j) (jb_source j) (tunnel_of t s)")
    case None
    then have "step_alone R L limit E w s = goto w Idle s"
      by (auto simp: step_alone_def at forward_info_of split: option.splits if_splits)
    with None show ?thesis
      by (simp add: s'_def numeral_3_eq_3 steps_alone idle_step forward_half_def tunnel_of_def io_of_def
          del: funpow.simps(2))
  next
    case (Some ep)
    then obtain a where a: "fmlookup (sh_refs s) (jb_receiver j) = Some a"
      "remote_ep R (sh_heap s ! a) = Some ep" "ep \<noteq> jb_source j"
      by (auto simp: forward_info_of split: option.splits if_splits)
    have goal: "forward_half R E (jb_receiver j) (jb_packet j) (jb_source j) (jb_now j) (tunnel_of t s, io_of w s) =
      (if send_succeeds E ep (jb_packet j) then
         ((tunnel_of t s)\<lparr>v3_mappings := dm_modify (jb_receiver j)
             (update_stats R 0 (length (jb_packet j)) (jb_now j)) (clients_of s)\<rparr>,
          io_batch_update (record_v3_tx (of_nat (length (jb_packet j)))) (io_send ep (jb_packet j) (io_of w s)))
       else
         ((tunnel_of t s)\<lparr>v3_quality_analyzers := dm_modify (jb_receiver j)
             (record_packet R True (instant E)) (sh_analyzers s)\<rparr>,
          io_send ep (jb_packet j) (io_of w s)))"
      by (simp add: forward_half_def Some Let_def)
    show ?thesis
      using deref_write [OF store_okD(1) [OF ok] a(1), of "update_stats R 0 (length (jb_packet j)) (jb_now j)"]
      unfolding goal tunnel_of_update
      by (cases "send_succeeds E ep (jb_packet j)")
         (simp_all add: s'_def numeral_3_eq_3 steps_alone at a
           step_alone_def tunnel_of_def io_of_def clients_of_def io_send_def del: funpow.simps(2))
  qed
  then show "sh_workers s' w = Idle" "(tunnel_of t s', io_of w s') =
      forward_half R E (jb_receiver j) (jb_packet j) (jb_source j) (jb_now j) (tunnel_of t s, io_of w s)"
    by blast+
qed

section \<open>The first half: admission\<close>

lemma store_ok_alone:
  assumes "endpoint_laws R" and "store_ok R s"
  shows "store_ok R ((step_alone R L limit E w ^^ n) s)"
  using assms(2)
  by (induction n) (simp_all add: step_alone_def store_ok_advance [OF assms(1)])

lemma tunnel_of_other_fields [simp]:
  "v3_ping_limiter (tunnel_of t s) = v3_ping_limiter t"
  "v3_maintenance_mode (tunnel_of t s) = v3_maintenance_mode t"
  "v3_last_command_tick (tunnel_of t s) = v3_last_command_tick t"
  "v3_maintenance_password_sha1 (tunnel_of t s) = v3_maintenance_password_sha1 t"
  by (simp_all add: tunnel_of_def)

lemma tunnel_of_eqI:
  assumes "v3_mappings t' = clients_of s" and "v3_connection_limiter t' = sh_limiter s"
    and "v3_quality_analyzers t' = sh_analyzers s" and "v3_config t' = v3_config t"
    and "v3_ping_limiter t' = v3_ping_limiter t" and "v3_maintenance_mode t' = v3_maintenance_mode t"
    and "v3_last_command_tick t' = v3_last_command_tick t"
    and "v3_maintenance_password_sha1 t' = v3_maintenance_password_sha1 t"
  shows "tunnel_of t s = t'"
  using assms by (cases t; cases t') (simp add: tunnel_of_def)

text \<open>Seven steps suffice for every way through the admission.\<close>

definition admitted ::
    "('c, 'q, 'm) tunnel_v3 \<Rightarrow> nat \<Rightarrow> job \<Rightarrow> ('c, 'q, 'm) shared \<Rightarrow> bool \<times> ('c, 'q, 'm) v3_state \<Rightarrow> bool" where
  "admitted t w j s r \<longleftrightarrow>
     sh_workers s w = (if fst r then Look_Receiver j else Idle) \<and>
     tunnel_of t s = fst (snd r) \<and> io_of w s = snd (snd r)"

lemma admit_unknown_alone:
  assumes ok: "store_ok R s" and at: "sh_workers s w = Look_Sender j"
    and absent: "fmlookup (sh_refs s) (jb_sender j) = None"
    and adm: "v3_admit_sender R L E (jb_sender j) (jb_packet j) (jb_source j) now
      (tunnel_of t s, io_of w s) = r"
  shows "\<exists>n \<le> 7. admitted t w j ((step_alone R L (max_clients (v3_config t)) E w ^^ n) s) r"
proof -
  obtain b l where tok: "try_acquire L (sh_limiter s) (sock_ip (jb_source j)) (instant E) = (b, l)"
    by fastforce
  have nop: "fmlookup (clients_of s) (jb_sender j) = None" by (simp add: clients_of_lookup absent)
  note run = step_alone_def steps_alone numeral_eq_Suc at absent tok
  consider "\<not> dm_len (sh_refs s) < max_clients (v3_config t)"
    | "dm_len (sh_refs s) < max_clients (v3_config t)" "\<not> b"
    | "dm_len (sh_refs s) < max_clients (v3_config t)" "b" by blast
  then show ?thesis
  proof cases
    case 1
    from 1 adm [symmetric] nop show ?thesis
      by (intro exI [of _ 2])
         (auto simp: run admitted_def v3_admit_sender_def io_of_def clients_of_def Let_def intro!: tunnel_of_eqI
           simp del: funpow.simps(2))
  next
    case 2
    from 2 adm [symmetric] nop tok show ?thesis
      by (intro exI [of _ 3])
         (auto simp: run admitted_def v3_admit_sender_def io_of_def clients_of_def Let_def intro!: tunnel_of_eqI
           simp del: funpow.simps(2))
  next
    case 3
    let ?c = "client_new_with_endpoint R (jb_source j) V3_TIMEOUT_SECONDS (instant E)"
    from 3 adm [symmetric] nop tok deref_new [OF store_okD(1) [OF ok], where c = ?c and k = "jb_sender j"] show ?thesis
      by (intro exI [of _ 7])
         (auto simp: run admitted_def v3_admit_sender_def io_of_def clients_of_def dm_len_fmupd_any [where a = "length (sh_heap s)"] Let_def
           intro!: tunnel_of_eqI simp del: funpow.simps(2))
  qed
qed

lemma admit_known_alone:
  assumes ok: "store_ok R s" and at: "sh_workers s w = Look_Sender j"
    and known: "fmlookup (sh_refs s) (jb_sender j) = Some a"
    and adm: "v3_admit_sender R L E (jb_sender j) (jb_packet j) (jb_source j) (jb_now j)
      (tunnel_of t s, io_of w s) = r"
  shows "\<exists>n \<le> 7. admitted t w j ((step_alone R L limit E w ^^ n) s) r"
proof -
  let ?client = "sh_heap s ! a"
  from store_okD(2,4) [OF ok] known obtain ep where ep: "remote_ep R ?client = Some ep" by blast
  obtain b l where tok: "try_acquire L (sh_limiter s) (sock_ip (jb_source j)) (instant E) = (b, l)"
    by fastforce
  have look: "fmlookup (clients_of s) (jb_sender j) = Some ?client" by (simp add: clients_of_lookup known)
  note run = step_alone_def steps_alone numeral_eq_Suc at known tok ep
  consider "ep = jb_source j" | "ep \<noteq> jb_source j" "\<not> is_timed_out R ?client (instant E)"
    | "ep \<noteq> jb_source j" "is_timed_out R ?client (instant E)" "\<not> b"
    | "ep \<noteq> jb_source j" "is_timed_out R ?client (instant E)" "b" by blast
  then show ?thesis
  proof cases
    case 1
    let ?f = "update_stats R (length (jb_packet j)) 0 (jb_now j) \<circ> set_last_receive_tick_at R (jb_now j)"
    from 1 adm [symmetric] look deref_write [OF store_okD(1) [OF ok] known, of ?f] ep show ?thesis
      by (intro exI [of _ 3])
         (auto simp: run admitted_def v3_admit_sender_def io_of_def clients_of_def Let_def
           intro!: tunnel_of_eqI simp del: funpow.simps(2))
  next
    case 2
    from 2 adm [symmetric] look ep show ?thesis
      by (intro exI [of _ 2])
         (auto simp: run admitted_def v3_admit_sender_def io_of_def clients_of_def Let_def
           intro!: tunnel_of_eqI simp del: funpow.simps(2))
  next
    case 3
    from 3 adm [symmetric] look ep tok show ?thesis
      by (intro exI [of _ 3])
         (auto simp: run admitted_def v3_admit_sender_def io_of_def clients_of_def Let_def
           intro!: tunnel_of_eqI simp del: funpow.simps(2))
  next
    case 4
    let ?c = "client_new_with_endpoint R (jb_source j) V3_TIMEOUT_SECONDS (instant E)"
    from 4 adm [symmetric] look ep tok deref_new [OF store_okD(1) [OF ok], where c = ?c and k = "jb_sender j"] show ?thesis
      by (intro exI [of _ 5])
         (auto simp: run admitted_def v3_admit_sender_def io_of_def clients_of_def Let_def
           intro!: tunnel_of_eqI simp del: funpow.simps(2))
  qed
qed

lemma handler_alone:
  fixes L :: "('m, 'g, 'i) rater" and E :: "'i env" and t :: "('c, 'q, 'm) tunnel_v3"
  assumes laws: "endpoint_laws R" and ok: "store_ok R s" and at: "sh_workers s w = Look_Sender j"
  defines "run n \<equiv> (step_alone R L (max_clients (v3_config t)) E w ^^ n) s"
  shows "\<exists>n \<le> 10. sh_workers (run n) w = Idle \<and> (tunnel_of t (run n), io_of w (run n)) =
    v3_handle_data_forward R L E (jb_sender j) (jb_receiver j) (jb_packet j) (jb_source j) (jb_now j)
      (tunnel_of t s, io_of w s)"
proof -
  obtain valid t' io' where adm: "v3_admit_sender R L E (jb_sender j) (jb_packet j) (jb_source j) (jb_now j)
      (tunnel_of t s, io_of w s) = (valid, t', io')" by (metis prod_cases3)
  obtain n where n: "n \<le> 7" "admitted t w j (run n) (valid, t', io')"
    unfolding run_def
    using admit_unknown_alone [OF ok at _ adm] admit_known_alone [OF ok at _ adm]
    by (cases "fmlookup (sh_refs s) (jb_sender j)") blast+
  show ?thesis
  proof (cases valid)
    case False
    with n adm show ?thesis
      by (intro exI [of _ n]) (simp add: admitted_def v3_handle_data_forward_halves)
  next
    case True
    have store: "store_ok R (run n)" unfolding run_def by (rule store_ok_alone [OF laws ok])
    have split: "run (3 + n) = (step_alone R L (max_clients (v3_config t)) E w ^^ 3) (run n)"
      unfolding run_def funpow_add o_apply ..
    from n True have point: "sh_workers (run n) w = Look_Receiver j" by (simp add: admitted_def)
    note half = forward_alone [OF store point, where L = L and E = E and limit = "max_clients (v3_config t)"]
    from n adm True half(1) half(2) [of t] show ?thesis
      by (intro exI [of _ "3 + n"])
         (simp add: split admitted_def v3_handle_data_forward_halves)
  qed
qed

text \<open>An idle worker takes a packet and handles it alone; the same again and again is a serial history.\<close>

lemma handled_alone:
  fixes L :: "('m, 'g, 'i) rater" and E :: "'i env" and t :: "('c, 'q, 'm) tunnel_v3"
  assumes "endpoint_laws R" and "store_ok R s" and "w < workers" and "sh_workers s w = Idle"
  shows "\<exists>ls s'. parallel_path R L (max_clients (v3_config t)) workers ls s s' \<and>
    concat (map received ls) = [j] \<and> store_ok R s' \<and> sh_workers s' = sh_workers s \<and>
    (tunnel_of t s', io_of w s') =
      v3_handle_data_forward R L E (jb_sender j) (jb_receiver j) (jb_packet j) (jb_source j) (jb_now j)
        (tunnel_of t s, io_of w s)"
proof -
  let ?s = "goto w (Look_Sender j) s"
  let ?run = "\<lambda>n. (step_alone R L (max_clients (v3_config t)) E w ^^ n) ?s"
  have ok: "store_ok R ?s" by (rule store_ok_goto [OF assms(2)]) simp
  have at: "sh_workers ?s w = Look_Sender j" by simp
  have same: "tunnel_of t ?s = tunnel_of t s" "io_of w ?s = io_of w s"
    by (simp_all add: tunnel_of_def io_of_def)
  from handler_alone [OF assms(1) ok at, of L t E] obtain n where n: "sh_workers (?run n) w = Idle"
    "(tunnel_of t (?run n), io_of w (?run n)) = v3_handle_data_forward R L E (jb_sender j) (jb_receiver j)
       (jb_packet j) (jb_source j) (jb_now j) (tunnel_of t s, io_of w s)" unfolding same by blast
  from alone_steps [OF assms(3), where R = R and L = L and limit = "max_clients (v3_config t)" and s = ?s and E = E and n = n]
  obtain ls where ls: "parallel_path R L (max_clients (v3_config t)) workers ls ?s (?run n)" "set ls \<subseteq> {Work w}"
    by blast
  have "parallel_step R L (max_clients (v3_config t)) workers (Receive w j) s ?s"
    by (rule parallel_step.receive [OF assms(3,4)])
  with ls(1) have "parallel_path R L (max_clients (v3_config t)) workers (Receive w j # ls) s (?run n)"
    by (rule labelled_path.go [rotated])
  moreover have "concat (map received ls) = []" using ls(2) by auto
  moreover have "sh_workers (?run n) v = sh_workers s v" for v
    using n(1) assms(4) by (cases "v = w") (simp_all add: steps_alone_others)
  moreover have "store_ok R (?run n)" by (rule store_ok_alone [OF assms(1) ok])
  ultimately show ?thesis using n(2) by (intro exI [of _ "Receive w j # ls"] exI [of _ "?run n"]) auto
qed

definition handle_jobs ::
    "('c, 'q, 'i) relay_core \<Rightarrow> ('m, 'g, 'i) rater \<Rightarrow> ('i env \<times> job) list \<Rightarrow> ('c, 'q, 'm) v3_state \<Rightarrow> ('c, 'q, 'm) v3_state" where
  "handle_jobs R L ejs s = fold (\<lambda>(E, j). v3_handle_data_forward R L E (jb_sender j) (jb_receiver j)
     (jb_packet j) (jb_source j) (jb_now j)) ejs s"

lemma serial_history:
  fixes L :: "('m, 'g, 'i) rater" and t :: "('c, 'q, 'm) tunnel_v3"
  assumes "endpoint_laws R" and "w < workers" and "store_ok R s" and "sh_workers s w = Idle"
  shows "\<exists>ls s'. parallel_path R L (max_clients (v3_config t)) workers ls s s' \<and>
    concat (map received ls) = map snd ejs \<and> sh_workers s' = sh_workers s \<and>
    (tunnel_of t s', io_of w s') = handle_jobs R L ejs (tunnel_of t s, io_of w s)"
  using assms(3,4)
proof (induction ejs arbitrary: s)
  case Nil
  then show ?case
    by (intro exI [of _ "[]"] exI [of _ s]) (simp add: handle_jobs_def labelled_path.stop)
next
  case (Cons ej ejs)
  obtain E j where ej: "ej = (E, j)" by fastforce
  from handled_alone [OF assms(1) Cons.prems(1) assms(2) Cons.prems(2), of L t j E]
  obtain ls s1 where run: "parallel_path R L (max_clients (v3_config t)) workers ls s s1"
    "concat (map received ls) = [j]" "store_ok R s1" "sh_workers s1 = sh_workers s"
    "(tunnel_of t s1, io_of w s1) = v3_handle_data_forward R L E (jb_sender j) (jb_receiver j)
       (jb_packet j) (jb_source j) (jb_now j) (tunnel_of t s, io_of w s)" by blast
  with Cons.IH [of s1] Cons.prems(2) obtain ls' s' where
    "parallel_path R L (max_clients (v3_config t)) workers ls' s1 s'"
    "concat (map received ls') = map snd ejs" "sh_workers s' = sh_workers s1"
    "(tunnel_of t s', io_of w s') = handle_jobs R L ejs (tunnel_of t s1, io_of w s1)" by auto
  with run show ?case
    by (intro exI [of _ "ls @ ls'"] exI [of _ s']) (auto simp: ej handle_jobs_def intro: labelled_path_append)
qed

text \<open>
  C27: Without interference the fine steps are the handler. From every state, whatever the other
  workers are doing, a worker that handles the packet it has received while no other thread takes
  a step is idle again after at most ten steps, and the tunnel, the counters, its batch and the
  datagrams sent are what \<open>v3_handle_data_forward\<close> computes, on all its branches.
\<close>

theorem admission_alone_is_atomic:
  assumes "endpoint_laws R" and "store_ok R s" and "w < workers" and "sh_workers s w = Look_Sender j"
  shows "\<exists>ls s'. parallel_path R L (max_clients (v3_config t)) workers ls s s' \<and>
    set ls \<subseteq> {Work w} \<and> length ls \<le> 10 \<and> sh_workers s' = (sh_workers s)(w := Idle) \<and>
    (tunnel_of t s', io_of w s') =
      v3_handle_data_forward R L E (jb_sender j) (jb_receiver j) (jb_packet j) (jb_source j) (jb_now j)
        (tunnel_of t s, io_of w s)"
proof -
  let ?run = "\<lambda>n. (step_alone R L (max_clients (v3_config t)) E w ^^ n) s"
  from handler_alone [OF assms(1,2,4), of L t E] obtain n where n: "n \<le> 10" "sh_workers (?run n) w = Idle"
    "(tunnel_of t (?run n), io_of w (?run n)) = v3_handle_data_forward R L E (jb_sender j) (jb_receiver j)
       (jb_packet j) (jb_source j) (jb_now j) (tunnel_of t s, io_of w s)" by blast
  from alone_steps [OF assms(3), where R = R and L = L and limit = "max_clients (v3_config t)" and s = s and E = E and n = n] obtain ls where
    "parallel_path R L (max_clients (v3_config t)) workers ls s (?run n)" "set ls \<subseteq> {Work w}" "length ls \<le> n"
    by blast
  moreover from n(2) have "sh_workers (?run n) = (sh_workers s)(w := Idle)"
    by (auto simp: steps_alone_others)
  ultimately show ?thesis using n(1,3) by (intro exI conjI) (assumption | simp)+
qed

definition fresh_tunnel :: "(sample_client, nat, sample_manager) tunnel_v3" where
  "fresh_tunnel = tunnel_v3_new sample_rater sample_sha1 sample_config"

definition sample_job :: "u32 \<Rightarrow> u32 \<Rightarrow> socket_addr \<Rightarrow> job" where
  "sample_job sid rid src = \<lparr>jb_sender = sid, jb_receiver = rid, jb_packet = [1, 2, 3, 4, 5, 6, 7, 8, 9],
     jb_source = src, jb_now = 5\<rparr>"

text \<open>Two workers hold a packet each; the second one runs alone.\<close>

definition two_packets :: "job \<Rightarrow> job \<Rightarrow> (sample_client, nat, sample_manager) shared" where
  "two_packets j j' = goto 1 (Look_Sender j') (goto 0 (Look_Sender j) (parallel_start sample_rater 8))"

lemma store_ok_two_packets [simp]: "store_ok sample_core (two_packets j j')"
  unfolding two_packets_def by (rule store_ok_goto, rule store_ok_goto) simp_all

theorem admission_alone_is_atomic_witness:
  "\<exists>ls s'. parallel_path sample_core sample_rater 2 2 ls
      (two_packets (sample_job 7 8 addr_a) (sample_job 8 7 addr_b)) s' \<and>
    set ls \<subseteq> {Work 1} \<and> sh_workers s' 0 = Look_Sender (sample_job 7 8 addr_a) \<and> sh_workers s' 1 = Idle \<and>
    fmlookup (clients_of s') 8 \<noteq> None \<and> fmlookup (clients_of s') 7 = None"
proof -
  let ?s = "two_packets (sample_job 7 8 addr_a) (sample_job 8 7 addr_b)"
  let ?t = "fresh_tunnel :: (sample_client, nat, sample_manager) tunnel_v3"
  have at: "sh_workers ?s 0 = Look_Sender (sample_job 7 8 addr_a)"
    "sh_workers ?s 1 = Look_Sender (sample_job 8 7 addr_b)" "max_clients (v3_config ?t) = 2"
    by (simp_all add: two_packets_def fresh_tunnel_def tunnel_v3_new_def sample_config_def)
  from admission_alone_is_atomic [OF sample_endpoint_laws store_ok_two_packets _ at(2), of 2 sample_rater ?t
      "sample_env 5"] obtain ls s' where
    run: "parallel_path sample_core sample_rater 2 2 ls ?s s'" "set ls \<subseteq> {Work 1}"
      "sh_workers s' = (sh_workers ?s)(1 := Idle)" and
    result: "(tunnel_of ?t s', io_of 1 s') = v3_handle_data_forward sample_core sample_rater (sample_env 5) 8 7
      [1, 2, 3, 4, 5, 6, 7, 8, 9] addr_b 5 (tunnel_of ?t ?s, io_of 1 ?s)"
    by (auto simp: at sample_job_def)
  have "clients_of s' = v3_mappings (fst (tunnel_of ?t s', io_of 1 s'))" by simp
  also have "fmlookup \<dots> 8 \<noteq> None \<and> fmlookup \<dots> 7 = None" unfolding result
    by (simp add: v3_handle_data_forward_halves forward_half_def v3_admit_sender_def v3_forward_info_def
        clients_of_def two_packets_def parallel_start_def fresh_tunnel_def tunnel_v3_new_def sample_config_def
        connection_rate_limiter_new_def try_acquire_def sample_rater_def sample_core_def tunnel_of_def
        Let_def)
  finally show ?thesis using run at by (intro exI [of _ ls] exI [of _ s']) simp
qed

end
