(* ===== verification/Admission_Race.thy ===== *)
theory Admission_Race
  imports Parallel_Refinement
begin

text \<open>
  What the parallel workers of the version 3 tunnel keep and what they break. The bound on the
  number of clients, the store and the number of steps hold under every interleaving; the limit
  itself, the check that a live client is not displaced, and the gauge do not.
\<close>

section \<open>What every interleaving keeps\<close>

text \<open>
  C30: The store is well formed at all times. From an empty tunnel, whatever the workers and the
  heartbeat do in whatever order, every address in the map and every address a worker still holds
  is that of an object, also when the client has meanwhile been removed or replaced; no two ids
  share an object; and every object has an endpoint, so no worker meets a client without one.
\<close>

theorem parallel_store_typed:
  assumes "endpoint_laws R" and "parallel_path R L limit workers ls (parallel_start L n) s"
  shows "(\<forall>k a. fmlookup (sh_refs s) k = Some a \<longrightarrow> a < length (sh_heap s)) \<and>
    (\<forall>w. \<forall>a \<in> held (sh_workers s w). a < length (sh_heap s)) \<and>
    (\<forall>k k' a. fmlookup (sh_refs s) k = Some a \<longrightarrow> fmlookup (sh_refs s) k' = Some a \<longrightarrow> k = k') \<and>
    list_all (\<lambda>c. remote_ep R c \<noteq> None) (sh_heap s)"
  using store_ok_path [OF assms store_ok_start] unfolding store_ok_def refs_ok_def by blast

subsection \<open>The number of clients\<close>

text \<open>
  The ids that are in the map or that a worker may still put there: it has found the client, or
  has seen room for it, and has not yet inserted it.
\<close>

fun entering :: "worker_point \<Rightarrow> u32 set" where
  "entering (Examine j a) = {jb_sender j}"
| "entering (Take_Token k j) = {jb_sender j}"
| "entering (Insert_Client k j) = {jb_sender j}"
| "entering _ = {}"

definition occupied :: "nat \<Rightarrow> ('c, 'q, 'm) shared \<Rightarrow> u32 set" where
  "occupied workers s = dom (fmlookup (sh_refs s)) \<union> (\<Union>w \<in> {..<workers}. entering (sh_workers s w))"

lemma finite_entering [simp]: "finite (entering p)" and card_entering: "card (entering p) \<le> 1"
  by (cases p; simp)+

lemma finite_occupied [simp]: "finite (occupied workers s)"
  by (simp add: occupied_def)

lemma card_occupied_le: "card (occupied workers s) \<le> dm_len (sh_refs s) + workers"
proof -
  have "card (\<Union>w \<in> {..<workers}. entering (sh_workers s w)) \<le> (\<Sum>w \<in> {..<workers}. card (entering (sh_workers s w)))"
    by (rule card_UN_le) simp
  also have "\<dots> \<le> (\<Sum>w \<in> {..<workers}. 1)" by (rule sum_mono) (rule card_entering)
  finally show ?thesis
    using card_Un_le [of "dom (fmlookup (sh_refs s))" "\<Union>w \<in> {..<workers}. entering (sh_workers s w)"]
    by (simp add: occupied_def dm.len_card)
qed

lemma dm_len_le_occupied: "dm_len (sh_refs s) \<le> card (occupied workers s)"
  unfolding dm.len_card by (rule card_mono) (auto simp: occupied_def)

text \<open>A worker that does not pass the room check adds nothing to what is occupied.\<close>

lemma occupied_advance:
  assumes "w < workers"
    and "\<And>j. sh_workers s w = Check_Room j \<Longrightarrow> \<not> dm_len (sh_refs s) < limit"
  shows "occupied workers (advance R L limit E w (sh_workers s w) s) \<subseteq> occupied workers s"
proof -
  let ?s' = "advance R L limit E w (sh_workers s w) s"
  have own: "dom (fmlookup (sh_refs ?s')) \<union> entering (sh_workers ?s' w) \<subseteq>
      dom (fmlookup (sh_refs s)) \<union> entering (sh_workers s w)"
    using assms(2) by (cases "sh_workers s w")
      (auto simp: Let_def intro: fmdom'I split: option.splits prod.splits admission_kind.splits if_splits)
  show ?thesis
  proof
    fix k assume "k \<in> occupied workers ?s'"
    then consider "k \<in> dom (fmlookup (sh_refs ?s'))" | v where "v < workers" "k \<in> entering (sh_workers ?s' v)"
      by (auto simp: occupied_def)
    then show "k \<in> occupied workers s"
    proof cases
      case 1
      with own assms(1) show ?thesis by (auto simp: occupied_def)
    next
      case (2 v)
      with own assms(1) advance_others [of v w R L limit E "sh_workers s w" s] show ?thesis
        by (cases "v = w") (auto simp: occupied_def)
    qed
  qed
qed

lemma occupied_step:
  assumes "parallel_step R L limit workers l s s'" and "card (occupied workers s) \<le> limit + workers - 1"
  shows "card (occupied workers s') \<le> limit + workers - 1"
  using assms(1)
proof (cases rule: parallel_step.cases)
  case (receive w j)
  then have "occupied workers s' \<subseteq> occupied workers s"
    by (auto simp: occupied_def split: if_splits)
  with assms(2) show ?thesis by (meson card_mono finite_occupied le_trans)
next
  case (work w E)
  show ?thesis
  proof (cases "\<exists>j. sh_workers s w = Check_Room j \<and> dm_len (sh_refs s) < limit")
    case True
    with work have "sh_refs s' = sh_refs s" by auto
    with True card_occupied_le [of workers s'] show ?thesis by auto
  next
    case False
    with work have "occupied workers s' \<subseteq> occupied workers s"
      using occupied_advance [of w workers s limit R L E] by auto
    with assms(2) show ?thesis by (meson card_mono finite_occupied le_trans)
  qed
next
  case (expire k a now)
  then have "occupied workers s' \<subseteq> occupied workers s"
    by (auto simp: occupied_def split: if_splits)
  with assms(2) show ?thesis by (meson card_mono finite_occupied le_trans)
qed (use assms(2) in \<open>simp_all add: occupied_def\<close>)

interpretation v3_room: promised_room "parallel_step R L limit workers" "\<lambda>_. True" "\<lambda>s. dm_len (sh_refs s)"
    "\<lambda>s. card (occupied workers s)" "limit + workers - 1" for R L limit workers
  by unfold_locales (rule dm_len_le_occupied, rule TrueI, rule occupied_step)

text \<open>
  C25: The client limit under parallel workers. However the steps of the workers and of the
  heartbeat interleave, the tunnel holds fewer clients than its limit plus the number of workers:
  each worker can pass the limit by at most one client, less one in all. This covers new clients
  and clients that return after the heartbeat has given their place away.
\<close>

theorem admission_overshoot_bound:
  fixes s :: "('c, 'q, 'm) shared"
  assumes "0 < limit" and "parallel_path R L limit workers ls (parallel_start L n) s"
  shows "dm_len (sh_refs s) < limit + workers"
proof -
  have "card (occupied workers (parallel_start L n :: ('c, 'q, 'm) shared)) \<le> limit + workers - 1"
    by (simp add: occupied_def parallel_start_def)
  from v3_room.bounded [OF assms(2) TrueI this] assms(1) show ?thesis by simp
qed

theorem admission_overshoot_bound_witness:
  "\<exists>ls s. parallel_path sample_core sample_rater 5 2 ls
      (parallel_start sample_rater 8 :: (sample_client, nat, sample_manager) shared) s \<and>
    sh_workers s 1 = Check_Room (sample_job 7 8 addr_a) \<and> dm_len (sh_refs s) < 7"
proof -
  let ?j = "sample_job 7 8 addr_a"
  let ?s0 = "parallel_start sample_rater 8 :: (sample_client, nat, sample_manager) shared"
  let ?s1 = "goto 1 (Look_Sender ?j) ?s0"
  let ?s2 = "advance sample_core sample_rater 5 (sample_env 5) 1 (sh_workers ?s1 1) ?s1"
  have "parallel_step sample_core sample_rater 5 2 (Receive 1 ?j) ?s0 ?s1"
    by (rule parallel_step.receive) (simp_all add: parallel_start_def)
  moreover have "parallel_step sample_core sample_rater 5 2 (Work 1) ?s1 ?s2"
    by (rule parallel_step.work) simp_all
  ultimately have run: "parallel_path sample_core sample_rater 5 2 [Receive 1 ?j, Work 1] ?s0 ?s2"
    by (blast intro: labelled_path.intros)
  have "(0 :: nat) < 5" by simp
  from admission_overshoot_bound [OF this run] run show ?thesis
    by (intro exI [of _ "[Receive 1 ?j, Work 1]"] exI [of _ ?s2]) (simp add: parallel_start_def)
qed

theorem parallel_store_typed_witness:
  "\<exists>ls s. parallel_path sample_core sample_rater 5 2 ls
      (parallel_start sample_rater 8 :: (sample_client, nat, sample_manager) shared) s \<and>
    ls \<noteq> [] \<and> list_all (\<lambda>c. remote_ep sample_core c \<noteq> None) (sh_heap s)"
proof -
  let ?s0 = "parallel_start sample_rater 8 :: (sample_client, nat, sample_manager) shared"
  let ?s1 = "goto 1 (Look_Sender (sample_job 7 8 addr_a)) ?s0"
  have "parallel_step sample_core sample_rater 5 2 (Receive 1 (sample_job 7 8 addr_a)) ?s0 ?s1"
    by (rule parallel_step.receive) (simp_all add: parallel_start_def)
  then have run: "parallel_path sample_core sample_rater 5 2 [Receive 1 (sample_job 7 8 addr_a)] ?s0 ?s1"
    by (blast intro: labelled_path.intros)
  from parallel_store_typed [OF sample_endpoint_laws run] run show ?thesis
    by (intro exI [of _ "[Receive 1 (sample_job 7 8 addr_a)]"] exI [of _ ?s1]) simp
qed

subsection \<open>The number of steps\<close>

text \<open>How many steps a worker may still need for its packet.\<close>

fun steps_left :: "worker_point \<Rightarrow> nat" where
  "steps_left Idle = 0"
| "steps_left (Look_Sender j) = 10"
| "steps_left (Examine j a) = 9"
| "steps_left (Record_Received j) = 4"
| "steps_left (Check_Room j) = 9"
| "steps_left (Take_Token k j) = 8"
| "steps_left (Insert_Client k j) = 7"
| "steps_left (Insert_Analyzer k j) = 6"
| "steps_left (Read_Count j) = 5"
| "steps_left (Store_Count j n) = 4"
| "steps_left (Look_Receiver j) = 3"
| "steps_left (Send_Packet j a ep) = 2"
| "steps_left (Record_Loss j) = 1"
| "steps_left (Account j a) = 1"

lemma steps_left_le: "steps_left p \<le> 10"
  by (cases p) simp_all

lemma steps_left_advance:
  "p \<noteq> Idle \<Longrightarrow> steps_left (sh_workers (advance R L limit E w p s) w) < steps_left p"
  by (cases p) (auto simp: Let_def split: option.splits prod.splits admission_kind.splits)

lemma steps_left_step:
  assumes "parallel_step R L limit workers l s s'" and "\<forall>j. l \<noteq> Receive w j"
  shows "(if l = Work w then 1 else 0) + steps_left (sh_workers s' w) \<le> steps_left (sh_workers s w)"
  using assms(1)
proof (cases rule: parallel_step.cases)
  case (work v E)
  then show ?thesis
    using steps_left_advance [of "sh_workers s v" R L limit E v s]
      advance_others [of w v R L limit E "sh_workers s v" s]
    by (cases "v = w") auto
qed (use assms(2) in \<open>auto split: if_splits\<close>)

interpretation v3_worker: wait_free "parallel_step R L limit workers" "\<lambda>w l. \<exists>j. l = Receive w j" Work
    "\<lambda>w s. steps_left (sh_workers s w)" for R L limit workers
  by unfold_locales (simp add: steps_left_step)

text \<open>
  The handler is bounded. However the other workers and the heartbeat interfere, a worker handles
  its packet in at most ten operations of its own, and none of them depends on what another thread
  has done. That no operation waits for ever on a lock inside it is shown in \<open>Locking\<close>.
\<close>

theorem handler_wait_free:
  assumes "parallel_path R L limit workers ls s s'" and "\<forall>j. Receive w j \<notin> set ls" and "w < workers"
  shows "count_list ls (Work w) \<le> 10 \<and>
    (count_list ls (Work w) = 10 \<longrightarrow> sh_workers s' w = Idle) \<and>
    (sh_workers s' w \<noteq> Idle \<longrightarrow> (\<exists>s''. parallel_step R L limit workers (Work w) s' s''))"
proof -
  have rank: "count_list ls (Work w) + steps_left (sh_workers s' w) \<le> 10"
    using v3_worker.own_steps [OF assms(1), of w] assms(2) steps_left_le [of "sh_workers s w"] by fastforce
  have "steps_left p = 0 \<Longrightarrow> p = Idle" for p by (cases p) simp_all
  with rank parallel_step.work [OF assms(3)] show ?thesis by auto blast
qed

theorem handler_wait_free_witness:
  "\<exists>s'. parallel_path sample_core sample_rater 5 2 [Work 1, Work 0, Heartbeat]
      (two_packets (sample_job 7 8 addr_a) (sample_job 8 7 addr_b)) s' \<and>
    (\<exists>s''. parallel_step sample_core sample_rater 5 2 (Work 1) s' s'')"
proof -
  let ?s0 = "two_packets (sample_job 7 8 addr_a) (sample_job 8 7 addr_b)"
  let ?run = "\<lambda>w s. advance sample_core sample_rater 5 (sample_env 5) w (sh_workers s w) s"
  let ?s1 = "?run 1 ?s0"
  let ?s2 = "?run 0 ?s1"
  let ?s3 = "?s2\<lparr>sh_counted := Some (dm_len (sh_refs ?s2))\<rparr>"
  have "parallel_step sample_core sample_rater 5 2 (Work 1) ?s0 ?s1"
    "parallel_step sample_core sample_rater 5 2 (Work 0) ?s1 ?s2"
    by (rule parallel_step.work; simp add: two_packets_def parallel_start_def)+
  moreover have "parallel_step sample_core sample_rater 5 2 Heartbeat ?s2 ?s3" by (rule parallel_step.count)
  ultimately have run: "parallel_path sample_core sample_rater 5 2 [Work 1, Work 0, Heartbeat] ?s0 ?s3"
    by (blast intro: labelled_path.intros)
  have "sh_workers ?s3 1 \<noteq> Idle"
    by (simp add: two_packets_def parallel_start_def)
  with handler_wait_free [OF run, of 1] run show ?thesis by auto
qed

section \<open>What the interleaving breaks\<close>

text \<open>The state after the given workers have each taken a step, in this order.\<close>

definition schedule ::
    "('c, 'q, 'i) relay_core \<Rightarrow> ('m, 'g, 'i) rater \<Rightarrow> nat \<Rightarrow> (nat \<Rightarrow> 'i env) \<Rightarrow> nat list
       \<Rightarrow> ('c, 'q, 'm) shared \<Rightarrow> ('c, 'q, 'm) shared" where
  "schedule R L limit E ws s = fold (\<lambda>w. step_alone R L limit (E w) w) ws s"

lemma schedule_path:
  assumes "set ws \<subseteq> {..<workers}"
  shows "\<exists>ls. parallel_path R L limit workers ls s (schedule R L limit E ws s)"
proof -
  have "step_alone R L limit (E w) w s = s \<or>
      parallel_step R L limit workers (Work w) s (step_alone R L limit (E w) w s)" if "w \<in> set ws" for w s
    using parallel_step.work [of w workers s] idle_step that assms unfolding step_alone_def by blast
  from labelled_path_fold [of ws "\<lambda>w. step_alone R L limit (E w) w" "parallel_step R L limit workers" Work,
      OF this] show ?thesis
    unfolding schedule_def by blast
qed

text \<open>Two idle workers receive a packet each.\<close>

definition both_receive :: "nat \<Rightarrow> job \<Rightarrow> nat \<Rightarrow> job \<Rightarrow> ('c, 'q, 'm) shared \<Rightarrow> ('c, 'q, 'm) shared" where
  "both_receive w1 j1 w2 j2 s = goto w2 (Look_Sender j2) (goto w1 (Look_Sender j1) s)"

lemma both_receive_path:
  assumes "w1 < workers" and "w2 < workers" and "w1 \<noteq> w2"
    and "sh_workers s w1 = Idle" and "sh_workers s w2 = Idle"
  shows "parallel_path R L limit workers [Receive w1 j1, Receive w2 j2] s (both_receive w1 j1 w2 j2 s)"
proof -
  have "parallel_step R L limit workers (Receive w1 j1) s (goto w1 (Look_Sender j1) s)"
    by (rule parallel_step.receive) (use assms in simp_all)
  moreover have "parallel_step R L limit workers (Receive w2 j2) (goto w1 (Look_Sender j1) s) (both_receive w1 j1 w2 j2 s)"
    unfolding both_receive_def by (rule parallel_step.receive) (use assms in simp_all)
  ultimately show ?thesis by (blast intro: labelled_path.intros)
qed

text \<open>Two workers that both look up, then both see room, and then both get a token.\<close>

lemma both_see_room:
  assumes "w1 \<noteq> w2"
    and "fmlookup (sh_refs s) (jb_sender j1) = None" and "fmlookup (sh_refs s) (jb_sender j2) = None"
    and "dm_len (sh_refs s) < limit"
    and "try_acquire L (sh_limiter s) (sock_ip (jb_source j1)) (instant (E w1)) = (True, l1)"
    and "try_acquire L l1 (sock_ip (jb_source j2)) (instant (E w2)) = (True, l2)"
  shows "schedule R L limit E [w1, w2, w1, w2, w1, w2] (both_receive w1 j1 w2 j2 s) =
    s\<lparr>sh_limiter := l2, sh_workers := (sh_workers s)(w1 := Insert_Client New_Client j1, w2 := Insert_Client New_Client j2)\<rparr>"
  using assms by (simp add: schedule_def both_receive_def step_alone_def goto_def fun_upd_twist [of w1 w2])

text \<open>A worker that only has to forward leaves the map and the metrics alone.\<close>

lemma forwarding_alone:
  assumes "steps_left (sh_workers s w) \<le> n" and "n \<le> 3"
  shows "sh_workers ((step_alone R L limit E w ^^ n) s) w = Idle \<and>
    sh_refs ((step_alone R L limit E w ^^ n) s) = sh_refs s \<and>
    sh_metrics ((step_alone R L limit E w ^^ n) s) = sh_metrics s"
  using assms
proof (induction n arbitrary: s)
  case 0
  then show ?case by (cases "sh_workers s w") simp_all
next
  case (Suc n)
  let ?s1 = "step_alone R L limit E w s"
  from Suc.prems have "steps_left (sh_workers ?s1 w) \<le> n \<and> sh_refs ?s1 = sh_refs s \<and> sh_metrics ?s1 = sh_metrics s"
    by (cases "sh_workers s w") (auto simp: step_alone_def split: option.splits)
  with Suc.IH [of ?s1] Suc.prems show ?case unfolding steps_alone by simp
qed

lemma forwarding_path:
  assumes "w < workers" and "sh_workers s w = Look_Receiver j"
  shows "\<exists>ls s'. parallel_path R L limit workers ls s s' \<and> sh_workers s' = (sh_workers s)(w := Idle) \<and>
    sh_refs s' = sh_refs s \<and> sh_metrics s' = sh_metrics s"
proof -
  let ?s' = "(step_alone R L limit undefined w ^^ 3) s"
  have "sh_workers ?s' w = Idle \<and> sh_refs ?s' = sh_refs s \<and> sh_metrics ?s' = sh_metrics s"
    by (rule forwarding_alone) (simp_all add: assms(2))
  moreover from this have "sh_workers ?s' = (sh_workers s)(w := Idle)"
    by (auto simp: steps_alone_others)
  ultimately show ?thesis
    using alone_steps [OF assms(1), where n = 3 and s = s and E = undefined] by blast
qed

text \<open>
  Both workers get past the room check before either inserts; then the first reads the number of
  clients, the second inserts, reads and stores, and only then does the first store what it read.
\<close>

lemma two_workers_admit:
  fixes j1 j2 :: job and E :: "nat \<Rightarrow> 'i env"
  assumes "w1 < workers" and "w2 < workers" and ne: "w1 \<noteq> w2"
    and idle: "sh_workers s w1 = Idle" "sh_workers s w2 = Idle"
    and absent: "fmlookup (sh_refs s) (jb_sender j1) = None" "fmlookup (sh_refs s) (jb_sender j2) = None"
    and ids: "jb_sender j1 \<noteq> jb_sender j2" and room: "dm_len (sh_refs s) < limit"
    and tokens: "try_acquire L (sh_limiter s) (sock_ip (jb_source j1)) (instant (E w1)) = (True, l1)"
      "try_acquire L l1 (sock_ip (jb_source j2)) (instant (E w2)) = (True, l2)"
  shows "\<exists>ls s'. parallel_path R L limit workers ls s s' \<and> sh_workers s' = sh_workers s \<and>
    dm_len (sh_refs s') = dm_len (sh_refs s) + 2 \<and> v3_active_clients (sh_metrics s') = dm_len (sh_refs s) + 1"
proof -
  define s1 where "s1 = schedule R L limit E [w1, w2, w1, w2, w1, w2] (both_receive w1 j1 w2 j2 s)"
  define s2 where "s2 = schedule R L limit E [w1, w1, w1, w2, w2, w2, w2, w1] s1"
  have workers: "set [w1, w2, w1, w2, w1, w2] \<subseteq> {..<workers}" "set [w1, w1, w1, w2, w2, w2, w2, w1] \<subseteq> {..<workers}"
    using assms(1,2) by simp_all
  note s1 = s1_def [unfolded both_see_room [where R = R and E = E, OF ne absent room tokens]]
  have workers2: "sh_workers s2 = (sh_workers s)(w1 := Look_Receiver j1, w2 := Look_Receiver j2)"
    using ne by (simp add: s2_def s1 schedule_def step_alone_def fun_upd_twist [of w1 w2])
  have refs2: "sh_refs s2 = fmupd (jb_sender j2) (Suc (length (sh_heap s))) (fmupd (jb_sender j1) (length (sh_heap s)) (sh_refs s))"
    using ne by (simp add: s2_def s1 schedule_def step_alone_def)
  have gauge2: "v3_active_clients (sh_metrics s2) = dm_len (fmupd (jb_sender j1) (length (sh_heap s)) (sh_refs s))"
    using ne by (simp add: s2_def s1 schedule_def step_alone_def)
  obtain la lb where run1: "parallel_path R L limit workers la (both_receive w1 j1 w2 j2 s) s1"
    "parallel_path R L limit workers lb s1 s2"
    unfolding s1_def s2_def using schedule_path [OF workers(1)] schedule_path [OF workers(2)] by metis
  have run0: "parallel_path R L limit workers [Receive w1 j1, Receive w2 j2] s (both_receive w1 j1 w2 j2 s)"
    by (rule both_receive_path [OF assms(1,2) ne idle])
  obtain lc s3 where run2: "parallel_path R L limit workers lc s2 s3" and
    s3: "sh_workers s3 = (sh_workers s2)(w1 := Idle)" "sh_refs s3 = sh_refs s2" "sh_metrics s3 = sh_metrics s2"
    using forwarding_path [OF assms(1), of s2 j1 R L limit] workers2 ne by auto
  obtain ld s4 where run3: "parallel_path R L limit workers ld s3 s4" and
    s4: "sh_workers s4 = (sh_workers s3)(w2 := Idle)" "sh_refs s4 = sh_refs s3" "sh_metrics s4 = sh_metrics s3"
    using forwarding_path [OF assms(2), of s3 j2 R L limit] s3(1) workers2 ne by auto
  have "parallel_path R L limit workers ([Receive w1 j1, Receive w2 j2] @ la @ lb @ lc @ ld) s s4"
    by (rule labelled_path_append [OF run0] labelled_path_append [OF run1(1)]
        labelled_path_append [OF run1(2)] labelled_path_append [OF run2] run3)+
  moreover have "sh_workers s4 = sh_workers s"
    using idle by (auto simp: s3(1) s4(1) workers2)
  moreover have "dm_len (sh_refs s4) = dm_len (sh_refs s) + 2"
    using absent ids by (simp add: s3(2) s4(2) refs2 dm.len_insert)
  moreover have "v3_active_clients (sh_metrics s4) = dm_len (sh_refs s) + 1"
    using absent by (simp add: s3(3) s4(3) gauge2 dm.len_insert)
  ultimately show ?thesis by blast
qed

text \<open>
  C32: The limit can be passed, and the gauge does not show it. When one place is left and two
  workers are idle, packets of two new clients with different ids can both be admitted: when the
  workers are idle again, the tunnel holds one client more than its limit, and the gauge of active
  clients, which was stored last by the worker that counted first, shows the limit.
\<close>

theorem admission_race_passes_limit:
  fixes j1 j2 :: job and E :: "nat \<Rightarrow> 'i env"
  assumes "w1 < workers" and "w2 < workers" and "w1 \<noteq> w2"
    and "sh_workers s w1 = Idle" and "sh_workers s w2 = Idle"
    and "fmlookup (sh_refs s) (jb_sender j1) = None" and "fmlookup (sh_refs s) (jb_sender j2) = None"
    and "jb_sender j1 \<noteq> jb_sender j2" and "Suc (dm_len (sh_refs s)) = limit"
    and "try_acquire L (sh_limiter s) (sock_ip (jb_source j1)) (instant (E w1)) = (True, l1)"
    and "try_acquire L l1 (sock_ip (jb_source j2)) (instant (E w2)) = (True, l2)"
  shows "\<exists>ls s'. parallel_path R L limit workers ls s s' \<and> sh_workers s' = sh_workers s \<and>
    dm_len (sh_refs s') = Suc limit \<and> v3_active_clients (sh_metrics s') = limit"
proof -
  from assms(9) have "dm_len (sh_refs s) < limit" by simp
  from two_workers_admit [OF assms(1-8) this assms(10,11), of R] assms(9) show ?thesis by fastforce
qed

text \<open>
  C33: One id, two clients. When two workers hold first packets with the same new id from two
  addresses, the client that is registered first can be displaced at once by the other, although
  it has not timed out, which the handler refuses when it runs alone.
\<close>

theorem admission_race_displaces:
  fixes j1 j2 :: job and E :: "nat \<Rightarrow> 'i env"
  assumes "endpoint_laws R" and "timeout_laws R"
    and "w1 < workers" and "w2 < workers" and "w1 \<noteq> w2"
    and "sh_workers s w1 = Idle" and "sh_workers s w2 = Idle"
    and "fmlookup (sh_refs s) (jb_sender j1) = None" and "jb_sender j2 = jb_sender j1"
    and "dm_len (sh_refs s) < limit"
    and "try_acquire L (sh_limiter s) (sock_ip (jb_source j1)) (instant (E w1)) = (True, l1)"
    and "try_acquire L l1 (sock_ip (jb_source j2)) (instant (E w2)) = (True, l2)"
  shows "\<exists>ls ls' s1 s2 c. parallel_path R L limit workers ls s s1 \<and> parallel_path R L limit workers ls' s1 s2 \<and>
    fmlookup (clients_of s1) (jb_sender j1) = Some c \<and> remote_ep R c = Some (jb_source j1) \<and>
    \<not> is_timed_out R c (instant (E w1)) \<and>
    ep_table R (clients_of s2) (jb_sender j1) = Some (jb_source j2)"
proof -
  let ?s0 = "both_receive w1 j1 w2 j2 s"
  define s1 where "s1 = schedule R L limit E [w1, w2, w1, w2, w1, w2, w1] ?s0"
  define s2 where "s2 = schedule R L limit E [w2] s1"
  let ?c = "client_new_with_endpoint R (jb_source j1) V3_TIMEOUT_SECONDS (instant (E w1))"
  let ?d = "client_new_with_endpoint R (jb_source j2) V3_TIMEOUT_SECONDS (instant (E w2))"
  from assms(8,9) have absent: "fmlookup (sh_refs s) (jb_sender j2) = None" by simp
  note room = both_see_room [where R = R and E = E, OF assms(5,8) absent assms(10-12)]
  have s1: "s1 = schedule R L limit E [w1] (schedule R L limit E [w1, w2, w1, w2, w1, w2] ?s0)"
    by (simp add: s1_def schedule_def)
  have "sh_refs s1 = fmupd (jb_sender j1) (length (sh_heap s)) (sh_refs s)" "sh_heap s1 = sh_heap s @ [?c]"
    using assms(5) by (simp_all add: s1 room) (simp_all add: schedule_def step_alone_def)
  moreover have "sh_refs s2 = fmupd (jb_sender j2) (Suc (length (sh_heap s))) (sh_refs s1)"
    "sh_heap s2 = sh_heap s1 @ [?d]"
    using assms(5) by (simp_all add: s2_def s1 room) (simp_all add: schedule_def step_alone_def)
  ultimately have "fmlookup (clients_of s1) (jb_sender j1) = Some ?c" "fmlookup (clients_of s2) (jb_sender j1) = Some ?d"
    by (simp_all add: clients_of_lookup assms(9) nth_append)
  moreover have "set [w1, w2, w1, w2, w1, w2, w1] \<subseteq> {..<workers}" "set [w2] \<subseteq> {..<workers}"
    using assms(3,4) by simp_all
  from schedule_path [OF this(1)] schedule_path [OF this(2)] obtain la lb where
    "parallel_path R L limit workers la ?s0 s1" "parallel_path R L limit workers lb s1 s2"
    unfolding s1_def s2_def by metis
  moreover have "parallel_path R L limit workers [Receive w1 j1, Receive w2 j2] s ?s0"
    by (rule both_receive_path [OF assms(3-7)])
  moreover have "remote_ep R ?c = Some (jb_source j1)" "\<not> is_timed_out R ?c (instant (E w1))"
    "remote_ep R ?d = Some (jb_source j2)"
    using endpoint_lawsD [OF assms(1)] timeout_lawsD [OF assms(2)] by simp_all
  ultimately show ?thesis
    by (intro exI [of _ "[Receive w1 j1, Receive w2 j2] @ la"] exI [of _ lb] exI [of _ s1] exI [of _ s2]
        exI [of _ ?c] conjI labelled_path_append) (assumption | simp add: ep_table_def)+
qed

subsection \<open>Examples\<close>

text \<open>An empty tunnel with two idle workers, and tokens for two sources.\<close>

definition sample_shared :: "(sample_client, nat, sample_manager) shared" where
  "sample_shared = parallel_start sample_rater 8"

lemma sample_shared_simps [simp]:
  "sh_workers sample_shared w = Idle" "sh_refs sample_shared = fmempty"
  by (simp_all add: sample_shared_def parallel_start_def)

lemma sample_job_simps [simp]:
  "jb_sender (sample_job a b c) = a" "jb_receiver (sample_job a b c) = b" "jb_source (sample_job a b c) = c"
  by (simp_all add: sample_job_def)

lemma sample_tokens:
  obtains l1 l2 where
    "try_acquire sample_rater (sh_limiter sample_shared) (sock_ip addr_a) now = (True, l1)"
    "try_acquire sample_rater l1 (sock_ip addr_b) now = (True, l2)"
  by (simp add: sample_shared_def parallel_start_def try_acquire_def connection_rate_limiter_new_def
      sample_rater_def addr_a_def addr_b_def Let_def)

theorem admission_race_passes_limit_witness:
  "\<exists>ls s'. parallel_path sample_core sample_rater 1 2 ls sample_shared s' \<and> dm_len (sh_refs s') = 2 \<and>
    v3_active_clients (sh_metrics s') = 1"
proof -
  obtain l1 l2 where
    "try_acquire sample_rater (sh_limiter sample_shared) (sock_ip addr_a) 5 = (True, l1)"
    "try_acquire sample_rater l1 (sock_ip addr_b) 5 = (True, l2)"
    by (rule sample_tokens)
  with admission_race_passes_limit [of 0 2 1 sample_shared "sample_job 7 8 addr_a" "sample_job 8 7 addr_b" 1
      sample_rater "\<lambda>_. sample_env 5" l1 l2 sample_core]
  show ?thesis by (auto simp: sample_env_def numeral_2_eq_2)
qed

theorem admission_race_displaces_witness:
  "\<exists>ls ls' s1 s2. parallel_path sample_core sample_rater 5 2 ls sample_shared s1 \<and>
     parallel_path sample_core sample_rater 5 2 ls' s1 s2 \<and> fmlookup (clients_of s1) 7 \<noteq> None \<and>
     ep_table sample_core (clients_of s2) 7 = Some addr_b"
proof -
  obtain l1 l2 where
    "try_acquire sample_rater (sh_limiter sample_shared) (sock_ip addr_a) 5 = (True, l1)"
    "try_acquire sample_rater l1 (sock_ip addr_b) 5 = (True, l2)"
    by (rule sample_tokens)
  with admission_race_displaces [of sample_core 0 2 1 sample_shared "sample_job 7 8 addr_a"
      "sample_job 7 8 addr_b" 5 sample_rater "\<lambda>_. sample_env 5" l1 l2]
  show ?thesis by (simp add: sample_env_def numeral_2_eq_2) blast
qed

end
