(* ===== verification/Parallel_V2.thy ===== *)
theory Parallel_V2
  imports V2_Allocation Interleaving
begin

text \<open>
  The version 2 tunnel at the grain at which its threads interleave: the HTTP handlers that allocate
  ids (one task for each open connection), the receive workers that bind ids to addresses and relay,
  and the heartbeat. Each operation on the shared map is a step of its own.
\<close>

section \<open>Program points\<close>

text \<open>
  A request with its query and the values its random number generator will give, and where the task
  is in \<open>handle_request\<close>: the number of clients wanted, the attempts made and the ids so far.
\<close>

record request_job =
  rq_query :: "string option"
  rq_draw :: "nat \<Rightarrow> i16"

datatype request_point =
    No_Request
  | Check_Mode request_job
  | Check_Slots request_job nat
  | Draw request_job nat nat "string list"
  | Insert_Id request_job nat nat "string list" i16
  | Undo "string list"
  | Read_Active "string list"
  | Store_Active "string list" nat

text \<open>A data packet, and where the worker is in \<open>handle_data_forward\<close>.\<close>

record packet_job =
  pk_sender :: i16
  pk_receiver :: i16
  pk_packet :: "u8 list"
  pk_source :: socket_addr
  pk_now :: u64

datatype packet_point =
    No_Packet
  | Find_Sender packet_job
  | Inspect packet_job nat
  | Bind packet_job
  | Find_Receiver packet_job
  | Forward packet_job nat socket_addr
  | Count_Sent packet_job nat

record 'c v2_shared =
  vs_refs :: "(i16, nat) fmap"
  vs_heap :: "'c list"
  vs_mode :: bool
  vs_metrics :: metrics
  vs_batches :: "nat \<Rightarrow> local_metrics_batch"
  vs_sent :: "datagram list"
  vs_responses :: "(nat \<times> response) list"
  vs_counted :: "nat option"
  vs_requests :: "nat \<Rightarrow> request_point"
  vs_packets :: "nat \<Rightarrow> packet_point"

definition rq_goto :: "nat \<Rightarrow> request_point \<Rightarrow> 'c v2_shared \<Rightarrow> 'c v2_shared" where
  "rq_goto t p s = s\<lparr>vs_requests := (vs_requests s)(t := p)\<rparr>"

definition pk_goto :: "nat \<Rightarrow> packet_point \<Rightarrow> 'c v2_shared \<Rightarrow> 'c v2_shared" where
  "pk_goto w p s = s\<lparr>vs_packets := (vs_packets s)(w := p)\<rparr>"

lemma rq_goto_simps [simp]:
  "vs_refs (rq_goto t p s) = vs_refs s" "vs_heap (rq_goto t p s) = vs_heap s"
  "vs_mode (rq_goto t p s) = vs_mode s" "vs_metrics (rq_goto t p s) = vs_metrics s"
  "vs_batches (rq_goto t p s) = vs_batches s" "vs_sent (rq_goto t p s) = vs_sent s"
  "vs_responses (rq_goto t p s) = vs_responses s" "vs_counted (rq_goto t p s) = vs_counted s"
  "vs_requests (rq_goto t p s) = (vs_requests s)(t := p)" "vs_packets (rq_goto t p s) = vs_packets s"
  by (simp_all add: rq_goto_def)

lemma pk_goto_simps [simp]:
  "vs_refs (pk_goto w p s) = vs_refs s" "vs_heap (pk_goto w p s) = vs_heap s"
  "vs_mode (pk_goto w p s) = vs_mode s" "vs_metrics (pk_goto w p s) = vs_metrics s"
  "vs_batches (pk_goto w p s) = vs_batches s" "vs_sent (pk_goto w p s) = vs_sent s"
  "vs_responses (pk_goto w p s) = vs_responses s" "vs_counted (pk_goto w p s) = vs_counted s"
  "vs_requests (pk_goto w p s) = vs_requests s" "vs_packets (pk_goto w p s) = (vs_packets s)(w := p)"
  by (simp_all add: pk_goto_def)

section \<open>Steps\<close>

text \<open>The end of a request: the response is sent and the task is free.\<close>

definition answer :: "nat \<Rightarrow> response \<Rightarrow> 'c v2_shared \<Rightarrow> 'c v2_shared" where
  "answer t r s = rq_goto t No_Request (s\<lparr>vs_responses := vs_responses s @ [(t, r)]\<rparr>)"

text \<open>
  A step of a request. The loop condition and the parsing of the query look at nothing shared and
  belong to the step before or after them.
\<close>

fun serve ::
    "('c, 'q, 'i) relay_core \<Rightarrow> nat \<Rightarrow> 'i env \<Rightarrow> nat \<Rightarrow> request_point \<Rightarrow> 'c v2_shared \<Rightarrow> 'c v2_shared" where
  "serve R limit E t No_Request s = s"
| "serve R limit E t (Check_Mode j) s =
     (let clients = v2_clients_param (rq_query j) in
      if vs_mode s then answer t (respond 503 ''Server in maintenance mode'') s
      else if clients < 2 \<or> 8 < clients then answer t (respond 400 ''Invalid clients parameter (2-8)'') s
      else rq_goto t (Check_Slots j clients) s)"
| "serve R limit E t (Check_Slots j clients) s =
     (if limit < dm_len (vs_refs s) + clients then answer t (respond 503 ''Not enough slots available'') s
      else rq_goto t (Draw j clients 0 []) s)"
| "serve R limit E t (Draw j clients attempts ids) s =
     (if length ids < clients \<and> attempts < MAX_ATTEMPTS then
        let client_id = rq_draw j attempts in
        rq_goto t (if client_id \<noteq> 0 \<and> \<not> dm_contains (vs_refs s) client_id
                   then Insert_Id j clients (attempts + 1) ids client_id
                   else Draw j clients (attempts + 1) ids) s
      else rq_goto t (if length ids < clients then Undo ids else Read_Active ids) s)"
| "serve R limit E t (Insert_Id j clients attempts ids client_id) s =
     rq_goto t (Draw j clients attempts (ids @ [i16_to_string client_id]))
       (s\<lparr>vs_heap := vs_heap s @ [client_new R V2_TIMEOUT_SECONDS (instant E)],
          vs_refs := fmupd client_id (length (vs_heap s)) (vs_refs s)\<rparr>)"
| "serve R limit E t (Undo []) s = answer t (respond 503 ''Could not allocate requested clients'') s"
| "serve R limit E t (Undo (id_str # ids)) s =
     rq_goto t (Undo ids)
       (case parse_i16 id_str of
          Some i \<Rightarrow> s\<lparr>vs_refs := fmdrop i (vs_refs s)\<rparr>
        | None \<Rightarrow> s)"
| "serve R limit E t (Read_Active ids) s = rq_goto t (Store_Active ids (dm_len (vs_refs s))) s"
| "serve R limit E t (Store_Active ids n) s =
     answer t (respond_with 200 [(''Content-Type'', ''application/json'')] (''['' @ join_with '','' ids @ '']''))
       (s\<lparr>vs_metrics := v2_active_clients_update (\<lambda>_. n) (vs_metrics s)\<rparr>)"

text \<open>A step of a receive worker.\<close>

fun relay_step ::
    "('c, 'q, 'i) relay_core \<Rightarrow> 'i env \<Rightarrow> nat \<Rightarrow> packet_point \<Rightarrow> 'c v2_shared \<Rightarrow> 'c v2_shared" where
  "relay_step R E w No_Packet s = s"
| "relay_step R E w (Find_Sender j) s =
     (case fmlookup (vs_refs s) (pk_sender j) of
        None \<Rightarrow> pk_goto w No_Packet s
      | Some a \<Rightarrow> pk_goto w (Inspect j a) s)"
| "relay_step R E w (Inspect j a) s =
     (let sender = vs_heap s ! a in
      case remote_ep R sender of
        None \<Rightarrow> pk_goto w (Bind j) s
      | Some ep \<Rightarrow>
          if ep \<noteq> pk_source j then
            pk_goto w (if is_timed_out R sender (instant E) then Bind j else No_Packet) s
          else
            pk_goto w (Find_Receiver j)
              (s\<lparr>vs_heap := (vs_heap s)[a := update_stats R (length (pk_packet j)) 0 (pk_now j)
                   (set_last_receive_tick_at R (pk_now j) sender)]\<rparr>))"
| "relay_step R E w (Bind j) s =
     pk_goto w (Find_Receiver j)
       (s\<lparr>vs_heap := vs_heap s @ [client_new_with_endpoint R (pk_source j) V2_TIMEOUT_SECONDS (instant E)],
          vs_refs := fmupd (pk_sender j) (length (vs_heap s)) (vs_refs s)\<rparr>)"
| "relay_step R E w (Find_Receiver j) s =
     (case fmlookup (vs_refs s) (pk_receiver j) of
        None \<Rightarrow> pk_goto w No_Packet s
      | Some a \<Rightarrow>
          (case remote_ep R (vs_heap s ! a) of
             None \<Rightarrow> pk_goto w No_Packet s
           | Some ep \<Rightarrow> pk_goto w (if ep = pk_source j then No_Packet else Forward j a ep) s))"
| "relay_step R E w (Forward j a ep) s =
     pk_goto w (if send_succeeds E ep (pk_packet j) then Count_Sent j a else No_Packet)
       (s\<lparr>vs_sent := vs_sent s @ [(ep, pk_packet j)]\<rparr>)"
| "relay_step R E w (Count_Sent j a) s =
     pk_goto w No_Packet
       (s\<lparr>vs_batches := (vs_batches s)(w := record_v2_tx (of_nat (length (pk_packet j))) (vs_batches s w)),
          vs_heap := (vs_heap s)[a := update_stats R 0 (length (pk_packet j)) (pk_now j) (vs_heap s ! a)]\<rparr>)"

datatype v2_label = Request nat request_job | Serve nat | Packet nat packet_job | Relay nat | V2_Clean | Toggle

text \<open>
  All steps: a free task takes a request, a free worker takes a packet outside maintenance, either
  goes on, the heartbeat removes a client, counts or stores, the administrator toggles the mode.
\<close>

inductive v2_parallel_step ::
    "('c, 'q, 'i) relay_core \<Rightarrow> nat \<Rightarrow> nat \<Rightarrow> nat \<Rightarrow> v2_label \<Rightarrow> 'c v2_shared \<Rightarrow> 'c v2_shared \<Rightarrow> bool"
  for R limit tasks workers where
  request:
    "t < tasks \<Longrightarrow> vs_requests s t = No_Request \<Longrightarrow>
     v2_parallel_step R limit tasks workers (Request t j) s (rq_goto t (Check_Mode j) s)"
| serve:
    "t < tasks \<Longrightarrow> vs_requests s t \<noteq> No_Request \<Longrightarrow>
     v2_parallel_step R limit tasks workers (Serve t) s (serve R limit E t (vs_requests s t) s)"
| packet:
    "w < workers \<Longrightarrow> vs_packets s w = No_Packet \<Longrightarrow> \<not> vs_mode s \<Longrightarrow>
     v2_parallel_step R limit tasks workers (Packet w k) s (pk_goto w (Find_Sender k) s)"
| relay:
    "w < workers \<Longrightarrow> vs_packets s w \<noteq> No_Packet \<Longrightarrow>
     v2_parallel_step R limit tasks workers (Relay w) s (relay_step R E w (vs_packets s w) s)"
| expire:
    "fmlookup (vs_refs s) i = Some a \<Longrightarrow> is_timed_out R (vs_heap s ! a) now \<Longrightarrow>
     v2_parallel_step R limit tasks workers V2_Clean s (s\<lparr>vs_refs := fmdrop i (vs_refs s)\<rparr>)"
| count:
    "v2_parallel_step R limit tasks workers V2_Clean s (s\<lparr>vs_counted := Some (dm_len (vs_refs s))\<rparr>)"
| publish:
    "vs_counted s = Some n \<Longrightarrow>
     v2_parallel_step R limit tasks workers V2_Clean s
       (s\<lparr>vs_metrics := v2_active_clients_update (\<lambda>_. n) (vs_metrics s), vs_counted := None\<rparr>)"
| toggle:
    "v2_parallel_step R limit tasks workers Toggle s (s\<lparr>vs_mode := \<not> vs_mode s\<rparr>)"

abbreviation v2_parallel_path ::
    "('c, 'q, 'i) relay_core \<Rightarrow> nat \<Rightarrow> nat \<Rightarrow> nat \<Rightarrow> v2_label list \<Rightarrow> 'c v2_shared \<Rightarrow> 'c v2_shared \<Rightarrow> bool" where
  "v2_parallel_path R limit tasks workers \<equiv> labelled_path (v2_parallel_step R limit tasks workers)"

definition v2_parallel_start :: "'c v2_shared" where
  "v2_parallel_start = \<lparr>
     vs_refs = fmempty, vs_heap = [], vs_mode = False, vs_metrics = metrics_new,
     vs_batches = (\<lambda>_. batch_new), vs_sent = [], vs_responses = [], vs_counted = None,
     vs_requests = (\<lambda>_. No_Request), vs_packets = (\<lambda>_. No_Packet)\<rparr>"

lemma answer_simps [simp]:
  "vs_refs (answer t r s) = vs_refs s" "vs_heap (answer t r s) = vs_heap s"
  "vs_mode (answer t r s) = vs_mode s" "vs_metrics (answer t r s) = vs_metrics s"
  "vs_batches (answer t r s) = vs_batches s" "vs_sent (answer t r s) = vs_sent s"
  "vs_responses (answer t r s) = vs_responses s @ [(t, r)]" "vs_counted (answer t r s) = vs_counted s"
  "vs_requests (answer t r s) = (vs_requests s)(t := No_Request)" "vs_packets (answer t r s) = vs_packets s"
  by (simp_all add: answer_def)

lemma serve_others:
  "t' \<noteq> t \<Longrightarrow> vs_requests (serve R limit E t p s) t' = vs_requests s t'"
  by (cases "(R, limit, E, t, p, s)" rule: serve.cases) (auto simp: Let_def split: option.splits)

lemma serve_packets [simp]: "vs_packets (serve R limit E t p s) = vs_packets s"
  by (cases "(R, limit, E, t, p, s)" rule: serve.cases) (auto simp: Let_def split: option.splits)

lemma relay_others:
  "w' \<noteq> w \<Longrightarrow> vs_packets (relay_step R E w p s) w' = vs_packets s w'"
  by (cases p) (auto simp: Let_def split: option.splits)

lemma relay_requests [simp]: "vs_requests (relay_step R E w p s) = vs_requests s"
  by (cases p) (auto simp: Let_def split: option.splits)

end
