(* ===== verification/Parallel_V2_Refinement.thy ===== *)
theory Parallel_V2_Refinement
  imports Parallel_V2 V2_Properties
begin

text \<open>
  What the fine steps of the version 2 tunnel have to do with the handlers of \<open>Tunnel_V2\<close>: a request
  or a packet that is handled while no other thread takes a step ends exactly where
  \<open>v2_handle_request\<close> or \<open>v2_handle_data_forward\<close> ends.
\<close>

section \<open>A request alone is the handler\<close>

definition serve_alone ::
    "('c, 'q, 'i) relay_core \<Rightarrow> nat \<Rightarrow> 'i env \<Rightarrow> nat \<Rightarrow> 'c v2_shared \<Rightarrow> 'c v2_shared" where
  "serve_alone R limit E t s = serve R limit E t (vs_requests s t) s"

lemma serve_alone_step:
  "t < tasks \<Longrightarrow> serve_alone R limit E t s = s \<or>
     v2_parallel_step R limit tasks workers (Serve t) s (serve_alone R limit E t s)"
  using v2_parallel_step.serve [of t tasks s R limit workers E]
  by (cases "vs_requests s t = No_Request") (auto simp: serve_alone_def)

lemma serve_alone_Suc:
  "(serve_alone R limit E t ^^ Suc n) s = (serve_alone R limit E t ^^ n) (serve_alone R limit E t s)"
  by (simp add: funpow_swap1)

text \<open>The mappings of the tunnel that the shared state stands for.\<close>

definition v2_clients_of :: "'c v2_shared \<Rightarrow> (i16, 'c) fmap" where
  "v2_clients_of s = deref (vs_refs s) (vs_heap s)"

definition v2_tunnel_of :: "('c, 'm, 's) tunnel_v2 \<Rightarrow> 'c v2_shared \<Rightarrow> ('c, 'm, 's) tunnel_v2" where
  "v2_tunnel_of t s = t\<lparr>v2_mappings := v2_clients_of s, v2_maintenance_mode := vs_mode s\<rparr>"

text \<open>
  The state in which the loop ends, with what \<open>v2_alloc_loop\<close> computes from the number of attempts
  and the ids so far.
\<close>

definition loop_exit ::
    "('c, 'q, 'i) relay_core \<Rightarrow> 'i env \<Rightarrow> nat \<Rightarrow> request_job \<Rightarrow> nat \<Rightarrow> nat \<Rightarrow> string list
       \<Rightarrow> 'c v2_shared \<Rightarrow> 'c v2_shared \<Rightarrow> bool" where
  "loop_exit R E t j n a ids s s' \<longleftrightarrow>
     (\<exists>a' refs heap ids'.
        s' = s\<lparr>vs_refs := refs, vs_heap := heap, vs_requests := (vs_requests s)(t := Draw j n a' ids')\<rparr> \<and>
        \<not> (length ids' < n \<and> a' < MAX_ATTEMPTS) \<and> refs_ok refs heap \<and>
        v2_alloc_loop R (instant E) (rq_draw j) n a ids (v2_clients_of s) = (ids', deref refs heap))"

text \<open>A turn of the loop that finds no free id, and one that does.\<close>

lemma loop_exit_taken:
  assumes "loop_exit R E t j n (a + 1) ids (rq_goto t (Draw j n (a + 1) ids) s) s'"
    and "length ids < n" and "a < MAX_ATTEMPTS" and "\<not> (rq_draw j a \<noteq> 0 \<and> \<not> dm_contains (vs_refs s) (rq_draw j a))"
  shows "loop_exit R E t j n a ids s s'"
proof -
  have "v2_alloc_loop R (instant E) (rq_draw j) n a ids (v2_clients_of s) =
      v2_alloc_loop R (instant E) (rq_draw j) n (a + 1) ids (v2_clients_of s)"
    using assms(2-4) by (subst v2_alloc_loop.simps) (auto simp: v2_clients_of_def dm_contains_def)
  with assms(1) show ?thesis
    by (simp add: loop_exit_def v2_clients_of_def) (simp add: rq_goto_def)
qed

lemma loop_exit_fresh:
  assumes "loop_exit R E t j n (a + 1) (ids @ [i16_to_string (rq_draw j a)])
      (rq_goto t (Draw j n (a + 1) (ids @ [i16_to_string (rq_draw j a)]))
        (s\<lparr>vs_heap := vs_heap s @ [client_new R V2_TIMEOUT_SECONDS (instant E)],
           vs_refs := fmupd (rq_draw j a) (length (vs_heap s)) (vs_refs s)\<rparr>)) s'"
    and "length ids < n" and "a < MAX_ATTEMPTS" and "rq_draw j a \<noteq> 0" and "\<not> dm_contains (vs_refs s) (rq_draw j a)"
    and "refs_ok (vs_refs s) (vs_heap s)"
  shows "loop_exit R E t j n a ids s s'"
proof -
  have "v2_alloc_loop R (instant E) (rq_draw j) n a ids (v2_clients_of s) =
      v2_alloc_loop R (instant E) (rq_draw j) n (a + 1) (ids @ [i16_to_string (rq_draw j a)])
        (fmupd (rq_draw j a) (client_new R V2_TIMEOUT_SECONDS (instant E)) (v2_clients_of s))"
    using assms(2-5) by (subst v2_alloc_loop.simps) (auto simp: v2_clients_of_def dm_contains_def Let_def)
  with assms(1) show ?thesis
    by (simp add: loop_exit_def v2_clients_of_def deref_new [OF assms(6)]) (simp add: rq_goto_def)
qed

lemma alloc_loop_alone:
  assumes "refs_ok (vs_refs s) (vs_heap s)" and "vs_requests s t = Draw j n a ids"
  shows "\<exists>k. loop_exit R E t j n a ids s ((serve_alone R limit E t ^^ k) s)"
  using assms
proof (induction "MAX_ATTEMPTS - a" arbitrary: a ids s rule: less_induct)
  case less
  show ?case
  proof (cases "length ids < n \<and> a < MAX_ATTEMPTS")
    case False
    have "s = s\<lparr>vs_requests := (vs_requests s)(t := Draw j n a ids)\<rparr>"
      using less.prems(2) by (simp add: fun_upd_idem)
    then have "loop_exit R E t j n a ids s s"
      unfolding loop_exit_def
      using False less.prems(1)
      by (intro exI [of _ a] exI [of _ "vs_refs s"] exI [of _ "vs_heap s"] exI [of _ ids])
         (auto simp: v2_clients_of_def v2_alloc_loop.simps [of R _ _ n a])
    then show ?thesis by (intro exI [of _ 0]) simp
  next
    case True
    then have smaller: "MAX_ATTEMPTS - (a + 1) < MAX_ATTEMPTS - a" by linarith
    show ?thesis
    proof (cases "rq_draw j a \<noteq> 0 \<and> \<not> dm_contains (vs_refs s) (rq_draw j a)")
      case taken: False
      let ?s1 = "rq_goto t (Draw j n (a + 1) ids) s"
      have "serve_alone R limit E t s = ?s1"
        using True taken less.prems(2) by (auto simp: serve_alone_def Let_def)
      moreover obtain k where "loop_exit R E t j n (a + 1) ids ?s1 ((serve_alone R limit E t ^^ k) ?s1)"
        using less.hyps [OF smaller, of ?s1 ids] less.prems by auto
      ultimately show ?thesis
        using True taken by (intro exI [of _ "Suc k"]) (auto simp: serve_alone_Suc simp del: funpow.simps
            intro: loop_exit_taken)
    next
      case fresh: True
      let ?ids = "ids @ [i16_to_string (rq_draw j a)]"
      let ?s1 = "rq_goto t (Draw j n (a + 1) ?ids)
        (s\<lparr>vs_heap := vs_heap s @ [client_new R V2_TIMEOUT_SECONDS (instant E)],
           vs_refs := fmupd (rq_draw j a) (length (vs_heap s)) (vs_refs s)\<rparr>)"
      have "serve_alone R limit E t (serve_alone R limit E t s) = ?s1"
        using True fresh less.prems(2) by (simp add: serve_alone_def Let_def)
      moreover obtain k where "loop_exit R E t j n (a + 1) ?ids ?s1 ((serve_alone R limit E t ^^ k) ?s1)"
        using less.hyps [OF smaller, of ?s1 ?ids] less.prems by (auto intro: refs_ok_new)
      ultimately show ?thesis
        using True fresh less.prems(1)
        by (intro exI [of _ "Suc (Suc k)"]) (auto simp: serve_alone_Suc simp del: funpow.simps
            intro: loop_exit_fresh)
    qed
  qed
qed

text \<open>The rollback, and the way out of the loop to the answer.\<close>

lemma rollback_alone:
  assumes "vs_requests s t = Undo ids"
  shows "\<exists>k refs. (serve_alone R limit E t ^^ k) s =
      answer t (respond 503 ''Could not allocate requested clients'') (s\<lparr>vs_refs := refs\<rparr>) \<and>
    deref refs (vs_heap s) = v2_rollback ids (v2_clients_of s)"
  using assms
proof (induction ids arbitrary: s)
  case Nil
  then show ?case
    by (intro exI [of _ 1] exI [of _ "vs_refs s"]) (simp add: serve_alone_def v2_clients_of_def)
next
  case (Cons id_str ids)
  let ?s1 = "serve_alone R limit E t s"
  from Cons.prems have s1: "?s1 = rq_goto t (Undo ids)
      (s\<lparr>vs_refs := case parse_i16 id_str of Some i \<Rightarrow> fmdrop i (vs_refs s) | None \<Rightarrow> vs_refs s\<rparr>)"
    by (simp add: serve_alone_def split: option.splits)
  then have "vs_requests ?s1 t = Undo ids" by simp
  from Cons.IH [OF this] obtain k refs where
    k: "(serve_alone R limit E t ^^ k) ?s1 =
      answer t (respond 503 ''Could not allocate requested clients'') (?s1\<lparr>vs_refs := refs\<rparr>)" and
    refs: "deref refs (vs_heap ?s1) = v2_rollback ids (v2_clients_of ?s1)" by blast
  have "(serve_alone R limit E t ^^ Suc k) s =
      answer t (respond 503 ''Could not allocate requested clients'') (s\<lparr>vs_refs := refs\<rparr>)"
    unfolding serve_alone_Suc k unfolding s1 by (simp add: answer_def rq_goto_def)
  moreover have "deref refs (vs_heap s) = v2_rollback (id_str # ids) (v2_clients_of s)"
    using refs by (simp add: s1 v2_clients_of_def deref_drop split: option.splits)
  ultimately show ?case by blast
qed

lemma slots_alone:
  fixes T :: "('c, 'm, 's) tunnel_v2"
  assumes "refs_ok (vs_refs s) (vs_heap s)" and "vs_requests s t = Draw j n 0 []"
    and "v2_alloc_loop R (instant E) (rq_draw j) n 0 [] (v2_clients_of s) = (ids, m)"
  shows "\<exists>k s'. (serve_alone R limit E t ^^ k) s = s' \<and> vs_requests s' = (vs_requests s)(t := No_Request) \<and>
    vs_packets s' = vs_packets s \<and> vs_mode s' = vs_mode s \<and>
    (if length ids < n
     then vs_responses s' = vs_responses s @ [(t, respond 503 ''Could not allocate requested clients'')] \<and>
       v2_clients_of s' = v2_rollback ids m \<and> vs_metrics s' = vs_metrics s
     else vs_responses s' = vs_responses s @
         [(t, respond_with 200 [(''Content-Type'', ''application/json'')] (''['' @ join_with '','' ids @ '']''))] \<and>
       v2_clients_of s' = m \<and> vs_metrics s' = v2_active_clients_update (\<lambda>_. dm_len m) (vs_metrics s))"
proof -
  let ?run = "serve_alone R limit E t"
  from alloc_loop_alone [OF assms(1,2), of R E limit] assms(3) obtain k a refs heap where
    k: "(?run ^^ k) s = s\<lparr>vs_refs := refs, vs_heap := heap, vs_requests := (vs_requests s)(t := Draw j n a ids)\<rparr>"
    and exit: "\<not> (length ids < n \<and> a < MAX_ATTEMPTS)" and m: "m = deref refs heap"
    unfolding loop_exit_def by auto
  show ?thesis
  proof (cases "length ids < n")
    case True
    let ?s1 = "(?run ^^ Suc k) s"
    have s1: "?s1 = s\<lparr>vs_refs := refs, vs_heap := heap, vs_requests := (vs_requests s)(t := Undo ids)\<rparr>"
      using True exit by (simp add: k) (simp add: serve_alone_def rq_goto_def)
    then have "vs_requests ?s1 t = Undo ids" by simp
    from rollback_alone [OF this, of R limit E] obtain k' refs' where
      k': "(?run ^^ k') ?s1 = answer t (respond 503 ''Could not allocate requested clients'') (?s1\<lparr>vs_refs := refs'\<rparr>)"
      and undone: "deref refs' (vs_heap ?s1) = v2_rollback ids (v2_clients_of ?s1)" by blast
    have "(?run ^^ (k' + Suc k)) s = (?run ^^ k') ?s1" unfolding funpow_add o_apply ..
    also have "\<dots> = answer t (respond 503 ''Could not allocate requested clients'')
        (s\<lparr>vs_refs := refs', vs_heap := heap\<rparr>)"
      unfolding k' unfolding s1 by (simp add: answer_def rq_goto_def)
    finally show ?thesis
      using True undone unfolding s1
      by (intro exI [of _ "k' + Suc k"]) (simp add: m v2_clients_of_def del: funpow.simps)
  next
    case False
    have "(?run ^^ Suc (Suc (Suc k))) s = ?run (?run (?run ((?run ^^ k) s)))" by simp
    also have "\<dots> = answer t
        (respond_with 200 [(''Content-Type'', ''application/json'')] (''['' @ join_with '','' ids @ '']''))
        (s\<lparr>vs_refs := refs, vs_heap := heap, vs_metrics := v2_active_clients_update (\<lambda>_. dm_len refs) (vs_metrics s)\<rparr>)"
      using False by (simp add: k) (simp add: serve_alone_def rq_goto_def answer_def)
    finally show ?thesis
      using False by (intro exI [of _ "Suc (Suc (Suc k))"]) (simp add: m v2_clients_of_def del: funpow.simps)
  qed
qed

lemma request_alone:
  fixes T :: "('c, 'm, 's) tunnel_v2"
  assumes "refs_ok (vs_refs s) (vs_heap s)" and "vs_requests s t = Check_Mode j"
    and "v2_handle_request R E (rq_draw j) (rq_query j) (v2_tunnel_of T s, vs_metrics s) = (r, T', m')"
  shows "\<exists>k s'. (serve_alone R (max_clients (v2_config T)) E t ^^ k) s = s' \<and> vs_requests s' = (vs_requests s)(t := No_Request) \<and>
    vs_packets s' = vs_packets s \<and> vs_responses s' = vs_responses s @ [(t, r)] \<and>
    v2_tunnel_of T s' = T' \<and> vs_metrics s' = m'"
proof -
  let ?limit = "max_clients (v2_config T)"
  let ?run = "serve_alone R ?limit E t"
  let ?n = "v2_clients_param (rq_query j)"
  show ?thesis
  proof (cases "vs_mode s \<or> ?n < 2 \<or> 8 < ?n")
    case True
    with assms(2,3) show ?thesis
      by (intro exI [of _ 1])
         (auto simp: serve_alone_def v2_handle_request_def v2_tunnel_of_def v2_clients_of_def Let_def)
  next
    case start: False
    then have one: "?run s = rq_goto t (Check_Slots j ?n) s"
      using assms(2) by (simp add: serve_alone_def Let_def)
    show ?thesis
    proof (cases "?limit < dm_len (vs_refs s) + ?n")
      case True
      with start one assms(3) show ?thesis
        by (intro exI [of _ 2])
           (auto simp: numeral_2_eq_2 serve_alone_def v2_handle_request_def v2_tunnel_of_def v2_clients_of_def Let_def)
    next
      case False
      let ?s2 = "rq_goto t (Draw j ?n 0 []) s"
      have two: "?run (?run s) = ?s2"
        using False one by simp (simp add: serve_alone_def rq_goto_def)
      obtain ids m where loop: "v2_alloc_loop R (instant E) (rq_draw j) ?n 0 [] (v2_clients_of s) = (ids, m)"
        by fastforce
      then have "v2_alloc_loop R (instant E) (rq_draw j) ?n 0 [] (v2_clients_of ?s2) = (ids, m)"
        by (simp add: v2_clients_of_def)
      from slots_alone [OF _ _ this, where t = t and limit = ?limit] assms(1) obtain k where
        "vs_requests ((?run ^^ k) ?s2) = (vs_requests s)(t := No_Request)"
        "vs_packets ((?run ^^ k) ?s2) = vs_packets s" "vs_mode ((?run ^^ k) ?s2) = vs_mode s"
        "if length ids < ?n
         then vs_responses ((?run ^^ k) ?s2) = vs_responses s @ [(t, respond 503 ''Could not allocate requested clients'')] \<and>
           v2_clients_of ((?run ^^ k) ?s2) = v2_rollback ids m \<and> vs_metrics ((?run ^^ k) ?s2) = vs_metrics s
         else vs_responses ((?run ^^ k) ?s2) = vs_responses s @
             [(t, respond_with 200 [(''Content-Type'', ''application/json'')] (''['' @ join_with '','' ids @ '']''))] \<and>
           v2_clients_of ((?run ^^ k) ?s2) = m \<and>
           vs_metrics ((?run ^^ k) ?s2) = v2_active_clients_update (\<lambda>_. dm_len m) (vs_metrics s)"
        by auto
      moreover have "(?run ^^ Suc (Suc k)) s = (?run ^^ k) ?s2" unfolding serve_alone_Suc two ..
      ultimately show ?thesis
        using start False assms(3) loop
        by (intro exI [of _ "Suc (Suc k)"])
           (auto simp: v2_handle_request_def v2_tunnel_of_def v2_clients_of_def [of s] Let_def
             simp del: funpow.simps split: if_splits)
    qed
  qed
qed

text \<open>
  C28: A request alone is the handler. From every state, whatever the other threads are in the middle
  of, a request that is handled while no other thread takes a step is answered with the response of
  \<open>v2_handle_request\<close>, and leaves the clients and the gauge that \<open>v2_handle_request\<close> computes, with
  its loop of draws and its rollback.
\<close>

theorem v2_request_alone_is_atomic:
  assumes "refs_ok (vs_refs s) (vs_heap s)" and "t < tasks" and "vs_requests s t = Check_Mode j"
    and "v2_handle_request R E (rq_draw j) (rq_query j) (v2_tunnel_of T s, vs_metrics s) = (r, T', m')"
  shows "\<exists>ls s'. v2_parallel_path R (max_clients (v2_config T)) tasks workers ls s s' \<and>
    set ls \<subseteq> {Serve t} \<and> vs_requests s' = (vs_requests s)(t := No_Request) \<and> vs_packets s' = vs_packets s \<and>
    vs_responses s' = vs_responses s @ [(t, r)] \<and> v2_tunnel_of T s' = T' \<and> vs_metrics s' = m'"
proof -
  let ?run = "serve_alone R (max_clients (v2_config T)) E t"
  from request_alone [OF assms(1,3,4)]
  obtain k where "vs_requests ((?run ^^ k) s) = (vs_requests s)(t := No_Request)"
    "vs_packets ((?run ^^ k) s) = vs_packets s" "vs_responses ((?run ^^ k) s) = vs_responses s @ [(t, r)]"
    "v2_tunnel_of T ((?run ^^ k) s) = T'" "vs_metrics ((?run ^^ k) s) = m'" by blast
  moreover obtain ls where "v2_parallel_path R (max_clients (v2_config T)) tasks workers ls s ((?run ^^ k) s)" "set ls \<subseteq> {Serve t}"
    using labelled_path_funpow [of ?run "v2_parallel_step R (max_clients (v2_config T)) tasks workers" "Serve t" s k]
      serve_alone_step [OF assms(2)] by blast
  ultimately show ?thesis by blast
qed

definition allocated :: "i16 list \<Rightarrow> response" where
  "allocated ids = respond_with 200 [(''Content-Type'', ''application/json'')]
     (''['' @ join_with '','' (map i16_to_string ids) @ '']'')"

section \<open>Examples\<close>

text \<open>Two requests for two clients whose draws begin with 7, and go on with 8 and 9.\<close>

definition sample_request :: "i16 \<Rightarrow> request_job" where
  "sample_request k = \<lparr>rq_query = Some ''clients=2'', rq_draw = (\<lambda>n. if n = 0 then 7 else k)\<rparr>"

abbreviation sample_v2_start :: "sample_client v2_shared" where
  "sample_v2_start \<equiv> v2_parallel_start"

lemma sample_v2_start_simps [simp]:
  "vs_requests v2_parallel_start t = No_Request" "vs_packets v2_parallel_start t = No_Packet"
  "vs_refs v2_parallel_start = fmempty" "vs_heap v2_parallel_start = []" "\<not> vs_mode v2_parallel_start"
  "vs_responses v2_parallel_start = []" "vs_metrics v2_parallel_start = metrics_new"
  by (simp_all add: v2_parallel_start_def)

lemma sample_request_simps [simp]:
  "rq_query (sample_request k) = Some ''clients=2''" "rq_draw (sample_request k) 0 = 7"
  "rq_draw (sample_request k) 1 = k" "rq_draw (sample_request k) (Suc n) = k"
  by (simp_all add: sample_request_def)

text \<open>A request is taken, and has made its first step.\<close>

lemma sample_taken:
  "v2_parallel_step sample_core 5 2 1 (Request 1 (sample_request 8)) sample_v2_start (rq_goto 1 (Check_Mode (sample_request 8)) sample_v2_start)"
  by (rule v2_parallel_step.request) simp_all

lemma sample_served:
  "v2_parallel_step sample_core 5 2 1 (Serve 1) (rq_goto 1 (Check_Mode (sample_request 8)) sample_v2_start)
     (rq_goto 1 (Check_Slots (sample_request 8) 2) sample_v2_start)"
  using v2_parallel_step.serve [of 1 2 "rq_goto 1 (Check_Mode (sample_request 8)) sample_v2_start"
      sample_core 5 1 "sample_env 5"]
  by (simp add: Let_def) (simp add: rq_goto_def)

theorem v2_request_alone_is_atomic_witness:
  "\<exists>ls s s'. v2_parallel_path sample_core 2 2 1 ls s s' \<and> set ls \<subseteq> {Serve 1} \<and>
    vs_responses s' = [(1, allocated [7, 8])] \<and> v2_active_clients (vs_metrics s') = 2"
proof -
  let ?s = "rq_goto 1 (Check_Mode (sample_request 8)) sample_v2_start"
  have loop: "v2_alloc_loop sample_core 5 (rq_draw (sample_request 8)) 2 0 [] fmempty =
      ([i16_to_string 7, i16_to_string 8], fmupd 8 (client_new sample_core V2_TIMEOUT_SECONDS 5)
        (fmupd 7 (client_new sample_core V2_TIMEOUT_SECONDS 5) fmempty))"
    by (subst v2_alloc_loop.simps, simp add: MAX_ATTEMPTS_def dm_contains_def)+
  obtain r T' m' where r: "v2_handle_request sample_core (sample_env 5) (rq_draw (sample_request 8))
      (rq_query (sample_request 8)) (v2_tunnel_of sample_v2_tunnel ?s, vs_metrics ?s) = (r, T', m')"
    by (metis prod_cases3)
  then have "r = allocated [7, 8]" "v2_active_clients m' = 2"
    by (auto simp: v2_handle_request_def v2_tunnel_of_def v2_clients_of_def loop allocated_def Let_def
        dm.len_insert sample_env_def)
  moreover have "refs_ok (vs_refs ?s) (vs_heap ?s)" "(1 :: nat) < 2"
    "vs_requests ?s 1 = Check_Mode (sample_request 8)" by simp_all
  note v2_request_alone_is_atomic [OF this r, of 1]
  ultimately show ?thesis by (auto simp: numeral_2_eq_2)
qed

section \<open>A packet alone is the handler\<close>

definition relay_alone ::
    "('c, 'q, 'i) relay_core \<Rightarrow> 'i env \<Rightarrow> nat \<Rightarrow> 'c v2_shared \<Rightarrow> 'c v2_shared" where
  "relay_alone R E w s = relay_step R E w (vs_packets s w) s"

lemma relay_alone_step:
  "w < workers \<Longrightarrow> relay_alone R E w s = s \<or>
     v2_parallel_step R limit tasks workers (Relay w) s (relay_alone R E w s)"
  using v2_parallel_step.relay [of w workers s R limit tasks E]
  by (cases "vs_packets s w = No_Packet") (auto simp: relay_alone_def)

definition v2_io_of :: "nat \<Rightarrow> 'c v2_shared \<Rightarrow> io" where
  "v2_io_of w s = \<lparr>io_metrics = vs_metrics s, io_batch = vs_batches s w, io_sent = vs_sent s\<rparr>"

text \<open>The sender: after at most three steps the worker has dropped the packet or looks for the receiver.\<close>

lemma sender_alone:
  assumes ok: "refs_ok (vs_refs s) (vs_heap s)" and at: "vs_packets s w = Find_Sender j"
  shows "\<exists>k \<le> 3. \<exists>refs heap p. (relay_alone R E w ^^ k) s =
      s\<lparr>vs_refs := refs, vs_heap := heap, vs_packets := (vs_packets s)(w := p)\<rparr> \<and> refs_ok refs heap \<and>
    (case v2_admit_sender R E (pk_sender j) (pk_packet j) (pk_source j) (pk_now j) (v2_clients_of s) of
       None \<Rightarrow> p = No_Packet \<and> refs = vs_refs s \<and> heap = vs_heap s
     | Some m \<Rightarrow> p = Find_Receiver j \<and> deref refs heap = m)"
proof (cases "fmlookup (vs_refs s) (pk_sender j)")
  case None
  then have "relay_alone R E w s = s\<lparr>vs_refs := vs_refs s, vs_heap := vs_heap s, vs_packets := (vs_packets s)(w := No_Packet)\<rparr>"
    using at by (simp add: relay_alone_def pk_goto_def)
  with None ok show ?thesis
    by (intro exI [of _ 1]) (auto simp: v2_admit_sender_def v2_clients_of_def)
next
  case (Some a)
  let ?c = "vs_heap s ! a"
  let ?new = "client_new_with_endpoint R (pk_source j) V2_TIMEOUT_SECONDS (instant E)"
  let ?f = "update_stats R (length (pk_packet j)) 0 (pk_now j) \<circ> set_last_receive_tick_at R (pk_now j)"
  note adm = v2_admit_sender_def v2_clients_of_def
  note run = relay_alone_def pk_goto_def Let_def
  consider "remote_ep R ?c = Some (pk_source j)"
    | ep where "remote_ep R ?c = Some ep" "ep \<noteq> pk_source j" "\<not> is_timed_out R ?c (instant E)"
    | "remote_ep R ?c = None \<or> (\<exists>ep. remote_ep R ?c = Some ep \<and> ep \<noteq> pk_source j \<and> is_timed_out R ?c (instant E))"
    by (cases "remote_ep R ?c") auto
  then show ?thesis
  proof cases
    case 1
    have "(relay_alone R E w ^^ 2) s = s\<lparr>vs_refs := vs_refs s, vs_heap := (vs_heap s)[a := ?f ?c],
        vs_packets := (vs_packets s)(w := Find_Receiver j)\<rparr>"
      using 1 Some at by (simp add: numeral_2_eq_2 run)
    moreover have "v2_admit_sender R E (pk_sender j) (pk_packet j) (pk_source j) (pk_now j) (v2_clients_of s) =
        Some (deref (vs_refs s) ((vs_heap s)[a := ?f ?c]))"
      using 1 Some deref_write [OF ok Some, of ?f] by (simp add: adm)
    ultimately show ?thesis using ok
      by (intro exI [of _ 2] conjI exI [of _ "vs_refs s"] exI [of _ "(vs_heap s)[a := ?f ?c]"]
          exI [of _ "Find_Receiver j"]) simp_all
  next
    case (2 ep)
    have "(relay_alone R E w ^^ 2) s = s\<lparr>vs_refs := vs_refs s, vs_heap := vs_heap s,
        vs_packets := (vs_packets s)(w := No_Packet)\<rparr>"
      using 2 Some at by (simp add: numeral_2_eq_2 run)
    moreover have "v2_admit_sender R E (pk_sender j) (pk_packet j) (pk_source j) (pk_now j) (v2_clients_of s) = None"
      using 2 Some by (simp add: adm)
    ultimately show ?thesis using ok by (intro exI [of _ 2]) auto
  next
    case 3
    have "(relay_alone R E w ^^ 3) s = s\<lparr>vs_refs := fmupd (pk_sender j) (length (vs_heap s)) (vs_refs s),
        vs_heap := vs_heap s @ [?new], vs_packets := (vs_packets s)(w := Find_Receiver j)\<rparr>"
      using 3 Some at by (auto simp: numeral_3_eq_3 run)
    moreover have "v2_admit_sender R E (pk_sender j) (pk_packet j) (pk_source j) (pk_now j) (v2_clients_of s) =
        Some (deref (fmupd (pk_sender j) (length (vs_heap s)) (vs_refs s)) (vs_heap s @ [?new]))"
      using 3 Some deref_new [OF ok, where c = ?new and k = "pk_sender j"] by (auto simp: adm)
    ultimately show ?thesis
      using refs_ok_new [OF ok, of "pk_sender j" ?new] 
      by (intro exI [of _ 3] conjI exI [of _ "fmupd (pk_sender j) (length (vs_heap s)) (vs_refs s)"]
          exI [of _ "vs_heap s @ [?new]"] exI [of _ "Find_Receiver j"]) simp_all
  qed
qed

text \<open>The receiver: the second half of the handler, in at most three steps.\<close>

definition v2_forward_half ::
    "('c, 'q, 'i) relay_core \<Rightarrow> 'i env \<Rightarrow> i16 \<Rightarrow> u8 list \<Rightarrow> socket_addr \<Rightarrow> u64
       \<Rightarrow> (i16, 'c) fmap \<Rightarrow> ('c, 'm, 's) v2_state \<Rightarrow> ('c, 'm, 's) v2_state" where
  "v2_forward_half R E receiver_id packet remote now mappings s =
     (let (t, io) = s in
      case v2_forward_info R receiver_id remote mappings of
        None \<Rightarrow> (t\<lparr>v2_mappings := mappings\<rparr>, io)
      | Some ep \<Rightarrow>
          let io = io_send ep packet io in
          if send_succeeds E ep packet then
            (t\<lparr>v2_mappings := dm_modify receiver_id (update_stats R 0 (length packet) now) mappings\<rparr>,
             io_batch_update (record_v2_tx (of_nat (length packet))) io)
          else (t\<lparr>v2_mappings := mappings\<rparr>, io))"

lemma v2_handle_data_forward_halves:
  "v2_handle_data_forward R E sid rid p src now s =
     (case v2_admit_sender R E sid p src now (v2_mappings (fst s)) of
        None \<Rightarrow> s | Some m \<Rightarrow> v2_forward_half R E rid p src now m s)"
  by (simp add: v2_handle_data_forward_def v2_forward_half_def case_prod_beta Let_def split: option.splits)

lemma receiver_alone:
  fixes T :: "('c, 'm, 's) tunnel_v2" and R :: "('c, 'q, 'i) relay_core" and E :: "'i env"
  assumes ok: "refs_ok (vs_refs s) (vs_heap s)" and at: "vs_packets s w = Find_Receiver j"
  defines "s' \<equiv> (relay_alone R E w ^^ 3) s"
  shows "vs_packets s' = (vs_packets s)(w := No_Packet) \<and> vs_requests s' = vs_requests s \<and>
    (v2_tunnel_of T s', v2_io_of w s') =
      v2_forward_half R E (pk_receiver j) (pk_packet j) (pk_source j) (pk_now j) (v2_clients_of s)
        (v2_tunnel_of T s, v2_io_of w s)"
proof (cases "v2_forward_info R (pk_receiver j) (pk_source j) (v2_clients_of s)")
  case None
  then have "s' = pk_goto w No_Packet s"
    using at by (auto simp: s'_def numeral_3_eq_3 relay_alone_def v2_forward_info_def v2_clients_of_def
        split: option.splits if_splits)
  with None show ?thesis
    by (simp add: v2_forward_half_def v2_tunnel_of_def v2_clients_of_def v2_io_of_def)
next
  case (Some ep)
  then obtain a where a: "fmlookup (vs_refs s) (pk_receiver j) = Some a"
    "remote_ep R (vs_heap s ! a) = Some ep" "ep \<noteq> pk_source j"
    by (auto simp: v2_forward_info_def v2_clients_of_def split: option.splits if_splits bind_splits)
  note stored = deref_write [OF ok a(1), of "update_stats R 0 (length (pk_packet j)) (pk_now j)"]
  show ?thesis
    using a at Some stored
    by (cases "send_succeeds E ep (pk_packet j)")
       (simp_all add: s'_def numeral_3_eq_3 relay_alone_def v2_forward_half_def v2_tunnel_of_def v2_clients_of_def
         v2_io_of_def io_send_def)
qed

lemma v2_forward_half_mappings:
  "v2_forward_half R E rid p src now m (t\<lparr>v2_mappings := m'\<rparr>, io) = v2_forward_half R E rid p src now m (t, io)"
  by (simp add: v2_forward_half_def Let_def split: option.splits)

lemma packet_alone:
  fixes T :: "('c, 'm, 's) tunnel_v2" and R :: "('c, 'q, 'i) relay_core" and E :: "'i env"
  assumes ok: "refs_ok (vs_refs s) (vs_heap s)" and at: "vs_packets s w = Find_Sender j"
  defines "run k \<equiv> (relay_alone R E w ^^ k) s"
  shows "\<exists>k \<le> 6. vs_packets (run k) = (vs_packets s)(w := No_Packet) \<and> vs_requests (run k) = vs_requests s \<and>
    (v2_tunnel_of T (run k), v2_io_of w (run k)) =
      v2_handle_data_forward R E (pk_sender j) (pk_receiver j) (pk_packet j) (pk_source j) (pk_now j)
        (v2_tunnel_of T s, v2_io_of w s)"
proof -
  let ?adm = "v2_admit_sender R E (pk_sender j) (pk_packet j) (pk_source j) (pk_now j) (v2_clients_of s)"
  from sender_alone [OF ok at, of R E] obtain k refs heap p where k: "k \<le> 3"
    and s1: "run k = s\<lparr>vs_refs := refs, vs_heap := heap, vs_packets := (vs_packets s)(w := p)\<rparr>"
    and ok1: "refs_ok refs heap"
    and adm: "case ?adm of None \<Rightarrow> p = No_Packet \<and> refs = vs_refs s \<and> heap = vs_heap s
      | Some m \<Rightarrow> p = Find_Receiver j \<and> deref refs heap = m"
    unfolding run_def by blast
  have T: "v2_mappings (v2_tunnel_of T s) = v2_clients_of s" by (simp add: v2_tunnel_of_def)
  show ?thesis
  proof (cases ?adm)
    case None
    with k s1 adm show ?thesis
      by (intro exI [of _ k])
         (simp add: v2_handle_data_forward_halves T v2_tunnel_of_def v2_clients_of_def v2_io_of_def)
  next
    case (Some m)
    with adm have m: "m = v2_clients_of (run k)" and at1: "vs_packets (run k) w = Find_Receiver j"
      by (simp_all add: s1 v2_clients_of_def)
    have "refs_ok (vs_refs (run k)) (vs_heap (run k))" using ok1 by (simp add: s1)
    note half = receiver_alone [OF this at1, of R E T]
    have "run (3 + k) = (relay_alone R E w ^^ 3) (run k)" unfolding run_def funpow_add o_apply ..
    moreover have "(v2_tunnel_of T (run k), v2_io_of w (run k)) =
        ((v2_tunnel_of T s)\<lparr>v2_mappings := v2_clients_of (run k)\<rparr>, v2_io_of w s)"
      by (simp add: s1 v2_tunnel_of_def v2_io_of_def)
    ultimately show ?thesis
      using half Some k
      by (intro exI [of _ "3 + k"]) (simp add: v2_handle_data_forward_halves T m v2_forward_half_mappings, simp add: s1)
  qed
qed

text \<open>
  A packet alone is the handler. From every state, whatever the other threads are in the middle
  of, a packet that a worker of the version 2 tunnel handles while no other thread takes a step
  changes the clients, the counters, the worker's batch and what is sent exactly as
  \<open>v2_handle_data_forward\<close> does, in at most six steps.
\<close>

theorem v2_packet_alone_is_atomic:
  fixes T :: "('c, 'm, 's) tunnel_v2"
  assumes "refs_ok (vs_refs s) (vs_heap s)" and "w < workers" and "vs_packets s w = Find_Sender j"
  shows "\<exists>ls s'. v2_parallel_path R limit tasks workers ls s s' \<and> set ls \<subseteq> {Relay w} \<and> length ls \<le> 6 \<and>
    vs_packets s' = (vs_packets s)(w := No_Packet) \<and> vs_requests s' = vs_requests s \<and>
    (v2_tunnel_of T s', v2_io_of w s') =
      v2_handle_data_forward R E (pk_sender j) (pk_receiver j) (pk_packet j) (pk_source j) (pk_now j)
        (v2_tunnel_of T s, v2_io_of w s)"
proof -
  let ?run = "relay_alone R E w"
  from packet_alone [OF assms(1,3), of R E T] obtain k where k: "k \<le> 6" "vs_packets ((?run ^^ k) s) = (vs_packets s)(w := No_Packet)"
    "vs_requests ((?run ^^ k) s) = vs_requests s"
    "(v2_tunnel_of T ((?run ^^ k) s), v2_io_of w ((?run ^^ k) s)) =
      v2_handle_data_forward R E (pk_sender j) (pk_receiver j) (pk_packet j) (pk_source j) (pk_now j)
        (v2_tunnel_of T s, v2_io_of w s)" by blast
  obtain ls where "v2_parallel_path R limit tasks workers ls s ((?run ^^ k) s)" "set ls \<subseteq> {Relay w}" "length ls \<le> k"
    using labelled_path_funpow [of ?run "v2_parallel_step R limit tasks workers" "Relay w" s k]
      relay_alone_step [OF assms(2)] by blast
  with k show ?thesis by (intro exI conjI) (assumption | simp)+
qed

definition sample_packet :: packet_job where
  "sample_packet = \<lparr>pk_sender = 7, pk_receiver = 8, pk_packet = [0, 7, 0, 8, 9], pk_source = v2_addr_a, pk_now = 5\<rparr>"

text \<open>Two ids are allocated, the second is bound; a packet from the first binds it and is relayed.\<close>

definition sample_relaying :: "sample_client v2_shared" where
  "sample_relaying = v2_parallel_start
     \<lparr>vs_refs := fmupd 7 0 (fmupd 8 1 fmempty),
      vs_heap := [client_new sample_core 30 5, client_new_with_endpoint sample_core v2_addr_b 30 5],
      vs_packets := (\<lambda>_. No_Packet)(0 := Find_Sender sample_packet)\<rparr>"

theorem v2_packet_alone_is_atomic_witness:
  "\<exists>ls s'. v2_parallel_path sample_core 2 2 1 ls sample_relaying s' \<and> set ls \<subseteq> {Relay 0} \<and>
    vs_sent s' = [(v2_addr_b, [0, 7, 0, 8, 9])]"
proof -
  have "refs_ok (vs_refs sample_relaying) (vs_heap sample_relaying)"
    by (auto simp: sample_relaying_def refs_ok_def)
  moreover have "vs_packets sample_relaying 0 = Find_Sender sample_packet" "(0 :: nat) < 1"
    by (simp_all add: sample_relaying_def)
  ultimately obtain ls s' where run: "v2_parallel_path sample_core 2 2 1 ls sample_relaying s'" "set ls \<subseteq> {Relay 0}"
    and result: "(v2_tunnel_of sample_v2_tunnel s', v2_io_of 0 s') =
      v2_handle_data_forward sample_core (sample_env 5) 7 8 [0, 7, 0, 8, 9] v2_addr_a 5
        (v2_tunnel_of sample_v2_tunnel sample_relaying, v2_io_of 0 sample_relaying)"
    using v2_packet_alone_is_atomic [of sample_relaying 0 1 sample_packet sample_core 2 2 sample_v2_tunnel "sample_env 5"]
    by (auto simp: sample_packet_def)
  have "vs_sent s' = io_sent (snd (v2_tunnel_of sample_v2_tunnel s', v2_io_of 0 s'))" by (simp add: v2_io_of_def)
  also have "\<dots> = [(v2_addr_b, [0, 7, 0, 8, 9])]" unfolding result
    by (simp add: v2_handle_data_forward_halves v2_forward_half_def v2_admit_sender_def v2_forward_info_def
        sample_relaying_def v2_parallel_start_def v2_tunnel_of_def v2_clients_of_def v2_io_of_def io_send_def
        sample_core_def sample_env_def v2_addr_a_def v2_addr_b_def)
  finally show ?thesis using run by blast
qed

end
