(* ===== verification/Allocation_Race.thy ===== *)
theory Allocation_Race
  imports Parallel_V2_Refinement
begin

text \<open>
  What parallel requests and packets of the version 2 tunnel keep and what they break: the number of
  clients and the number of steps of a request are bounded, but two requests at once can hand out
  the same id.
\<close>

section \<open>The number of clients\<close>

text \<open>
  A request that has passed the slot check is promised the ids it has not yet inserted; a worker that
  has found a client may bind its id again after it has been removed.
\<close>

fun pledge :: "request_point \<Rightarrow> nat" where
  "pledge (Draw j clients attempts ids) = clients - length ids"
| "pledge (Insert_Id j clients attempts ids i) = clients - length ids"
| "pledge _ = 0"

fun request_ok :: "request_point \<Rightarrow> bool" where
  "request_ok (Check_Slots j clients) = (clients \<le> 8)"
| "request_ok (Draw j clients attempts ids) = (clients \<le> 8)"
| "request_ok (Insert_Id j clients attempts ids i) = (clients \<le> 8 \<and> length ids < clients)"
| "request_ok _ = True"

fun binding :: "packet_point \<Rightarrow> i16 set" where
  "binding (Inspect j a) = {pk_sender j}"
| "binding (Bind j) = {pk_sender j}"
| "binding _ = {}"

definition requests_ok :: "'c v2_shared \<Rightarrow> bool" where
  "requests_ok s \<longleftrightarrow> (\<forall>t. request_ok (vs_requests s t))"

definition taken :: "nat \<Rightarrow> 'c v2_shared \<Rightarrow> i16 set" where
  "taken workers s = dom (fmlookup (vs_refs s)) \<union> (\<Union>w \<in> {..<workers}. binding (vs_packets s w))"

definition pledged :: "nat \<Rightarrow> nat \<Rightarrow> 'c v2_shared \<Rightarrow> nat" where
  "pledged tasks workers s = card (taken workers s) + (\<Sum>t \<in> {..<tasks}. pledge (vs_requests s t))"

lemma pledge_le: "request_ok p \<Longrightarrow> pledge p \<le> 8"
  by (cases p) auto

lemma request_ok_serve:
  "vs_requests s t = p \<Longrightarrow> request_ok p \<Longrightarrow> request_ok (vs_requests (serve R limit E t p s) t)"
  by (cases "(R, limit, E, t, p, s)" rule: serve.cases) (auto simp: Let_def split: option.splits)

lemma requests_ok_step:
  assumes "v2_parallel_step R limit tasks workers l s s'" and "requests_ok s"
  shows "requests_ok s'"
  using assms(1)
proof (cases rule: v2_parallel_step.cases)
  case (serve t E)
  have "request_ok (vs_requests (serve R limit E t (vs_requests s t) s) t')" for t'
    using assms(2) request_ok_serve [OF refl, of s t R limit E]
      serve_others [of t' t R limit E "vs_requests s t" s]
    by (cases "t' = t") (auto simp: requests_ok_def)
  with serve show ?thesis by (simp add: requests_ok_def)
qed (use assms(2) in \<open>auto simp: requests_ok_def\<close>)

lemma finite_binding [simp]: "finite (binding p)" and card_binding: "card (binding p) \<le> 1"
  by (cases p; simp)+

lemma finite_taken [simp]: "finite (taken workers s)"
  by (simp add: taken_def)

lemma card_taken_le: "card (taken workers s) \<le> dm_len (vs_refs s) + workers"
proof -
  have "card (\<Union>w \<in> {..<workers}. binding (vs_packets s w)) \<le> (\<Sum>w \<in> {..<workers}. card (binding (vs_packets s w)))"
    by (rule card_UN_le) simp
  also have "\<dots> \<le> (\<Sum>w \<in> {..<workers}. 1)" by (rule sum_mono) (rule card_binding)
  finally show ?thesis
    using card_Un_le [of "dom (fmlookup (vs_refs s))" "\<Union>w \<in> {..<workers}. binding (vs_packets s w)"]
    by (simp add: taken_def dm.len_card)
qed

lemma dm_len_le_pledged: "dm_len (vs_refs s) \<le> pledged tasks workers s"
proof -
  have "dm_len (vs_refs s) \<le> card (taken workers s)"
    unfolding dm.len_card by (rule card_mono) (auto simp: taken_def)
  then show ?thesis by (simp add: pledged_def)
qed

lemma pledged_split:
  assumes "t < tasks"
  shows "pledged tasks workers s =
    card (taken workers s) + pledge (vs_requests s t) + (\<Sum>t' \<in> {..<tasks} - {t}. pledge (vs_requests s t'))"
  using assms by (simp add: pledged_def sum.remove [of "{..<tasks}" t])

lemma taken_relay:
  assumes "w < workers"
  shows "taken workers (relay_step R E w (vs_packets s w) s) \<subseteq> taken workers s"
proof -
  let ?s' = "relay_step R E w (vs_packets s w) s"
  have own: "dom (fmlookup (vs_refs ?s')) \<union> binding (vs_packets ?s' w) \<subseteq>
      dom (fmlookup (vs_refs s)) \<union> binding (vs_packets s w)"
    by (cases "vs_packets s w") (auto simp: Let_def intro: fmdom'I split: option.splits if_splits)
  have "binding (vs_packets ?s' v) \<subseteq> dom (fmlookup (vs_refs s)) \<union> binding (vs_packets s v)" for v
    using own relay_others [of v w R E "vs_packets s w" s] by (cases "v = w") auto
  with own assms show ?thesis unfolding taken_def by blast
qed

lemma taken_serve:
  "\<not> (\<exists>j n a ids i. p = Insert_Id j n a ids i) \<Longrightarrow> taken workers (serve R limit E t p s) \<subseteq> taken workers s"
  by (cases "(R, limit, E, t, p, s)" rule: serve.cases)
     (auto simp: taken_def Let_def split: option.splits if_splits)

text \<open>A step of a request that is not promised anything new keeps the sum of what is there and promised.\<close>

lemma pledge_serve:
  assumes "vs_requests s t = p" and "request_ok p" and "\<And>j n. p = Check_Slots j n \<Longrightarrow> limit < dm_len (vs_refs s) + n"
  shows "card (taken workers (serve R limit E t p s)) + pledge (vs_requests (serve R limit E t p s) t) \<le>
    card (taken workers s) + pledge p"
proof (cases "\<exists>j n a ids i. p = Insert_Id j n a ids i")
  case True
  then obtain j n a ids i where p: "p = Insert_Id j n a ids i" by blast
  have "taken workers (serve R limit E t p s) = Set.insert i (taken workers s)"
    by (auto simp: p taken_def)
  then have "card (taken workers (serve R limit E t p s)) \<le> Suc (card (taken workers s))"
    by (simp add: card_insert_if)
  with assms(2) show ?thesis by (simp add: p)
next
  case False
  have "pledge (vs_requests (serve R limit E t p s) t) \<le> pledge p"
    using assms False by (cases "(R, limit, E, t, p, s)" rule: serve.cases) (auto simp: Let_def split: option.splits)
  moreover have "card (taken workers (serve R limit E t p s)) \<le> card (taken workers s)"
    by (rule card_mono [OF finite_taken taken_serve [OF False]])
  ultimately show ?thesis by simp
qed

lemma pledged_step:
  assumes "v2_parallel_step R limit tasks workers l s s'" and "requests_ok s"
    and "pledged tasks workers s \<le> limit + workers + 8 * (tasks - 1)"
  shows "pledged tasks workers s' \<le> limit + workers + 8 * (tasks - 1)"
  using assms(1)
proof (cases rule: v2_parallel_step.cases)
  case (request t j)
  then have "taken workers s' = taken workers s" by (simp add: taken_def)
  with request assms(3) show ?thesis by (simp add: pledged_split [of t])
next
  case (serve t E)
  let ?rest = "\<Sum>t' \<in> {..<tasks} - {t}. pledge (vs_requests s t')"
  have rest: "(\<Sum>t' \<in> {..<tasks} - {t}. pledge (vs_requests s' t')) = ?rest"
    using serve serve_others [of _ t R limit E "vs_requests s t" s] by (intro sum.cong) auto
  have ok: "request_ok (vs_requests s t)" for t using assms(2) by (simp add: requests_ok_def)
  show ?thesis
  proof (cases "\<exists>j n. vs_requests s t = Check_Slots j n \<and> dm_len (vs_refs s) + n \<le> limit")
    case True
    then obtain j n where at: "vs_requests s t = Check_Slots j n" "dm_len (vs_refs s) + n \<le> limit" by blast
    have "?rest \<le> (\<Sum>t' \<in> {..<tasks} - {t}. 8)" by (rule sum_mono) (rule pledge_le [OF ok])
    also have "\<dots> = 8 * (tasks - 1)" using serve by simp
    finally have "?rest \<le> 8 * (tasks - 1)" .
    moreover have "card (taken workers s') \<le> dm_len (vs_refs s) + workers"
      using card_taken_le [of workers s'] serve at by auto
    ultimately show ?thesis using serve at by (simp add: pledged_split [of t tasks] rest)
  next
    case False
    then have "card (taken workers s') + pledge (vs_requests s' t) \<le> card (taken workers s) + pledge (vs_requests s t)"
      using pledge_serve [OF refl ok, where t = t and limit = limit] unfolding serve(2) by (auto simp: not_le)
    moreover note assms(3)
    ultimately show ?thesis using serve(3) by (simp add: pledged_split [of t tasks] rest del: serve.simps)
  qed
next
  case (packet w k)
  then have "taken workers s' \<subseteq> taken workers s" by (auto simp: taken_def split: if_splits)
  with packet assms(3) card_mono [OF finite_taken this] show ?thesis by (simp add: pledged_def)
next
  case (relay w E)
  with assms(3) card_mono [OF finite_taken taken_relay [of w workers R E s]] show ?thesis
    by (simp add: pledged_def)
next
  case (expire i a now)
  then have "taken workers s' \<subseteq> taken workers s" by (auto simp: taken_def split: if_splits)
  with expire assms(3) card_mono [OF finite_taken this] show ?thesis by (simp add: pledged_def)
qed (use assms(3) in \<open>simp_all add: pledged_def taken_def\<close>)

interpretation v2_room: promised_room "v2_parallel_step R limit tasks workers" requests_ok
    "\<lambda>s. dm_len (vs_refs s)" "pledged tasks workers" "limit + workers + 8 * (tasks - 1)"
  for R limit tasks workers
  by unfold_locales (rule dm_len_le_pledged, rule requests_ok_step, assumption+, rule pledged_step)

text \<open>
  C26: The client limit under parallel requests. However requests, packets and the heartbeat
  interleave, the version 2 tunnel holds at most its limit, one client for each receive worker and
  eight for each open connection but one.
\<close>

theorem v2_allocation_overshoot_bound:
  assumes "v2_parallel_path R limit tasks workers ls v2_parallel_start s"
  shows "dm_len (vs_refs s) \<le> limit + workers + 8 * (tasks - 1)"
  by (rule v2_room.bounded [OF assms])
     (simp_all add: requests_ok_def pledged_def taken_def v2_parallel_start_def)

section \<open>The number of steps of a request\<close>

fun request_left :: "request_point \<Rightarrow> nat" where
  "request_left No_Request = 0"
| "request_left (Check_Mode j) = MAX_ATTEMPTS + 21"
| "request_left (Check_Slots j clients) = (MAX_ATTEMPTS + 2 * clients) + 4"
| "request_left (Draw j clients attempts ids) = (MAX_ATTEMPTS - attempts) + (clients - length ids) + clients + 3"
| "request_left (Insert_Id j clients attempts ids i) =
     (MAX_ATTEMPTS - attempts) + (clients - Suc (length ids)) + clients + 4"
| "request_left (Undo ids) = Suc (length ids)"
| "request_left (Read_Active ids) = 2"
| "request_left (Store_Active ids n) = 1"

lemma request_left_serve:
  "vs_requests s t = p \<Longrightarrow> p \<noteq> No_Request \<Longrightarrow>
     request_left (vs_requests (serve R limit E t p s) t) < request_left p"
  by (cases "(R, limit, E, t, p, s)" rule: serve.cases) (auto simp: Let_def split: option.splits)

lemma request_left_step:
  assumes "v2_parallel_step R limit tasks workers l s s'" and "\<forall>j. l \<noteq> Request t j"
  shows "(if l = Serve t then 1 else 0) + request_left (vs_requests s' t) \<le> request_left (vs_requests s t)"
  using assms(1)
proof (cases rule: v2_parallel_step.cases)
  case (serve t' E)
  then show ?thesis
    using request_left_serve [OF refl, of s t' R limit E] serve_others [of t t' R limit E "vs_requests s t'" s]
    by (cases "t' = t") auto
qed (use assms(2) in \<open>auto split: if_splits\<close>)

interpretation v2_task: wait_free "v2_parallel_step R limit tasks workers" "\<lambda>t l. \<exists>j. l = Request t j" Serve
    "\<lambda>t s. request_left (vs_requests s t)" for R limit tasks workers
  by unfold_locales (simp add: request_left_step)

text \<open>
  A request is wait-free. Whatever the other threads do, a request that has been taken is
  answered after at most 1021 steps of its own, and until then its next step can always be taken:
  the loop of random draws ends even when no draw gives a free id.
\<close>

theorem v2_request_wait_free:
  assumes "v2_parallel_path R limit tasks workers ls s s'" and "\<forall>j. Request t j \<notin> set ls" and "t < tasks"
    and "vs_requests s t = Check_Mode j"
  shows "count_list ls (Serve t) \<le> 1021 \<and>
    (count_list ls (Serve t) = 1021 \<longrightarrow> vs_requests s' t = No_Request) \<and>
    (vs_requests s' t \<noteq> No_Request \<longrightarrow> (\<exists>s''. v2_parallel_step R limit tasks workers (Serve t) s' s''))"
proof -
  have "\<forall>l \<in> set ls. \<not> (\<exists>j. l = Request t j)" using assms(2) by blast
  then have rank: "count_list ls (Serve t) + request_left (vs_requests s' t) \<le> 1021"
    using v2_task.own_steps [OF assms(1), of t] assms(4) by (simp add: MAX_ATTEMPTS_def)
  have "request_left p = 0 \<Longrightarrow> p = No_Request" for p by (cases p) (simp_all add: MAX_ATTEMPTS_def)
  with rank v2_parallel_step.serve [OF assms(3)] show ?thesis by auto blast
qed

section \<open>One id for two players\<close>

text \<open>The state after the given tasks have each taken a step, in this order.\<close>

definition serve_schedule ::
    "('c, 'q, 'i) relay_core \<Rightarrow> nat \<Rightarrow> 'i env \<Rightarrow> nat list \<Rightarrow> 'c v2_shared \<Rightarrow> 'c v2_shared" where
  "serve_schedule R limit E ts s = fold (serve_alone R limit E) ts s"

lemma serve_schedule_path:
  assumes "set ts \<subseteq> {..<tasks}"
  shows "\<exists>ls. v2_parallel_path R limit tasks workers ls s (serve_schedule R limit E ts s)"
proof -
  have "serve_alone R limit E t s = s \<or> v2_parallel_step R limit tasks workers (Serve t) s (serve_alone R limit E t s)"
    if "t \<in> set ts" for t s
    by (rule serve_alone_step) (use that assms in auto)
  from labelled_path_fold [of ts "serve_alone R limit E" "v2_parallel_step R limit tasks workers" Serve, OF this]
  show ?thesis unfolding serve_schedule_def by blast
qed

text \<open>Two tasks take a request each, and both pass the slot check before either draws.\<close>

lemma both_pass_slots:
  assumes "t1 \<noteq> t2" and "\<not> vs_mode s" and "dm_len (vs_refs s) + 2 \<le> limit"
    and "v2_clients_param (rq_query j1) = 2" and "v2_clients_param (rq_query j2) = 2"
  shows "serve_schedule R limit E [t1, t2, t1, t2] (rq_goto t2 (Check_Mode j2) (rq_goto t1 (Check_Mode j1) s)) =
    s\<lparr>vs_requests := (vs_requests s)(t1 := Draw j1 2 0 [], t2 := Draw j2 2 0 [])\<rparr>"
  using assms by (simp add: serve_schedule_def serve_alone_def rq_goto_def fun_upd_twist [of t1 t2])

text \<open>Both then draw the same id, see that it is free, and insert it.\<close>

lemma both_insert:
  assumes "t1 \<noteq> t2"
    and "rq_draw j1 0 = i" and "rq_draw j2 0 = i" and "i \<noteq> 0" and "fmlookup (vs_refs s) i = None"
    and "vs_requests s t1 = Draw j1 2 0 []" and "vs_requests s t2 = Draw j2 2 0 []"
  shows "\<exists>heap. serve_schedule R limit E [t1, t2, t1, t2] s =
    s\<lparr>vs_refs := fmupd i (Suc (length (vs_heap s))) (vs_refs s), vs_heap := heap,
      vs_requests := (vs_requests s)(t1 := Draw j1 2 1 [i16_to_string i], t2 := Draw j2 2 1 [i16_to_string i])\<rparr>"
  using assms
  by (intro exI [of _ "vs_heap s @ replicate 2 (client_new R V2_TIMEOUT_SECONDS (instant E))"])
     (simp add: serve_schedule_def serve_alone_def rq_goto_def MAX_ATTEMPTS_def dm_contains_def
      numeral_2_eq_2 fun_upd_twist [of t1 t2] Let_def)

text \<open>Each then draws an id of its own and answers.\<close>

lemma both_finish:
  fixes R :: "('c, 'q, 'i) relay_core" and E :: "'i env" and limit :: nat
  assumes "t1 \<noteq> t2"
    and "rq_draw j1 1 = i1" and "rq_draw j2 1 = i2" and "i1 \<noteq> 0" and "i2 \<noteq> 0" and "i1 \<noteq> i2"
    and "fmlookup (vs_refs s) i1 = None" and "fmlookup (vs_refs s) i2 = None"
    and "vs_requests s t1 = Draw j1 2 1 ids1" and "vs_requests s t2 = Draw j2 2 1 ids2"
    and "length ids1 = 1" and "length ids2 = 1"
  defines "s' \<equiv> serve_schedule R limit E [t1, t1, t2, t2, t1, t2, t1, t2, t1, t2] s"
  shows "vs_responses s' = vs_responses s @
      [(t1, respond_with 200 [(''Content-Type'', ''application/json'')]
         (''['' @ join_with '','' (ids1 @ [i16_to_string i1]) @ '']'')),
       (t2, respond_with 200 [(''Content-Type'', ''application/json'')]
         (''['' @ join_with '','' (ids2 @ [i16_to_string i2]) @ '']''))]"
    and "vs_requests s' = (vs_requests s)(t1 := No_Request, t2 := No_Request)"
    and "dm_len (vs_refs s') = dm_len (vs_refs s) + 2"
  unfolding s'_def using assms(1-12)
  by (simp_all add: serve_schedule_def serve_alone_def MAX_ATTEMPTS_def dm_contains_def Let_def
      dm.len_insert fun_upd_twist [of t1 t2])

text \<open>
  C31: One id for two players. When two requests for two ids are handled at once and their random
  draws start with the same free id, both see that it is free and both hand it out: two clients of
  two games get the same id, and three ids are in use where four were promised. With just two slots
  left before, both requests also pass the slot check, and the limit is passed.
\<close>

theorem v2_request_race_duplicates:
  fixes R :: "('c, 'q, 'i) relay_core" and j1 j2 :: request_job
  assumes "t1 < tasks" and "t2 < tasks" and "t1 \<noteq> t2"
    and "vs_requests s t1 = No_Request" and "vs_requests s t2 = No_Request"
    and "\<not> vs_mode s" and "dm_len (vs_refs s) + 2 \<le> limit"
    and "v2_clients_param (rq_query j1) = 2" and "v2_clients_param (rq_query j2) = 2"
    and "rq_draw j1 0 = i" and "rq_draw j2 0 = i" and "rq_draw j1 1 = i1" and "rq_draw j2 1 = i2"
    and "distinct [0, i, i1, i2]" and "\<forall>k \<in> {i, i1, i2}. fmlookup (vs_refs s) k = None"
  shows "\<exists>ls s'. v2_parallel_path R limit tasks workers ls s s' \<and> vs_requests s' = vs_requests s \<and>
    vs_responses s' = vs_responses s @ [(t1, allocated [i, i1]), (t2, allocated [i, i2])] \<and>
    dm_len (vs_refs s') = dm_len (vs_refs s) + 3"
proof -
  let ?s0 = "rq_goto t2 (Check_Mode j2) (rq_goto t1 (Check_Mode j1) s)"
  let ?E = "undefined :: 'i env"
  define s1 where "s1 = serve_schedule R limit ?E [t1, t2, t1, t2] ?s0"
  define s2 where "s2 = serve_schedule R limit ?E [t1, t2, t1, t2] s1"
  define s3 where "s3 = serve_schedule R limit ?E [t1, t1, t2, t2, t1, t2, t1, t2, t1, t2] s2"
  have s1: "s1 = s\<lparr>vs_requests := (vs_requests s)(t1 := Draw j1 2 0 [], t2 := Draw j2 2 0 [])\<rparr>"
    unfolding s1_def by (rule both_pass_slots [OF assms(3,6-9)])
  have at1: "vs_requests s1 t1 = Draw j1 2 0 []" "vs_requests s1 t2 = Draw j2 2 0 []" "vs_refs s1 = vs_refs s"
    "vs_responses s1 = vs_responses s" using assms(3) by (simp_all add: s1)
  have "i \<noteq> 0" "fmlookup (vs_refs s1) i = None" using assms(14,15) at1(3) by auto
  from both_insert [OF assms(3,10,11) this at1(1,2), of R limit ?E] obtain heap where
    s2: "s2 = s1\<lparr>vs_refs := fmupd i (Suc (length (vs_heap s1))) (vs_refs s1), vs_heap := heap,
      vs_requests := (vs_requests s1)(t1 := Draw j1 2 1 [i16_to_string i], t2 := Draw j2 2 1 [i16_to_string i])\<rparr>"
    unfolding s2_def by blast
  have at2: "vs_requests s2 t1 = Draw j1 2 1 [i16_to_string i]" "vs_requests s2 t2 = Draw j2 2 1 [i16_to_string i]"
    using assms(3) by (simp_all add: s2)
  have free: "i1 \<noteq> 0" "i2 \<noteq> 0" "i1 \<noteq> i2" "fmlookup (vs_refs s2) i1 = None" "fmlookup (vs_refs s2) i2 = None"
    using assms(14,15) by (auto simp: s2 at1)
  note finish = both_finish [OF assms(3,12,13) free at2, of R limit ?E, folded s3_def]
  have "v2_parallel_step R limit tasks workers (Request t1 j1) s (rq_goto t1 (Check_Mode j1) s)"
    "v2_parallel_step R limit tasks workers (Request t2 j2) (rq_goto t1 (Check_Mode j1) s) ?s0"
    by (rule v2_parallel_step.request; use assms(1-5) in simp)+
  then have "v2_parallel_path R limit tasks workers [Request t1 j1, Request t2 j2] s ?s0"
    by (blast intro: labelled_path.intros)
  moreover obtain la lb lc where "v2_parallel_path R limit tasks workers la ?s0 s1"
    "v2_parallel_path R limit tasks workers lb s1 s2" "v2_parallel_path R limit tasks workers lc s2 s3"
    unfolding s1_def s2_def s3_def using serve_schedule_path assms(1,2) by (metis empty_subsetI insert_subset lessThan_iff list.set)
  ultimately have "v2_parallel_path R limit tasks workers ([Request t1 j1, Request t2 j2] @ la @ lb @ lc) s s3"
    by (blast intro: labelled_path_append)
  moreover have "vs_requests s3 = vs_requests s"
    using finish(2) assms(3-5) by (auto simp: s2 s1)
  moreover have "vs_responses s3 = vs_responses s @ [(t1, allocated [i, i1]), (t2, allocated [i, i2])]"
    using finish(1) by (simp add: allocated_def s2 at1)
  moreover have "dm_len (vs_refs s3) = dm_len (vs_refs s) + 3"
    using finish(3) assms(15) by (simp add: s2 at1 dm.len_insert)
  ultimately show ?thesis by blast
qed

section \<open>Witnesses\<close>

theorem v2_allocation_overshoot_bound_witness:
  "\<exists>ls s. v2_parallel_path sample_core 5 2 1 ls sample_v2_start s \<and>
    vs_requests s 1 = Check_Slots (sample_request 8) 2 \<and> dm_len (vs_refs s) \<le> 14"
proof -
  have run: "v2_parallel_path sample_core 5 2 1 [Request 1 (sample_request 8), Serve 1] sample_v2_start
      (rq_goto 1 (Check_Slots (sample_request 8) 2) sample_v2_start)"
    using sample_taken sample_served by (blast intro: labelled_path.intros)
  from v2_allocation_overshoot_bound [OF run] run show ?thesis
    by (intro exI [of _ "[Request 1 (sample_request 8), Serve 1]"]
        exI [of _ "rq_goto 1 (Check_Slots (sample_request 8) 2) sample_v2_start"]) simp
qed

theorem v2_request_wait_free_witness:
  "\<exists>s s' s''. v2_parallel_path sample_core 5 2 1 [Serve 1] s s' \<and>
    vs_requests s' 1 = Check_Slots (sample_request 8) 2 \<and> v2_parallel_step sample_core 5 2 1 (Serve 1) s' s''"
proof -
  let ?s = "rq_goto 1 (Check_Mode (sample_request 8)) sample_v2_start"
  let ?s' = "rq_goto 1 (Check_Slots (sample_request 8) 2) sample_v2_start"
  have run: "v2_parallel_path sample_core 5 2 1 [Serve 1] ?s ?s'"
    using sample_served by (rule labelled_path_single)
  have "\<forall>j. Request 1 j \<notin> set [Serve 1]" "(1 :: nat) < 2" "vs_requests ?s 1 = Check_Mode (sample_request 8)"
    by simp_all
  from v2_request_wait_free [OF run this] obtain s'' where "v2_parallel_step sample_core 5 2 1 (Serve 1) ?s' s''"
    by auto
  with run show ?thesis by (intro exI [of _ ?s] exI [of _ ?s'] exI [of _ s'']) simp
qed

theorem v2_request_race_duplicates_witness:
  "\<exists>ls s'. v2_parallel_path sample_core 2 2 1 ls sample_v2_start s' \<and>
    vs_responses s' = [(0, allocated [7, 8]), (1, allocated [7, 9])] \<and> dm_len (vs_refs s') = 3"
  using v2_request_race_duplicates [of 0 2 1 v2_parallel_start 2 "sample_request 8" "sample_request 9"
      7 8 9 sample_core 1]
  by auto

end
