(* ===== verification/Parallel_Relay.thy ===== *)
theory Parallel_Relay
  imports Parallel_Refinement Parallel_V2_Refinement
begin

text \<open>
  Under every interleaving of their threads both tunnels only relay: each datagram they send carries
  a packet they received, no packet is sent twice, and a datagram goes only to an address from which
  a packet had come before.
\<close>

section \<open>Version 3\<close>

text \<open>The packet that a worker at a point may still send, and the addresses it knows.\<close>

fun to_send :: "worker_point \<Rightarrow> u8 list multiset" where
  "to_send Idle = {#}"
| "to_send (Look_Sender j) = {#jb_packet j#}"
| "to_send (Examine j a) = {#jb_packet j#}"
| "to_send (Record_Received j) = {#jb_packet j#}"
| "to_send (Check_Room j) = {#jb_packet j#}"
| "to_send (Take_Token k j) = {#jb_packet j#}"
| "to_send (Insert_Client k j) = {#jb_packet j#}"
| "to_send (Insert_Analyzer k j) = {#jb_packet j#}"
| "to_send (Read_Count j) = {#jb_packet j#}"
| "to_send (Store_Count j n) = {#jb_packet j#}"
| "to_send (Look_Receiver j) = {#jb_packet j#}"
| "to_send (Send_Packet j a ep) = {#jb_packet j#}"
| "to_send (Record_Loss j) = {#}"
| "to_send (Account j a) = {#}"

fun addresses :: "worker_point \<Rightarrow> socket_addr set" where
  "addresses (Send_Packet j a ep) = {jb_source j, ep}"
| "addresses (Look_Sender j) = {jb_source j}"
| "addresses (Examine j a) = {jb_source j}"
| "addresses (Record_Received j) = {jb_source j}"
| "addresses (Check_Room j) = {jb_source j}"
| "addresses (Take_Token k j) = {jb_source j}"
| "addresses (Insert_Client k j) = {jb_source j}"
| "addresses (Insert_Analyzer k j) = {jb_source j}"
| "addresses (Read_Count j) = {jb_source j}"
| "addresses (Store_Count j n) = {jb_source j}"
| "addresses (Look_Receiver j) = {jb_source j}"
| "addresses _ = {}"

definition v3_pending :: "nat \<Rightarrow> ('c, 'q, 'm) shared \<Rightarrow> u8 list multiset" where
  "v3_pending workers s = (\<Sum>w \<in> {..<workers}. to_send (sh_workers s w))"

definition payloads :: "datagram list \<Rightarrow> u8 list multiset" where
  "payloads ds = image_mset snd (mset ds)"

lemma payloads_simps [simp]:
  "payloads [] = {#}" "payloads (ds @ ds') = payloads ds + payloads ds'" "payloads [(ep, p)] = {#p#}"
  by (simp_all add: payloads_def)

definition v3_known :: "('c, 'q, 'i) relay_core \<Rightarrow> socket_addr set \<Rightarrow> ('c, 'q, 'm) shared \<Rightarrow> bool" where
  "v3_known R A s \<longleftrightarrow> endpoint_laws R \<and> store_ok R s \<and>
     (\<forall>c \<in> set (sh_heap s). \<forall>ep. remote_ep R c = Some ep \<longrightarrow> ep \<in> A) \<and>
     (\<forall>w. addresses (sh_workers s w) \<subseteq> A) \<and> fst ` set (sh_sent s) \<subseteq> A"

lemma v3_pending_split:
  "w < workers \<Longrightarrow> v3_pending workers s =
     to_send (sh_workers s w) + (\<Sum>v \<in> {..<workers} - {w}. to_send (sh_workers s v))"
  by (simp add: v3_pending_def sum.remove [of "{..<workers}" w])

lemma to_send_advance:
  "sh_workers s w = p \<Longrightarrow>
   payloads (sh_sent (advance R L limit E w p s)) + to_send (sh_workers (advance R L limit E w p s) w) \<subseteq>#
     payloads (sh_sent s) + to_send p"
  by (cases p) (auto simp: Let_def split: option.splits prod.splits admission_kind.splits)

lemma v3_relays_step:
  assumes "parallel_step R L limit workers l s s'"
  shows "payloads (sh_sent s') + v3_pending workers s' \<subseteq>#
    payloads (sh_sent s) + v3_pending workers s + image_mset jb_packet (mset (received l))"
  using assms
proof (cases rule: parallel_step.cases)
  case (receive w j)
  moreover have "(\<Sum>v \<in> {..<workers} - {w}. to_send (sh_workers s' v)) = (\<Sum>v \<in> {..<workers} - {w}. to_send (sh_workers s v))"
    using receive by (intro sum.cong) auto
  ultimately show ?thesis by (simp add: v3_pending_split [of w])
next
  case (work w E)
  have "(\<Sum>v \<in> {..<workers} - {w}. to_send (sh_workers s' v)) = (\<Sum>v \<in> {..<workers} - {w}. to_send (sh_workers s v))"
    using work advance_others [of _ w R L limit E "sh_workers s w" s] by (intro sum.cong) auto
  with to_send_advance [OF refl, where s = s and w = w and R = R and L = L and limit = limit and E = E] work show ?thesis
    by (simp add: v3_pending_split [of w] subset_mset.add_right_mono flip: add.assoc)
qed (simp_all add: v3_pending_def)

lemma v3_known_advance:
  assumes known: "v3_known R A s"
  shows "v3_known R A (advance R L limit E w (sh_workers s w) s)"
proof -
  from known have laws: "endpoint_laws R" and store: "store_ok R s"
    and heap: "\<And>c ep. c \<in> set (sh_heap s) \<Longrightarrow> remote_ep R c = Some ep \<Longrightarrow> ep \<in> A"
    and points: "\<And>v. addresses (sh_workers s v) \<subseteq> A" and sent: "fst ` set (sh_sent s) \<subseteq> A"
    unfolding v3_known_def by blast+
  let ?s' = "advance R L limit E w (sh_workers s w) s"
  note ep = endpoint_lawsD [OF laws]
  note range = store_okD(2,3) [OF store]
  have "ep \<in> A" if "c \<in> set (sh_heap ?s')" "remote_ep R c = Some ep" for c ep
    using that heap points [of w] range(2) [of _ w]
    by (cases "sh_workers s w")
       (auto simp: Let_def ep split: option.splits prod.splits admission_kind.splits if_splits
         dest!: subsetD [OF set_update_subset_insert] intro: heap [OF nth_mem])
  moreover have "addresses (sh_workers ?s' w) \<subseteq> A"
    using points [of w] range(1)
    by (cases "sh_workers s w")
       (auto simp: Let_def split: option.splits prod.splits admission_kind.splits if_splits
         intro: heap [OF nth_mem])
  then have "addresses (sh_workers ?s' v) \<subseteq> A" for v
    using points [of v] advance_others [of v w R L limit E "sh_workers s w" s] by (cases "v = w") auto
  moreover have "fst ` set (sh_sent ?s') \<subseteq> A"
    using sent points [of w]
    by (cases "sh_workers s w")
       (auto simp: Let_def split: option.splits prod.splits admission_kind.splits if_splits)
  moreover note store_ok_advance [OF laws store]
  ultimately show ?thesis using laws unfolding v3_known_def by blast
qed

lemma v3_known_frame:
  assumes "v3_known R A s" and "store_ok R s'" and "sh_heap s' = sh_heap s" and "sh_sent s' = sh_sent s"
    and "A \<subseteq> B" and "\<And>w. addresses (sh_workers s' w) \<subseteq> addresses (sh_workers s w) \<union> B"
  shows "v3_known R B s'"
proof -
  have "addresses (sh_workers s' w) \<subseteq> B" for w
    using assms(1,5) assms(6) [of w] unfolding v3_known_def by blast
  then show ?thesis using assms(1,2,5) unfolding v3_known_def assms(3,4) by blast
qed

lemma v3_known_step:
  assumes "parallel_step R L limit workers l s s'" and "v3_known R A s"
  shows "v3_known R (A \<union> jb_source ` set (received l)) s'"
proof -
  have "store_ok R s'" by (rule store_ok_step [OF _ _ assms(1)]) (use assms(2) in \<open>simp_all add: v3_known_def\<close>)
  with assms(1) show ?thesis
  proof (cases rule: parallel_step.cases)
    case (work w E)
    have "v3_known R A s'" unfolding work(2) by (rule v3_known_advance [OF assms(2)])
    then show ?thesis by (simp only: work(1) received.simps list.set image_empty Un_empty_right)
  next
    case (receive w j)
    with \<open>store_ok R s'\<close> show ?thesis by (intro v3_known_frame [OF assms(2)]) auto
  qed (intro v3_known_frame [OF assms(2) \<open>store_ok R s'\<close>]; simp)+
qed

interpretation v3_relay: relaying "parallel_step R L limit workers"
    "\<lambda>l. image_mset jb_packet (mset (received l))" "\<lambda>l. jb_source ` set (received l)"
    "\<lambda>s. payloads (sh_sent s)" "v3_pending workers" "v3_known R" for R L limit workers
  by unfold_locales (rule v3_relays_step, assumption, rule v3_known_step)

lemma sum_list_received:
  "(\<Sum>l \<leftarrow> ls. image_mset f (mset (g l))) = image_mset f (mset (concat (map g ls)))"
  by (induction ls) simp_all

text \<open>
  C24: No forging, no amplification, no reflection, under every interleaving. From an empty tunnel,
  whatever the workers and the heartbeat do in whatever order, the packets that the version 3 tunnel
  has sent on are among the data packets it has received, each at most once, and every one of them
  went to an address from which a data packet had come.
\<close>

theorem parallel_only_relays:
  assumes "endpoint_laws R" and "parallel_path R L limit workers ls (parallel_start L n) s"
  defines "jobs \<equiv> concat (map received ls)"
  shows "mset (map snd (sh_sent s)) \<subseteq># mset (map jb_packet jobs) \<and>
    fst ` set (sh_sent s) \<subseteq> jb_source ` set jobs"
proof -
  have "payloads (sh_sent s) \<subseteq># (\<Sum>l \<leftarrow> ls. image_mset jb_packet (mset (received l)))"
    by (rule v3_relay.path_sends_received [OF assms(2)]) (simp_all add: v3_pending_def parallel_start_def)
  moreover have "v3_known R {} (parallel_start L n)"
    using assms(1) by (simp add: v3_known_def) (simp add: parallel_start_def)
  from v3_relay.path_known [OF assms(2) this]
  have "fst ` set (sh_sent s) \<subseteq> (\<Union>l \<in> set ls. jb_source ` set (received l))"
    unfolding v3_known_def by simp
  ultimately show ?thesis by (simp add: sum_list_received payloads_def jobs_def image_UN)
qed

theorem parallel_only_relays_witness:
  "\<exists>ls s. parallel_path sample_core sample_rater 2 1 ls
      (parallel_start sample_rater 8 :: (sample_client, nat, sample_manager) shared) s \<and>
    sh_sent s = [(addr_a, [1, 2, 3, 4, 5, 6, 7, 8, 9])] \<and>
    mset (map snd (sh_sent s)) \<subseteq># mset (map jb_packet (concat (map received ls))) \<and>
    fst ` set (sh_sent s) \<subseteq> jb_source ` set (concat (map received ls))"
proof -
  let ?s = "parallel_start sample_rater 8 :: (sample_client, nat, sample_manager) shared"
  let ?t = "fresh_tunnel :: (sample_client, nat, sample_manager) tunnel_v3"
  let ?jobs = "[(sample_env 5, sample_job 7 8 addr_a), (sample_env 5, sample_job 8 7 addr_b)]"
  have "(0 :: nat) < 1" "sh_workers ?s 0 = Idle" "max_clients (v3_config ?t) = 2"
    by (simp_all add: parallel_start_def fresh_tunnel_def tunnel_v3_new_def sample_config_def)
  with serial_history [OF sample_endpoint_laws _ store_ok_start, of 0 1 sample_rater 8 sample_rater ?t ?jobs]
  obtain ls s' where run: "parallel_path sample_core sample_rater 2 1 ls ?s s'" and
    result: "(tunnel_of ?t s', io_of 0 s') = handle_jobs sample_core sample_rater ?jobs (tunnel_of ?t ?s, io_of 0 ?s)"
    by auto
  have "sh_sent s' = io_sent (snd (tunnel_of ?t s', io_of 0 s'))" by (simp add: io_of_def)
  also have "\<dots> = [(addr_a, [1, 2, 3, 4, 5, 6, 7, 8, 9])]" unfolding result
    by (simp add: handle_jobs_def v3_handle_data_forward_halves forward_half_def v3_admit_sender_def
        v3_forward_info_def clients_of_def parallel_start_def fresh_tunnel_def tunnel_v3_new_def
        sample_config_def connection_rate_limiter_new_def try_acquire_def sample_rater_def sample_core_def
        sample_job_def sample_env_def tunnel_of_def io_of_def io_send_def addr_a_def addr_b_def dm.len_insert Let_def)
  finally show ?thesis
    using parallel_only_relays [OF sample_endpoint_laws run] run by blast
qed

section \<open>Version 2\<close>

fun pk_to_send :: "packet_point \<Rightarrow> u8 list multiset" where
  "pk_to_send (Find_Sender j) = {#pk_packet j#}"
| "pk_to_send (Inspect j a) = {#pk_packet j#}"
| "pk_to_send (Bind j) = {#pk_packet j#}"
| "pk_to_send (Find_Receiver j) = {#pk_packet j#}"
| "pk_to_send (Forward j a ep) = {#pk_packet j#}"
| "pk_to_send _ = {#}"

fun pk_addresses :: "packet_point \<Rightarrow> socket_addr set" where
  "pk_addresses (Find_Sender j) = {pk_source j}"
| "pk_addresses (Inspect j a) = {pk_source j}"
| "pk_addresses (Bind j) = {pk_source j}"
| "pk_addresses (Find_Receiver j) = {pk_source j}"
| "pk_addresses (Forward j a ep) = {pk_source j, ep}"
| "pk_addresses _ = {}"

fun pk_held :: "packet_point \<Rightarrow> nat set" where
  "pk_held (Inspect j a) = {a}"
| "pk_held (Forward j a ep) = {a}"
| "pk_held (Count_Sent j a) = {a}"
| "pk_held _ = {}"

fun v2_received :: "v2_label \<Rightarrow> packet_job list" where
  "v2_received (Packet w j) = [j]"
| "v2_received _ = []"

definition v2_pending :: "nat \<Rightarrow> 'c v2_shared \<Rightarrow> u8 list multiset" where
  "v2_pending workers s = (\<Sum>w \<in> {..<workers}. pk_to_send (vs_packets s w))"

definition v2_known :: "('c, 'q, 'i) relay_core \<Rightarrow> socket_addr set \<Rightarrow> 'c v2_shared \<Rightarrow> bool" where
  "v2_known R A s \<longleftrightarrow> endpoint_laws R \<and> refs_ok (vs_refs s) (vs_heap s) \<and>
     (\<forall>w. \<forall>a \<in> pk_held (vs_packets s w). a < length (vs_heap s)) \<and>
     (\<forall>c \<in> set (vs_heap s). \<forall>ep. remote_ep R c = Some ep \<longrightarrow> ep \<in> A) \<and>
     (\<forall>w. pk_addresses (vs_packets s w) \<subseteq> A) \<and> fst ` set (vs_sent s) \<subseteq> A"

lemma v2_pending_split:
  "w < workers \<Longrightarrow> v2_pending workers s =
     pk_to_send (vs_packets s w) + (\<Sum>v \<in> {..<workers} - {w}. pk_to_send (vs_packets s v))"
  by (simp add: v2_pending_def sum.remove [of "{..<workers}" w])

lemma to_send_relay:
  "vs_packets s w = p \<Longrightarrow>
   payloads (vs_sent (relay_step R E w p s)) + pk_to_send (vs_packets (relay_step R E w p s) w) \<subseteq>#
     payloads (vs_sent s) + pk_to_send p"
  by (cases p) (auto simp: Let_def split: option.splits)

lemma serve_sent [simp]: "vs_sent (serve R limit E t p s) = vs_sent s"
  by (cases "(R, limit, E, t, p, s)" rule: serve.cases) (auto simp: Let_def split: option.splits)

lemma v2_relays_step:
  assumes "v2_parallel_step R limit tasks workers l s s'"
  shows "payloads (vs_sent s') + v2_pending workers s' \<subseteq>#
    payloads (vs_sent s) + v2_pending workers s + image_mset pk_packet (mset (v2_received l))"
  using assms
proof (cases rule: v2_parallel_step.cases)
  case (packet w k)
  moreover have "(\<Sum>v \<in> {..<workers} - {w}. pk_to_send (vs_packets s' v)) = (\<Sum>v \<in> {..<workers} - {w}. pk_to_send (vs_packets s v))"
    using packet by (intro sum.cong) auto
  ultimately show ?thesis by (simp add: v2_pending_split [of w])
next
  case (relay w E)
  have "(\<Sum>v \<in> {..<workers} - {w}. pk_to_send (vs_packets s' v)) = (\<Sum>v \<in> {..<workers} - {w}. pk_to_send (vs_packets s v))"
    using relay relay_others [of _ w R E "vs_packets s w" s] by (intro sum.cong) auto
  with to_send_relay [OF refl, where s = s and w = w and R = R and E = E] relay show ?thesis
    by (simp add: v2_pending_split [of w] subset_mset.add_right_mono flip: add.assoc)
qed (simp_all add: v2_pending_def)

text \<open>A request allocates clients without an address.\<close>

lemma v2_known_serve:
  assumes "v2_known R A s"
  shows "v2_known R A (serve R limit E t p s)"
proof -
  note laws = assms [unfolded v2_known_def]
  have refs: "refs_ok (vs_refs (serve R limit E t p s)) (vs_heap (serve R limit E t p s))"
    using laws by (cases "(R, limit, E, t, p, s)" rule: serve.cases)
      (auto simp: Let_def intro: refs_ok_new refs_ok_drop split: option.splits)
  have heap: "\<exists>cs. vs_heap (serve R limit E t p s) = vs_heap s @ cs \<and> (\<forall>c \<in> set cs. remote_ep R c = None)"
    using endpoint_lawsD [of R] laws
    by (cases "(R, limit, E, t, p, s)" rule: serve.cases) (auto simp: Let_def split: option.splits)
  then obtain cs where cs: "vs_heap (serve R limit E t p s) = vs_heap s @ cs" "\<forall>c \<in> set cs. remote_ep R c = None"
    by blast
  show ?thesis using laws refs unfolding v2_known_def by (auto simp: cs intro: trans_less_add1)
qed

lemma v2_known_relay:
  assumes known: "v2_known R A s"
  shows "v2_known R A (relay_step R E w (vs_packets s w) s)"
proof -
  from known have laws: "endpoint_laws R" and refs: "refs_ok (vs_refs s) (vs_heap s)"
    and held: "\<And>v a. a \<in> pk_held (vs_packets s v) \<Longrightarrow> a < length (vs_heap s)"
    and heap: "\<And>c ep. c \<in> set (vs_heap s) \<Longrightarrow> remote_ep R c = Some ep \<Longrightarrow> ep \<in> A"
    and points: "\<And>v. pk_addresses (vs_packets s v) \<subseteq> A" and sent: "fst ` set (vs_sent s) \<subseteq> A"
    unfolding v2_known_def by blast+
  let ?s' = "relay_step R E w (vs_packets s w) s"
  note ep = endpoint_lawsD [OF laws]
  note range = refs_okD(1) [OF refs]
  have "refs_ok (vs_refs ?s') (vs_heap ?s')"
    using refs by (cases "vs_packets s w") (auto simp: Let_def intro: refs_ok_new split: option.splits)
  moreover have len: "length (vs_heap s) \<le> length (vs_heap ?s')"
    by (cases "vs_packets s w") (auto simp: Let_def split: option.splits)
  have "a < length (vs_heap ?s')" if "a \<in> pk_held (vs_packets ?s' w)" for a
    using that held [of _ w] range
    by (cases "vs_packets s w") (auto simp: Let_def split: option.splits if_splits)
  then have "a < length (vs_heap ?s')" if "a \<in> pk_held (vs_packets ?s' v)" for a v
    using that held [of a v] len relay_others [of v w R E "vs_packets s w" s] by (cases "v = w") auto
  moreover have "ep \<in> A" if "c \<in> set (vs_heap ?s')" "remote_ep R c = Some ep" for c ep
    using that heap points [of w] held [of _ w]
    by (cases "vs_packets s w")
       (auto simp: Let_def ep split: option.splits if_splits
         dest!: subsetD [OF set_update_subset_insert] intro: heap [OF nth_mem])
  moreover have "pk_addresses (vs_packets ?s' w) \<subseteq> A"
    using points [of w] range
    by (cases "vs_packets s w") (auto simp: Let_def split: option.splits if_splits intro: heap [OF nth_mem])
  then have "pk_addresses (vs_packets ?s' v) \<subseteq> A" for v
    using points [of v] relay_others [of v w R E "vs_packets s w" s] by (cases "v = w") auto
  moreover have "fst ` set (vs_sent ?s') \<subseteq> A"
    using sent points [of w] by (cases "vs_packets s w") (auto simp: Let_def split: option.splits if_splits)
  ultimately show ?thesis using laws unfolding v2_known_def by blast
qed

lemma v2_known_step:
  assumes "v2_parallel_step R limit tasks workers l s s'" and "v2_known R A s"
  shows "v2_known R (A \<union> pk_source ` set (v2_received l)) s'"
  using assms(1)
proof (cases rule: v2_parallel_step.cases)
  case (serve t E)
  have "v2_known R A s'" unfolding serve(2) by (rule v2_known_serve [OF assms(2)])
  then show ?thesis by (simp only: serve(1) v2_received.simps list.set image_empty Un_empty_right)
next
  case (packet w k)
  with assms(2) show ?thesis unfolding v2_known_def by auto
next
  case (relay w E)
  have "v2_known R A s'" unfolding relay(2) by (rule v2_known_relay [OF assms(2)])
  then show ?thesis by (simp only: relay(1) v2_received.simps list.set image_empty Un_empty_right)
next
  case (expire i a now)
  with assms(2) show ?thesis by (simp add: v2_known_def refs_ok_drop)
qed (use assms(2) in \<open>simp_all add: v2_known_def\<close>)

interpretation v2_relay: relaying "v2_parallel_step R limit tasks workers"
    "\<lambda>l. image_mset pk_packet (mset (v2_received l))" "\<lambda>l. pk_source ` set (v2_received l)"
    "\<lambda>s. payloads (vs_sent s)" "v2_pending workers" "v2_known R" for R limit tasks workers
  by unfold_locales (rule v2_relays_step, assumption, rule v2_known_step)

text \<open>
  The same for version 2: whatever its requests, packets and heartbeat do in whatever order, the
  packets that the version 2 tunnel has sent on are among the data packets it has received, each at
  most once, and every one went to an address from which a data packet had come.
\<close>

theorem v2_parallel_only_relays:
  assumes "endpoint_laws R" and "v2_parallel_path R limit tasks workers ls v2_parallel_start s"
  defines "jobs \<equiv> concat (map v2_received ls)"
  shows "mset (map snd (vs_sent s)) \<subseteq># mset (map pk_packet jobs) \<and>
    fst ` set (vs_sent s) \<subseteq> pk_source ` set jobs"
proof -
  have "payloads (vs_sent s) \<subseteq># (\<Sum>l \<leftarrow> ls. image_mset pk_packet (mset (v2_received l)))"
    by (rule v2_relay.path_sends_received [OF assms(2)]) (simp_all add: v2_pending_def v2_parallel_start_def)
  moreover have "v2_known R {} v2_parallel_start"
    using assms(1) by (simp add: v2_known_def v2_parallel_start_def)
  from v2_relay.path_known [OF assms(2) this]
  have "fst ` set (vs_sent s) \<subseteq> (\<Union>l \<in> set ls. pk_source ` set (v2_received l))"
    unfolding v2_known_def by simp
  ultimately show ?thesis by (simp add: sum_list_received payloads_def jobs_def image_UN)
qed

theorem v2_parallel_only_relays_witness:
  "\<exists>ls s. v2_parallel_path sample_core 2 2 1 ls (v2_parallel_start :: sample_client v2_shared) s \<and>
    vs_packets s 0 = Find_Sender sample_packet \<and>
    mset (map snd (vs_sent s)) \<subseteq># mset (map pk_packet (concat (map v2_received ls)))"
proof -
  have "v2_parallel_step sample_core 2 2 1 (Packet 0 sample_packet) (v2_parallel_start :: sample_client v2_shared)
      (pk_goto 0 (Find_Sender sample_packet) v2_parallel_start)"
    by (rule v2_parallel_step.packet) simp_all
  then have run: "v2_parallel_path sample_core 2 2 1 [Packet 0 sample_packet]
      (v2_parallel_start :: sample_client v2_shared) (pk_goto 0 (Find_Sender sample_packet) v2_parallel_start)"
    by (rule labelled_path_single)
  from v2_parallel_only_relays [OF sample_endpoint_laws run] run show ?thesis
    by (intro exI [of _ "[Packet 0 sample_packet]"]
        exI [of _ "pk_goto 0 (Find_Sender sample_packet) v2_parallel_start"]) simp
qed

end
