(* ===== verification/Scrape_Race.thy ===== *)
theory Scrape_Race
  imports Metrics Interleaving
begin

text \<open>
  The scrape of the metrics at the grain of its atomic operations. \<open>update_prometheus\<close> runs for each
  request to \<open>/metrics\<close>, the requests run on different threads, and the packet workers go on counting:
  every load, every swap and every call on a Prometheus object is a step of its own. Alone a scrape
  is \<open>update_prometheus\<close>; together scrapes lose no count, but they can count twice.
\<close>

section \<open>The program of a scrape\<close>

text \<open>The operations of \<open>update_prometheus\<close> in the order of the code.\<close>

datatype scrape_op =
    Load prom_counter
  | Load_Gauge prom_gauge
  | Swap prom_counter
  | Inc prom_counter
  | Set_To prom_gauge

definition scrape_loads :: "scrape_op list" where
  "scrape_loads =
     [Load PromV3PacketsReceived, Load PromV3PacketsSent, Load PromV3BytesReceived, Load PromV3BytesSent,
      Load_Gauge PromV3ActiveClients, Load PromV2PacketsReceived, Load PromV2PacketsSent,
      Load_Gauge PromV2ActiveClients, Load PromV2HttpRequests, Load PromRateLimitHits,
      Load PromDroppedPackets, Load PromDroppedConnections]"

definition scrape_swaps :: "scrape_op list" where
  "scrape_swaps =
     [Swap PromV3PacketsReceived, Swap PromV3PacketsSent, Swap PromV3BytesReceived, Swap PromV3BytesSent,
      Swap PromV2PacketsReceived, Swap PromV2PacketsSent, Swap PromV2HttpRequests, Swap PromRateLimitHits,
      Swap PromDroppedPackets, Swap PromDroppedConnections]"

definition scrape_calls :: "scrape_op list" where
  "scrape_calls =
     [Inc PromV3PacketsReceived, Inc PromV3PacketsSent, Inc PromV3BytesReceived, Inc PromV3BytesSent,
      Set_To PromV3ActiveClients, Inc PromV2PacketsReceived, Inc PromV2PacketsSent,
      Set_To PromV2ActiveClients, Inc PromV2HttpRequests, Inc PromRateLimitHits,
      Inc PromDroppedPackets, Inc PromDroppedConnections, Set_To PromUptimeSeconds]"

definition scrape_program :: "scrape_op list" where
  "scrape_program = scrape_loads @ scrape_swaps @ scrape_calls"

text \<open>The local variables of a scrape and what it still has to do.\<close>

record scraper =
  sp_ops :: "scrape_op list"
  sp_loaded :: "prom_counter \<Rightarrow> u64"
  sp_gauges :: "prom_gauge \<Rightarrow> u64"
  sp_prev :: "prom_counter \<Rightarrow> u64"

primrec set_last_of :: "prom_counter \<Rightarrow> u64 \<Rightarrow> metrics \<Rightarrow> metrics" where
  "set_last_of PromV3PacketsReceived v m = m\<lparr>last_v3_rx := v\<rparr>"
| "set_last_of PromV3PacketsSent v m = m\<lparr>last_v3_tx := v\<rparr>"
| "set_last_of PromV3BytesReceived v m = m\<lparr>last_v3_bytes_rx := v\<rparr>"
| "set_last_of PromV3BytesSent v m = m\<lparr>last_v3_bytes_tx := v\<rparr>"
| "set_last_of PromV2PacketsReceived v m = m\<lparr>last_v2_rx := v\<rparr>"
| "set_last_of PromV2PacketsSent v m = m\<lparr>last_v2_tx := v\<rparr>"
| "set_last_of PromV2HttpRequests v m = m\<lparr>last_v2_http := v\<rparr>"
| "set_last_of PromRateLimitHits v m = m\<lparr>last_rate_limits := v\<rparr>"
| "set_last_of PromDroppedPackets v m = m\<lparr>last_dropped_pkts := v\<rparr>"
| "set_last_of PromDroppedConnections v m = m\<lparr>last_dropped_conns := v\<rparr>"

primrec gauge_of :: "prom_gauge \<Rightarrow> metrics \<Rightarrow> u64" where
  "gauge_of PromV3ActiveClients m = of_nat (v3_active_clients m)"
| "gauge_of PromV2ActiveClients m = of_nat (v2_active_clients m)"
| "gauge_of PromUptimeSeconds m = 0"

lemma last_of_set [simp]: "last_of d (set_last_of c v m) = (if d = c then v else last_of d m)"
  by (cases c; cases d) simp_all

lemma current_of_set [simp]: "current_of d (set_last_of c v m) = current_of d m"
  by (cases c; cases d) simp_all

text \<open>One operation: the local variables, the metrics, and the call on a Prometheus object, if any.\<close>

fun perform :: "u64 \<Rightarrow> scrape_op \<Rightarrow> scraper \<Rightarrow> metrics \<Rightarrow> scraper \<times> metrics \<times> prom_call list" where
  "perform uptime (Load c) p m = (p\<lparr>sp_loaded := (sp_loaded p)(c := current_of c m)\<rparr>, m, [])"
| "perform uptime (Load_Gauge g) p m = (p\<lparr>sp_gauges := (sp_gauges p)(g := gauge_of g m)\<rparr>, m, [])"
| "perform uptime (Swap c) p m =
     (p\<lparr>sp_prev := (sp_prev p)(c := last_of c m)\<rparr>, set_last_of c (sp_loaded p c) m, [])"
| "perform uptime (Inc c) p m = (p, m, [Inc_by c (saturating_sub (sp_loaded p c) (sp_prev p c))])"
| "perform uptime (Set_To g) p m =
     (p, m, [Set_gauge g (if g = PromUptimeSeconds then uptime else sp_gauges p g)])"

fun perform_all :: "u64 \<Rightarrow> scrape_op list \<Rightarrow> scraper \<Rightarrow> metrics \<Rightarrow> scraper \<times> metrics \<times> prom_call list" where
  "perform_all uptime [] p m = (p, m, [])"
| "perform_all uptime (op # ops) p m =
     (let (p, m, cs) = perform uptime op p m; (p, m, ds) = perform_all uptime ops p m in (p, m, cs @ ds))"

text \<open>Alone, the operations are \<open>update_prometheus\<close>.\<close>

lemma perform_all_append:
  "perform_all uptime (ops @ ops') p m =
     (let (p, m, cs) = perform_all uptime ops p m; (p, m, ds) = perform_all uptime ops' p m in (p, m, cs @ ds))"
  by (induction ops arbitrary: p m) (simp_all add: Let_def split: prod.splits)

lemma perform_program:
  "snd (perform_all uptime scrape_program p m) = (snd (update_prometheus uptime m), fst (update_prometheus uptime m))"
  by (simp add: scrape_program_def scrape_loads_def scrape_swaps_def scrape_calls_def update_prometheus_def Let_def)

section \<open>Interleaved scrapes\<close>

record scrape_shared =
  ss_metrics :: metrics
  ss_calls :: "prom_call list"
  ss_scrapers :: "nat \<Rightarrow> scraper"

definition scrape_goto :: "nat \<Rightarrow> scrape_op list \<Rightarrow> scraper \<Rightarrow> scrape_shared \<Rightarrow> scrape_shared" where
  "scrape_goto n ops p s = s\<lparr>ss_scrapers := (ss_scrapers s)(n := p\<lparr>sp_ops := ops\<rparr>)\<rparr>"

definition scrape_work :: "u64 \<Rightarrow> nat \<Rightarrow> scrape_shared \<Rightarrow> scrape_shared" where
  "scrape_work uptime n s =
     (case sp_ops (ss_scrapers s n) of
        [] \<Rightarrow> s
      | op # ops \<Rightarrow>
          (let (p, m, cs) = perform uptime op (ss_scrapers s n) (ss_metrics s)
           in scrape_goto n ops p (s\<lparr>ss_metrics := m, ss_calls := ss_calls s @ cs\<rparr>)))"

datatype scrape_label = Begin nat | Scrape nat | Count

text \<open>
  A request to \<open>/metrics\<close> begins a scrape, a scrape takes a step, and the rest of the server counts:
  its counters do not go down (they have 64 bits) and the cells of the scrapes are not its business.
\<close>

inductive scrape_step :: "nat \<Rightarrow> scrape_label \<Rightarrow> scrape_shared \<Rightarrow> scrape_shared \<Rightarrow> bool" for scrapers where
  begins:
    "n < scrapers \<Longrightarrow> sp_ops (ss_scrapers s n) = [] \<Longrightarrow>
     scrape_step scrapers (Begin n) s (scrape_goto n scrape_program (ss_scrapers s n) s)"
| works:
    "n < scrapers \<Longrightarrow> sp_ops (ss_scrapers s n) \<noteq> [] \<Longrightarrow>
     scrape_step scrapers (Scrape n) s (scrape_work uptime n s)"
| counts:
    "\<forall>c. last_of c m = last_of c (ss_metrics s) \<Longrightarrow> \<forall>c. current_of c (ss_metrics s) \<le> current_of c m \<Longrightarrow>
     scrape_step scrapers Count s (s\<lparr>ss_metrics := m\<rparr>)"

definition no_scraper :: scraper where
  "no_scraper = \<lparr>sp_ops = [], sp_loaded = (\<lambda>_. 0), sp_gauges = (\<lambda>_. 0), sp_prev = (\<lambda>_. 0)\<rparr>"

definition scrape_start :: scrape_shared where
  "scrape_start = \<lparr>ss_metrics = metrics_new, ss_calls = [], ss_scrapers = (\<lambda>_. no_scraper)\<rparr>"

lemma scrape_goto_simps [simp]:
  "ss_metrics (scrape_goto n ops p s) = ss_metrics s" "ss_calls (scrape_goto n ops p s) = ss_calls s"
  "ss_scrapers (scrape_goto n ops p s) = (ss_scrapers s)(n := p\<lparr>sp_ops := ops\<rparr>)"
  by (simp_all add: scrape_goto_def)

section \<open>No count is lost\<close>

text \<open>
  The order of the operations on a counter: it is loaded before it is swapped, and swapped before the
  difference is added, each once.
\<close>

fun in_order :: "scrape_op list \<Rightarrow> bool" where
  "in_order [] = True"
| "in_order (Load c # ops) = (Swap c \<in> set ops \<and> in_order ops)"
| "in_order (Swap c # ops) = (Swap c \<notin> set ops \<and> Inc c \<in> set ops \<and> in_order ops)"
| "in_order (Inc c # ops) = (Swap c \<notin> set ops \<and> Inc c \<notin> set ops \<and> in_order ops)"
| "in_order (Load_Gauge g # ops) = in_order ops"
| "in_order (Set_To g # ops) = in_order ops"

lemma in_order_program: "in_order scrape_program"
  by (simp add: scrape_program_def scrape_loads_def scrape_swaps_def scrape_calls_def)

lemma program_swaps: "Swap c \<in> set scrape_program"
  by (cases c) (simp_all add: scrape_program_def scrape_loads_def scrape_swaps_def scrape_calls_def)

text \<open>What a scrape has taken from the cell of a counter and not yet added.\<close>

definition owed :: "prom_counter \<Rightarrow> scraper \<Rightarrow> nat" where
  "owed c p = (if Swap c \<notin> set (sp_ops p) \<and> Inc c \<in> set (sp_ops p)
     then unat (sp_loaded p c) - unat (sp_prev p c) else 0)"

lemma owed_idle [simp]: "sp_ops p = [] \<Longrightarrow> owed c p = 0"
  by (simp add: owed_def)

lemma owed_begin [simp]: "owed c (p\<lparr>sp_ops := scrape_program\<rparr>) = 0"
  by (simp add: owed_def program_swaps)

lemma owed_perform:
  assumes "sp_ops p = op # ops" and "in_order (op # ops)" and "perform uptime op p m = (p', m', cs)"
    and "unat (last_of c m) \<le> added + owed c p + others"
  shows "unat (last_of c m') \<le> added + inc_total c cs + owed c (p'\<lparr>sp_ops := ops\<rparr>) + others"
  using assms by (cases op) (auto simp: owed_def unat_saturating_sub split: if_splits)

definition all_owed :: "nat \<Rightarrow> prom_counter \<Rightarrow> scrape_shared \<Rightarrow> nat" where
  "all_owed scrapers c s = (\<Sum>n \<in> {..<scrapers}. owed c (ss_scrapers s n))"

lemma all_owed_split:
  "n < scrapers \<Longrightarrow> all_owed scrapers c s =
     owed c (ss_scrapers s n) + (\<Sum>k \<in> {..<scrapers} - {n}. owed c (ss_scrapers s k))"
  by (simp add: all_owed_def sum.remove [of "{..<scrapers}" n])

definition covered :: "nat \<Rightarrow> prom_counter \<Rightarrow> scrape_shared \<Rightarrow> bool" where
  "covered scrapers c s \<longleftrightarrow> (\<forall>n. in_order (sp_ops (ss_scrapers s n))) \<and>
     unat (last_of c (ss_metrics s)) \<le> inc_total c (ss_calls s) + all_owed scrapers c s"

lemma covered_step:
  assumes "scrape_step scrapers l s s'" and "covered scrapers c s"
  shows "covered scrapers c s'"
  using assms(1)
proof (cases rule: scrape_step.cases)
  case (begins n)
  have "(\<Sum>k \<in> {..<scrapers} - {n}. owed c (ss_scrapers s' k)) = (\<Sum>k \<in> {..<scrapers} - {n}. owed c (ss_scrapers s k))"
    using begins by (intro sum.cong) auto
  with begins assms(2) in_order_program show ?thesis
    by (auto simp: covered_def all_owed_split [of n])
next
  case (works n uptime)
  then obtain op ops where ops: "sp_ops (ss_scrapers s n) = op # ops" by (meson neq_Nil_conv)
  obtain p m cs where perf: "perform uptime op (ss_scrapers s n) (ss_metrics s) = (p, m, cs)"
    by (metis prod_cases3)
  have s': "s' = scrape_goto n ops p (s\<lparr>ss_metrics := m, ss_calls := ss_calls s @ cs\<rparr>)"
    using works by (simp add: scrape_work_def ops perf)
  have ord: "in_order (op # ops)" using assms(2) ops by (metis covered_def)
  then have "in_order ops" by (cases op) auto
  then have "\<forall>k. in_order (sp_ops (ss_scrapers s' k))" using assms(2) by (simp add: s' covered_def)
  moreover have rest: "(\<Sum>k \<in> {..<scrapers} - {n}. owed c (ss_scrapers s' k)) = (\<Sum>k \<in> {..<scrapers} - {n}. owed c (ss_scrapers s k))"
    by (intro sum.cong) (auto simp: s')
  moreover have "unat (last_of c (ss_metrics s)) \<le> inc_total c (ss_calls s) + owed c (ss_scrapers s n) +
      (\<Sum>k \<in> {..<scrapers} - {n}. owed c (ss_scrapers s k))"
    using assms(2) works by (simp add: covered_def all_owed_split [of n] add.assoc)
  from owed_perform [OF ops ord perf this]
  have "unat (last_of c m) \<le> inc_total c (ss_calls s) + inc_total c cs + owed c (p\<lparr>sp_ops := ops\<rparr>) +
      (\<Sum>k \<in> {..<scrapers} - {n}. owed c (ss_scrapers s k))" .
  ultimately show ?thesis
    unfolding covered_def all_owed_split [OF \<open>n < scrapers\<close>] rest
    by (simp add: s' inc_total_append add.assoc)
next
  case (counts m)
  with assms(2) show ?thesis by (simp add: covered_def all_owed_def)
qed

text \<open>
  C38: Overlapping scrapes lose no count. However the steps of any number of scrapes and the counting
  of the server interleave, what has been added to a Prometheus counter, with what the scrapes under
  way still have to add, is at least the value the last swap left in the cell of the counter; when no
  scrape is under way, the Prometheus counter is at least that value.
\<close>

theorem scrapes_lose_nothing:
  assumes "labelled_path (scrape_step scrapers) ls scrape_start s"
  shows "unat (last_of c (ss_metrics s)) \<le> inc_total c (ss_calls s) + all_owed scrapers c s \<and>
    ((\<forall>n < scrapers. sp_ops (ss_scrapers s n) = []) \<longrightarrow> unat (last_of c (ss_metrics s)) \<le> inc_total c (ss_calls s))"
proof -
  have "covered scrapers c scrape_start"
    by (simp add: covered_def scrape_start_def no_scraper_def)
  from labelled_path_invariant [where I = "covered scrapers c", OF assms this] covered_step
  have "covered scrapers c s" by blast
  then show ?thesis by (auto simp: covered_def all_owed_def)
qed

section \<open>Counts can be added twice\<close>

text \<open>The operations left are not looked at by an operation.\<close>

lemma perform_sp_ops:
  "perform uptime op (p\<lparr>sp_ops := ops\<rparr>) m = (case perform uptime op p m of (p', m', cs) \<Rightarrow> (p'\<lparr>sp_ops := ops\<rparr>, m', cs))"
  by (cases op) simp_all

lemma perform_all_sp_ops:
  "perform_all uptime os (p\<lparr>sp_ops := ops\<rparr>) m = (case perform_all uptime os p m of (p', m', cs) \<Rightarrow> (p'\<lparr>sp_ops := ops\<rparr>, m', cs))"
  by (induction os arbitrary: p m) (simp_all add: perform_sp_ops Let_def split: prod.splits)

text \<open>Given operations of one scrape, with nothing in between.\<close>

lemma scrape_run:
  assumes "n < scrapers" and "sp_ops (ss_scrapers s n) = ops @ rest"
    and "perform_all uptime ops (ss_scrapers s n) (ss_metrics s) = (p, m, cs)"
  shows "\<exists>ls. labelled_path (scrape_step scrapers) ls s
    (scrape_goto n rest p (s\<lparr>ss_metrics := m, ss_calls := ss_calls s @ cs\<rparr>))"
  using assms(2,3)
proof (induction ops arbitrary: s p m cs)
  case Nil
  then have "scrape_goto n rest p (s\<lparr>ss_metrics := m, ss_calls := ss_calls s @ cs\<rparr>) = s"
    by (auto simp: scrape_goto_def fun_upd_idem_iff)
  then show ?case by (metis labelled_path.stop)
next
  case (Cons op ops)
  obtain p1 m1 c1 where one: "perform uptime op (ss_scrapers s n) (ss_metrics s) = (p1, m1, c1)"
    by (metis prod_cases3)
  define s1 where "s1 = scrape_goto n (ops @ rest) p1 (s\<lparr>ss_metrics := m1, ss_calls := ss_calls s @ c1\<rparr>)"
  have "scrape_work uptime n s = s1" using Cons.prems(1) one by (simp add: scrape_work_def s1_def)
  then have step: "scrape_step scrapers (Scrape n) s s1"
    using scrape_step.works [OF assms(1), of s uptime] Cons.prems(1) by simp
  obtain p2 m2 c2 where rest: "perform_all uptime ops p1 m1 = (p2, m2, c2)"
    by (metis prod_cases3)
  with Cons.prems(2) one have eq: "p = p2" "m = m2" "cs = c1 @ c2" by simp_all
  have "sp_ops (ss_scrapers s1 n) = ops @ rest" by (simp add: s1_def)
  moreover have "perform_all uptime ops (ss_scrapers s1 n) (ss_metrics s1) = (p2\<lparr>sp_ops := ops @ rest\<rparr>, m2, c2)"
    by (simp add: s1_def perform_all_sp_ops rest)
  ultimately obtain ls where "labelled_path (scrape_step scrapers) ls s1
      (scrape_goto n rest (p2\<lparr>sp_ops := ops @ rest\<rparr>) (s1\<lparr>ss_metrics := m2, ss_calls := ss_calls s1 @ c2\<rparr>))"
    using Cons.IH by blast
  moreover have "scrape_goto n rest (p2\<lparr>sp_ops := ops @ rest\<rparr>) (s1\<lparr>ss_metrics := m2, ss_calls := ss_calls s1 @ c2\<rparr>) =
      scrape_goto n rest p (s\<lparr>ss_metrics := m, ss_calls := ss_calls s @ cs\<rparr>)"
    by (simp add: s1_def eq scrape_goto_def)
  ultimately show ?case using step by (metis labelled_path.go)
qed

lemma perform_loads:
  "\<exists>p'. perform_all uptime scrape_loads p m = (p', m, []) \<and> (\<forall>c. sp_loaded p' c = current_of c m)"
proof -
  obtain p' where p': "perform_all uptime scrape_loads p m = (p', m, [])"
    by (simp add: scrape_loads_def)
  moreover have "sp_loaded p' c = current_of c m" for c
    using p' by (cases c) (auto simp: scrape_loads_def)
  ultimately show ?thesis by blast
qed

lemma perform_finish:
  assumes "perform_all uptime (scrape_swaps @ scrape_calls) p m = (p', m', cs)"
  shows "last_of c m' = sp_loaded p c" and "current_of c m' = current_of c m"
    and "inc_total c cs = unat (sp_loaded p c) - unat (last_of c m)"
  using assms by (cases c; auto simp: scrape_swaps_def scrape_calls_def unat_saturating_sub)+

lemma perform_whole:
  assumes "perform_all uptime scrape_program p m = (p', m', cs)"
  shows "last_of c m' = current_of c m" and "current_of c m' = current_of c m"
    and "inc_total c cs = unat (current_of c m) - unat (last_of c m)"
  using perform_program [of uptime p m] assms update_prometheus_last [of c uptime m]
    update_prometheus_current [of c uptime m] update_prometheus_increment [of c uptime m]
  by auto

text \<open>A scrape that begins, up to a point of its program, and one from there to its end.\<close>

lemma scrape_begins:
  assumes "n < scrapers" and "sp_ops (ss_scrapers s n) = []" and "scrape_program = ops @ rest"
    and "perform_all uptime ops (ss_scrapers s n) (ss_metrics s) = (p, m, cs)"
  shows "\<exists>ls. labelled_path (scrape_step scrapers) ls s
    (scrape_goto n rest p (s\<lparr>ss_metrics := m, ss_calls := ss_calls s @ cs\<rparr>))"
proof -
  let ?s = "scrape_goto n scrape_program (ss_scrapers s n) s"
  have "perform_all uptime ops (ss_scrapers ?s n) (ss_metrics ?s) = (p\<lparr>sp_ops := scrape_program\<rparr>, m, cs)"
    by (simp add: perform_all_sp_ops assms(4))
  from scrape_run [OF assms(1) _ this, of rest] assms(3) obtain ls where
    "labelled_path (scrape_step scrapers) ls ?s
      (scrape_goto n rest (p\<lparr>sp_ops := scrape_program\<rparr>) (?s\<lparr>ss_metrics := m, ss_calls := ss_calls ?s @ cs\<rparr>))"
    by auto
  moreover have "scrape_goto n rest (p\<lparr>sp_ops := scrape_program\<rparr>) (?s\<lparr>ss_metrics := m, ss_calls := ss_calls ?s @ cs\<rparr>) =
      scrape_goto n rest p (s\<lparr>ss_metrics := m, ss_calls := ss_calls s @ cs\<rparr>)"
    by (simp add: scrape_goto_def)
  ultimately show ?thesis using scrape_step.begins [OF assms(1,2)] by (metis labelled_path.go)
qed

lemma whole_scrape:
  assumes "n < scrapers" and "sp_ops (ss_scrapers s n) = []"
  shows "\<exists>ls s'. labelled_path (scrape_step scrapers) ls s s' \<and> sp_ops (ss_scrapers s' n) = [] \<and>
    (\<forall>k. k \<noteq> n \<longrightarrow> ss_scrapers s' k = ss_scrapers s k) \<and>
    (\<forall>c. last_of c (ss_metrics s') = current_of c (ss_metrics s) \<and>
      current_of c (ss_metrics s') = current_of c (ss_metrics s) \<and>
      inc_total c (ss_calls s') = inc_total c (ss_calls s) +
        (unat (current_of c (ss_metrics s)) - unat (last_of c (ss_metrics s))))"
proof -
  obtain p m cs where perf: "perform_all 0 scrape_program (ss_scrapers s n) (ss_metrics s) = (p, m, cs)"
    by (metis prod_cases3)
  from scrape_begins [OF assms _ perf, of "[]"] obtain ls where
    "labelled_path (scrape_step scrapers) ls s (scrape_goto n [] p (s\<lparr>ss_metrics := m, ss_calls := ss_calls s @ cs\<rparr>))"
    by auto
  with perform_whole [OF perf] show ?thesis
    by (intro exI [of _ ls] exI [of _ "scrape_goto n [] p (s\<lparr>ss_metrics := m, ss_calls := ss_calls s @ cs\<rparr>)"])
       (simp add: inc_total_append)
qed

text \<open>A scrape that loads before the server counts and swaps after another scrape has run.\<close>

lemma stale_scrape:
  assumes "2 \<le> scrapers" and "\<forall>c. last_of c m = 0"
  shows "\<exists>ls s. labelled_path (scrape_step scrapers) ls scrape_start s \<and> (\<forall>n. sp_ops (ss_scrapers s n) = []) \<and>
    (\<forall>c. last_of c (ss_metrics s) = 0 \<and> current_of c (ss_metrics s) = current_of c m \<and>
      inc_total c (ss_calls s) = unat (current_of c m))"
proof -
  let ?path = "labelled_path (scrape_step scrapers)"
  have scrapers: "0 < scrapers" "1 < scrapers" using assms(1) by simp_all
  have start: "sp_ops (ss_scrapers scrape_start n) = []" "ss_calls scrape_start = []" "current_of c (ss_metrics scrape_start) = 0"
    "last_of c (ss_metrics scrape_start) = 0" for n c
    by (cases c; simp add: scrape_start_def no_scraper_def metrics_new_def)+
  obtain p where p: "perform_all 0 scrape_loads (ss_scrapers scrape_start 0) (ss_metrics scrape_start) =
      (p, ss_metrics scrape_start, [])" "\<forall>c. sp_loaded p c = 0"
    using perform_loads [of 0 "ss_scrapers scrape_start 0" "ss_metrics scrape_start"] start by auto
  define s1 where "s1 = scrape_goto 0 (scrape_swaps @ scrape_calls) p scrape_start"
  have "\<exists>ls. ?path ls scrape_start s1"
    using scrape_begins [OF scrapers(1) start(1) _ p(1), of "scrape_swaps @ scrape_calls"]
    by (simp add: s1_def scrape_program_def)
  moreover define s2 where "s2 = s1\<lparr>ss_metrics := m\<rparr>"
  have "scrape_step scrapers Count s1 s2"
    unfolding s2_def by (rule scrape_step.counts) (simp_all add: s1_def start assms(2))
  then have "\<exists>ls. ?path ls s1 s2" using labelled_path_single by metis
  moreover obtain s3 where s3: "\<exists>ls. ?path ls s2 s3" "sp_ops (ss_scrapers s3 1) = []"
    "\<forall>k. k \<noteq> 1 \<longrightarrow> ss_scrapers s3 k = ss_scrapers s2 k"
    "\<forall>c. last_of c (ss_metrics s3) = current_of c m \<and> current_of c (ss_metrics s3) = current_of c m \<and>
      inc_total c (ss_calls s3) = unat (current_of c m)"
    using whole_scrape [OF scrapers(2), of s2] by (auto simp: s2_def s1_def start assms(2))
  obtain p4 m4 cs where perf: "perform_all 0 (scrape_swaps @ scrape_calls) (ss_scrapers s3 0) (ss_metrics s3) = (p4, m4, cs)"
    by (metis prod_cases3)
  define s4 where "s4 = scrape_goto 0 [] p4 (s3\<lparr>ss_metrics := m4, ss_calls := ss_calls s3 @ cs\<rparr>)"
  have at3: "ss_scrapers s3 0 = p\<lparr>sp_ops := scrape_swaps @ scrape_calls\<rparr>"
    using s3(3) by (simp add: s2_def s1_def)
  have "\<exists>ls. ?path ls s3 s4"
    unfolding s4_def using scrape_run [OF scrapers(1) _ perf, of "[]"] at3 by simp
  moreover have s4: "last_of c (ss_metrics s4) = 0" "current_of c (ss_metrics s4) = current_of c m"
    "inc_total c (ss_calls s4) = unat (current_of c m)" for c
    using perform_finish [OF perf, of c] s3(4) p(2) at3 by (simp_all add: s4_def inc_total_append)
  have idle: "sp_ops (ss_scrapers s4 n) = []" for n
    using s3(2,3) start by (cases "n = 1") (simp_all add: s4_def s2_def s1_def)
  moreover note s3(1)
  ultimately have "\<exists>ls. ?path ls scrape_start s4" by (meson labelled_path_append)
  with idle s4 show ?thesis by blast
qed

text \<open>
  C39: Overlapping scrapes can count twice. Let one scrape load the counters of a fresh server, the
  server then count to any values, a second scrape run in between, and the first one end: the first
  puts the old values back into the cells, so the next scrape adds everything again, and every
  Prometheus counter shows twice what the server has counted.
\<close>

theorem scrape_race_counts_twice:
  assumes "2 \<le> scrapers" and "\<forall>c. last_of c m = 0"
  shows "\<exists>ls s. labelled_path (scrape_step scrapers) ls scrape_start s \<and>
    (\<forall>n. sp_ops (ss_scrapers s n) = []) \<and>
    (\<forall>c. current_of c (ss_metrics s) = current_of c m \<and> inc_total c (ss_calls s) = 2 * unat (current_of c m))"
proof -
  from stale_scrape [OF assms] obtain ls s4 where run: "labelled_path (scrape_step scrapers) ls scrape_start s4"
    and idle: "\<forall>n. sp_ops (ss_scrapers s4 n) = []"
    and s4: "\<forall>c. last_of c (ss_metrics s4) = 0 \<and> current_of c (ss_metrics s4) = current_of c m \<and>
      inc_total c (ss_calls s4) = unat (current_of c m)" by blast
  have "0 < scrapers" "sp_ops (ss_scrapers s4 0) = []" using assms(1) idle by simp_all
  from whole_scrape [OF this] obtain ls' s5 where s5: "labelled_path (scrape_step scrapers) ls' s4 s5"
    "sp_ops (ss_scrapers s5 0) = []" "\<forall>k. k \<noteq> 0 \<longrightarrow> ss_scrapers s5 k = ss_scrapers s4 k"
    "\<forall>c. last_of c (ss_metrics s5) = current_of c (ss_metrics s4) \<and>
      current_of c (ss_metrics s5) = current_of c (ss_metrics s4) \<and>
      inc_total c (ss_calls s5) = inc_total c (ss_calls s4) +
        (unat (current_of c (ss_metrics s4)) - unat (last_of c (ss_metrics s4)))" by blast
  have "sp_ops (ss_scrapers s5 n) = []" for n
    using s5(2,3) idle by (cases "n = 0") simp_all
  moreover have "current_of c (ss_metrics s5) = current_of c m \<and> inc_total c (ss_calls s5) = 2 * unat (current_of c m)" for c
    using s5(4) s4 by simp
  ultimately show ?thesis using labelled_path_append [OF run s5(1)] by blast
qed

theorem scrape_race_counts_twice_witness:
  "\<exists>ls s. labelled_path (scrape_step 2) ls scrape_start s \<and>
    v3_packets_sent (ss_metrics s) = 9 \<and> inc_total PromV3PacketsSent (ss_calls s) = 18"
proof -
  have zero: "\<forall>c. last_of c (metrics_new\<lparr>v3_packets_sent := 9\<rparr>) = 0"
  proof
    fix c show "last_of c (metrics_new\<lparr>v3_packets_sent := 9\<rparr>) = 0"
      by (cases c) (simp_all add: metrics_new_def)
  qed
  from scrape_race_counts_twice [OF order_refl this] obtain ls s where
    run: "labelled_path (scrape_step 2) ls scrape_start s" and
    all: "\<forall>c. current_of c (ss_metrics s) = current_of c (metrics_new\<lparr>v3_packets_sent := 9\<rparr>) \<and>
      inc_total c (ss_calls s) = 2 * unat (current_of c (metrics_new\<lparr>v3_packets_sent := 9\<rparr>))" by blast
  from all [rule_format, of PromV3PacketsSent] run show ?thesis
    by (intro exI [of _ ls] exI [of _ s]) simp
qed

theorem scrapes_lose_nothing_witness:
  "\<exists>s. labelled_path (scrape_step 2) [Begin 1] scrape_start s \<and> sp_ops (ss_scrapers s 1) = scrape_program \<and>
    unat (last_of PromV3PacketsSent (ss_metrics s)) \<le>
      inc_total PromV3PacketsSent (ss_calls s) + all_owed 2 PromV3PacketsSent s"
proof -
  let ?s = "scrape_goto 1 scrape_program (ss_scrapers scrape_start 1) scrape_start"
  have "scrape_step 2 (Begin 1) scrape_start ?s"
    by (rule scrape_step.begins) (simp_all add: scrape_start_def no_scraper_def)
  then have run: "labelled_path (scrape_step 2) [Begin 1] scrape_start ?s" by (rule labelled_path_single)
  from scrapes_lose_nothing [OF run, of PromV3PacketsSent] run show ?thesis
    by (intro exI [of _ ?s]) simp
qed

end
