(* ===== verification/Locking.thy ===== *)
theory Locking
  imports Parallel_V3
begin

text \<open>
  The locks under the shared maps. A \<open>DashMap\<close> is an array of shards, each behind a reader-writer
  lock; a reference into the map is a guard on the shard of its key, and an operation of the map
  waits for the guards of others, and for ever on one of its own thread. The atomic steps of the
  parallel models stand for such operations. Here the handlers are what they do to the locks: which
  shard they lock, in which mode, when they let go of it, and where they await. From the order in
  which they take the locks it follows that no handler waits for ever. The locks inside the limiters
  and the metrics are released before their functions return, so they are left out.
\<close>

section \<open>Threads and locks\<close>

datatype lock_mode = Shared | Exclusive

datatype 'l lock_action = Acquire lock_mode 'l | Release 'l | Await

text \<open>What each thread still has to do, and the locks it holds.\<close>

record 'l lock_state =
  todo :: "nat \<Rightarrow> 'l lock_action list"
  held_locks :: "nat \<Rightarrow> (lock_mode \<times> 'l) list"

definition lock_start :: "'l lock_state" where
  "lock_start = \<lparr>todo = (\<lambda>_. []), held_locks = (\<lambda>_. [])\<rparr>"

fun perform_lock :: "'l lock_action \<Rightarrow> (lock_mode \<times> 'l) list \<Rightarrow> (lock_mode \<times> 'l) list" where
  "perform_lock (Acquire m l) h = (m, l) # h"
| "perform_lock (Release l) h = filter (\<lambda>x. snd x \<noteq> l) h"
| "perform_lock Await h = h"

text \<open>
  A thread that asks for a lock can have it when no thread, itself included, holds it in a mode that
  excludes the one it asks for. An await is one of the network, which is taken to complete.
\<close>

definition grantable :: "nat \<Rightarrow> 'l lock_state \<Rightarrow> nat \<Rightarrow> bool" where
  "grantable n s w \<longleftrightarrow>
     (case todo s w of
        [] \<Rightarrow> False
      | Acquire m l # p \<Rightarrow>
          \<forall>v < n. \<forall>(m', l') \<in> set (held_locks s v). l' = l \<longrightarrow> m = Shared \<and> m' = Shared
      | a # p \<Rightarrow> True)"

text \<open>
  A lock may put its writers first: then a reader also waits while another thread waits to write.
  The steps allow every policy; \<open>can_go\<close> is what even this one allows.
\<close>

definition can_go :: "nat \<Rightarrow> 'l lock_state \<Rightarrow> nat \<Rightarrow> bool" where
  "can_go n s w \<longleftrightarrow>
     grantable n s w \<and>
     (\<forall>l p. todo s w = Acquire Shared l # p \<longrightarrow> (\<forall>v < n. \<forall>q. todo s v \<noteq> Acquire Exclusive l # q))"

datatype 'j lock_label = Begin nat 'j | Go nat

inductive lock_step ::
    "('j \<Rightarrow> 'l lock_action list) \<Rightarrow> nat \<Rightarrow> 'j lock_label \<Rightarrow> 'l lock_state \<Rightarrow> 'l lock_state \<Rightarrow> bool"
  for locks n where
  begins:
    "w < n \<Longrightarrow> todo s w = [] \<Longrightarrow>
     lock_step locks n (Begin w j) s (s\<lparr>todo := (todo s)(w := locks j)\<rparr>)"
| goes:
    "w < n \<Longrightarrow> grantable n s w \<Longrightarrow> todo s w = a # p \<Longrightarrow>
     lock_step locks n (Go w) s
       (s\<lparr>todo := (todo s)(w := p), held_locks := (held_locks s)(w := perform_lock a (held_locks s w))\<rparr>)"

inductive_cases lock_stepE: "lock_step locks n l s s'"

section \<open>The order of the locks\<close>

text \<open>
  A program is orderly, from the locks it holds, when it only asks for locks of a higher rank than
  all it holds, releases what it holds, holds nothing at an await, and ends holding nothing.
\<close>

fun orderly :: "('l \<Rightarrow> nat) \<Rightarrow> 'l list \<Rightarrow> 'l lock_action list \<Rightarrow> bool" where
  "orderly rank h [] = (h = [])"
| "orderly rank h (Acquire m l # p) = (list_all (\<lambda>l'. rank l' < rank l) h \<and> orderly rank (l # h) p)"
| "orderly rank h (Release l # p) = (l \<in> set h \<and> orderly rank (filter (\<lambda>l'. l' \<noteq> l) h) p)"
| "orderly rank h (Await # p) = (h = [] \<and> orderly rank h p)"

lemma orderly_append: "orderly rank h p \<Longrightarrow> orderly rank [] q \<Longrightarrow> orderly rank h (p @ q)"
  by (induction rank h p rule: orderly.induct) auto

lemma orderly_concat: "list_all (orderly rank []) ps \<Longrightarrow> orderly rank [] (concat ps)"
  by (induction ps) (auto intro: orderly_append)

definition all_orderly :: "('l \<Rightarrow> nat) \<Rightarrow> nat \<Rightarrow> 'l lock_state \<Rightarrow> bool" where
  "all_orderly rank n s \<longleftrightarrow> (\<forall>w < n. orderly rank (map snd (held_locks s w)) (todo s w))"

lemma held_after: "map snd (perform_lock a h) =
    (case a of Acquire m l \<Rightarrow> l # map snd h | Release l \<Rightarrow> filter (\<lambda>l'. l' \<noteq> l) (map snd h) | Await \<Rightarrow> map snd h)"
  by (cases a) (simp_all add: filter_map comp_def)

lemma orderly_perform: "orderly rank (map snd h) (a # p) \<Longrightarrow> orderly rank (map snd (perform_lock a h)) p"
  by (cases a) (auto simp: held_after simp del: perform_lock.simps)

lemma orderly_busy: "orderly rank h p \<Longrightarrow> h \<noteq> [] \<Longrightarrow> p \<noteq> []"
  by (cases p) auto

text \<open>If nobody holds the lock a thread asks for, it or a writer that waits for the same lock goes on.\<close>

lemma free_lock_granted:
  assumes "w < n" and "todo s w = Acquire m l # p" and "\<forall>v < n. l \<notin> snd ` set (held_locks s v)"
  shows "\<exists>v < n. can_go n s v"
proof (cases "\<exists>v < n. \<exists>q. todo s v = Acquire Exclusive l # q")
  case True
  then obtain v q where v: "v < n" "todo s v = Acquire Exclusive l # q" by blast
  with assms(3) have "grantable n s v" by (force simp: grantable_def)
  with v show ?thesis by (auto simp: can_go_def)
next
  case False
  from assms(2,3) have "grantable n s w" by (force simp: grantable_def)
  with False assms(1,2) show ?thesis by (auto simp: can_go_def)
qed

text \<open>The thread that holds the highest lock asks for one that nobody holds.\<close>

lemma orderly_progress:
  assumes ok: "all_orderly rank n s" and busy: "w < n" "todo s w \<noteq> []"
  shows "\<exists>v < n. can_go n s v"
proof (rule ccontr)
  assume stuck: "\<not> (\<exists>v < n. can_go n s v)"
  have asks: "\<exists>m l p. todo s v = Acquire m l # p" if "v < n" "todo s v \<noteq> []" for v
  proof (cases "todo s v")
    case (Cons a p)
    from stuck that(1) have "\<not> can_go n s v" by blast
    with Cons show ?thesis by (cases a) (auto simp: can_go_def grantable_def)
  qed (use that in simp)
  have held: "\<exists>v < n. l \<in> snd ` set (held_locks s v)" if "v < n" "todo s v = Acquire m l # p" for v m l p
    using free_lock_granted [OF that] stuck by blast
  let ?R = "\<Union>v \<in> {..<n}. rank ` snd ` set (held_locks s v)"
  have fin: "finite ?R" by simp
  from asks [OF busy] obtain m l p where "todo s w = Acquire m l # p" by blast
  from held [OF busy(1) this] have "?R \<noteq> {}" by blast
  from Max_in [OF fin this] obtain v where "v \<in> {..<n}" and
    top: "Max ?R \<in> rank ` snd ` set (held_locks s v)" by (rule UN_E)
  from top obtain l where "Max ?R = rank l" "l \<in> snd ` set (held_locks s v)" by (rule imageE)
  with \<open>v \<in> {..<n}\<close> have v: "v < n" "l \<in> snd ` set (held_locks s v)" "rank l = Max ?R" by simp_all
  have ord: "orderly rank (map snd (held_locks s v)) (todo s v)" using ok v(1) by (simp add: all_orderly_def)
  with v(2) orderly_busy [OF ord] asks [OF v(1)] obtain m' l' p' where
    next_lock: "todo s v = Acquire m' l' # p'" by fastforce
  with ord v(2) have "rank l < rank l'" by (auto simp: list_all_iff)
  moreover from held [OF v(1) next_lock] have "rank l' \<in> ?R" by auto
  then have "rank l' \<le> Max ?R" by (rule Max_ge [OF fin])
  ultimately show False using v(3) by simp
qed

definition work_left :: "nat \<Rightarrow> 'l lock_state \<Rightarrow> nat" where
  "work_left n s = (\<Sum>w < n. length (todo s w))"

lemma work_left_goes: "lock_step locks n (Go w) s s' \<Longrightarrow> Suc (work_left n s') = work_left n s"
proof (erule lock_stepE)
  fix v a p assume "Go w = Go v" and v: "v < n" "todo s v = a # p" and s': "s' =
      s\<lparr>todo := (todo s)(v := p), held_locks := (held_locks s)(v := perform_lock a (held_locks s v))\<rparr>"
  have "(\<Sum>u < n. length (todo s' u)) = length p + (\<Sum>u \<in> {..<n} - {v}. length (todo s u))"
    using v(1) by (simp add: s' sum.remove [of "{..<n}" v])
  also have "Suc \<dots> = (\<Sum>u < n. length (todo s u))"
    using v by (simp add: sum.remove [of "{..<n}" v])
  finally show "Suc (work_left n s') = work_left n s" by (simp add: work_left_def)
qed simp

lemma work_left_zero: "work_left n s = 0 \<Longrightarrow> w < n \<Longrightarrow> todo s w = []"
  by (simp add: work_left_def)

section \<open>Programs that keep to an order\<close>

locale lock_order =
  fixes rank :: "'l \<Rightarrow> nat"
    and locks :: "'j \<Rightarrow> 'l lock_action list"
  assumes orderly_locks: "orderly rank [] (locks j)"
begin

lemma orderly_step:
  assumes "lock_step locks n l s s'" and "all_orderly rank n s"
  shows "all_orderly rank n s'"
  using assms(1)
proof (cases rule: lock_step.cases)
  case (begins w j)
  have "map snd (held_locks s w) = []" using assms(2) begins(3,4) by (auto simp: all_orderly_def)
  with assms(2) begins(2) orderly_locks [of j] show ?thesis by (auto simp: all_orderly_def)
next
  case (goes w a p)
  have "orderly rank (map snd (perform_lock a (held_locks s w))) p"
    by (rule orderly_perform) (use assms(2) goes(3,5) in \<open>auto simp: all_orderly_def\<close>)
  with assms(2) goes(2) show ?thesis by (auto simp: all_orderly_def)
qed

lemma orderly_path:
  assumes "labelled_path (lock_step locks n) ls s s'" and "all_orderly rank n s"
  shows "all_orderly rank n s'"
  by (rule labelled_path_invariant [where I = "all_orderly rank n", OF assms]) (rule orderly_step)

lemma orderly_reachable: "labelled_path (lock_step locks n) ls lock_start s \<Longrightarrow> all_orderly rank n s"
  by (erule orderly_path) (simp add: all_orderly_def lock_start_def)

text \<open>Whatever has been begun can be finished.\<close>

lemma can_finish:
  assumes "all_orderly rank n s"
  shows "\<exists>ls s'. labelled_path (lock_step locks n) ls s s' \<and> (\<forall>w < n. todo s' w = [] \<and> held_locks s' w = [])"
  using assms
proof (induction "work_left n s" arbitrary: s)
  case 0
  then have "todo s w = []" if "w < n" for w using work_left_zero [of n s w] that by simp
  with "0.prems" have "\<forall>w < n. todo s w = [] \<and> held_locks s w = []" by (simp add: all_orderly_def)
  then show ?case by (auto intro: exI [of _ "[]"] labelled_path.stop)
next
  case (Suc k)
  have "\<exists>w < n. todo s w \<noteq> []"
    by (rule ccontr) (use Suc.hyps(2) in \<open>simp add: work_left_def\<close>)
  then obtain w where "w < n" "todo s w \<noteq> []" by blast
  from orderly_progress [OF Suc.prems this] obtain v where v: "v < n" "grantable n s v"
    by (auto simp: can_go_def)
  then obtain a p where "todo s v = a # p" by (cases "todo s v") (auto simp: grantable_def)
  from lock_step.goes [OF v this, of locks] obtain s1 where s1: "lock_step locks n (Go v) s s1" by blast
  from work_left_goes [OF s1] Suc.hyps(2) have "k = work_left n s1" by simp
  from Suc.hyps(1) [OF this orderly_step [OF s1 Suc.prems]] s1 show ?case
    by (blast intro: labelled_path.go)
qed

lemma never_deadlock:
  assumes "labelled_path (lock_step locks n) ls lock_start s"
  shows "(\<forall>w < n. todo s w = [] \<or> (\<exists>p. todo s w = Await # p) \<longrightarrow> held_locks s w = []) \<and>
    ((\<exists>w < n. todo s w \<noteq> []) \<longrightarrow> (\<exists>w < n. can_go n s w)) \<and>
    (\<exists>ls' s'. labelled_path (lock_step locks n) ls' s s' \<and> (\<forall>w < n. todo s' w = [] \<and> held_locks s' w = []))"
proof -
  note ok = orderly_reachable [OF assms]
  then have "\<forall>w < n. todo s w = [] \<or> (\<exists>p. todo s w = Await # p) \<longrightarrow> held_locks s w = []"
    by (auto simp: all_orderly_def)
  with orderly_progress [OF ok] can_finish [OF ok] show ?thesis by blast
qed

end

section \<open>The maps and their shards\<close>

datatype relay_lock = V3_Client_Shard nat | V3_Analyzer_Shard nat | V2_Client_Shard nat

text \<open>Which shard a key is in, and how many shards the two maps of clients have.\<close>

record shard_layout =
  v3_client_shard :: "u32 \<Rightarrow> nat"
  v3_analyzer_shard :: "u32 \<Rightarrow> nat"
  v2_client_shard :: "i16 \<Rightarrow> nat"
  v3_shards :: nat
  v2_shards :: nat

text \<open>
  An operation of a map, or a reference into it that is dropped at once: \<open>get\<close> and \<open>contains_key\<close>
  read a shard, \<open>get_mut\<close>, \<open>insert\<close> and \<open>remove\<close> write it, \<open>len\<close> reads the shards one by one.
\<close>

definition read_shard :: "'l \<Rightarrow> 'l lock_action list" where
  "read_shard l = [Acquire Shared l, Release l]"

definition write_shard :: "'l \<Rightarrow> 'l lock_action list" where
  "write_shard l = [Acquire Exclusive l, Release l]"

definition len_shards :: "nat \<Rightarrow> (nat \<Rightarrow> 'l) \<Rightarrow> 'l lock_action list" where
  "len_shards k shard = concat (map (\<lambda>i. read_shard (shard i)) [0..<k])"

text \<open>
  \<open>retain\<close> writes the shards one by one; \<open>inside i\<close> is what its closure does to other locks while it
  is at shard \<open>i\<close>.
\<close>

definition retain_shards ::
    "nat \<Rightarrow> (nat \<Rightarrow> 'l) \<Rightarrow> (nat \<Rightarrow> 'l lock_action list) \<Rightarrow> 'l lock_action list" where
  "retain_shards k shard inside =
     concat (map (\<lambda>i. Acquire Exclusive (shard i) # inside i @ [Release (shard i)]) [0..<k])"

section \<open>Version 3\<close>

text \<open>
  The ways through the admission of a sender. The guard of the first lookup lives until the explicit
  \<open>drop(existing)\<close>; where the lookup finds nothing there is no guard.
\<close>

datatype v3_admission =
    Same_Endpoint | Known_Refused | Timed_Out_Admitted | Stranger_Refused | Full_Refused | Stranger_Admitted

fun v3_admission_locks :: "shard_layout \<Rightarrow> u32 \<Rightarrow> v3_admission \<Rightarrow> relay_lock lock_action list" where
  "v3_admission_locks Y sid way =
     (let client = V3_Client_Shard (v3_client_shard Y sid);
          analyzer = V3_Analyzer_Shard (v3_analyzer_shard Y sid);
          mappings_len = len_shards (v3_shards Y) V3_Client_Shard;
          existing = Acquire Shared client;
          drop_existing = Release client
      in case way of
        Same_Endpoint \<Rightarrow> [existing, drop_existing] @ write_shard analyzer
      | Known_Refused \<Rightarrow> [existing, drop_existing]
      | Timed_Out_Admitted \<Rightarrow> [existing, drop_existing] @ write_shard client @ write_shard analyzer
      | Stranger_Refused \<Rightarrow> read_shard client @ mappings_len
      | Full_Refused \<Rightarrow> read_shard client @ mappings_len
      | Stranger_Admitted \<Rightarrow>
          read_shard client @ mappings_len @ write_shard client @ write_shard analyzer @ mappings_len)"

fun v3_admitted :: "v3_admission \<Rightarrow> bool" where
  "v3_admitted way \<longleftrightarrow> way \<in> {Same_Endpoint, Timed_Out_Admitted, Stranger_Admitted}"

text \<open>The reference to the receiver ends with the closure that reads it, before the send.\<close>

datatype delivery = No_Receiver | Delivered | Lost

definition v3_delivery_locks :: "shard_layout \<Rightarrow> u32 \<Rightarrow> delivery \<Rightarrow> relay_lock lock_action list" where
  "v3_delivery_locks Y rid d =
     read_shard (V3_Client_Shard (v3_client_shard Y rid)) @
     (case d of
        No_Receiver \<Rightarrow> []
      | Delivered \<Rightarrow> [Await]
      | Lost \<Rightarrow> Await # write_shard (V3_Analyzer_Shard (v3_analyzer_shard Y rid)))"

definition v3_data_locks ::
    "shard_layout \<Rightarrow> u32 \<Rightarrow> u32 \<Rightarrow> v3_admission \<Rightarrow> delivery \<Rightarrow> relay_lock lock_action list" where
  "v3_data_locks Y sid rid way d =
     v3_admission_locks Y sid way @ (if v3_admitted way then v3_delivery_locks Y rid d else [])"

text \<open>
  The cleanup removes the analyzer of a client from inside \<open>retain\<close>, with the shard of the client
  locked. The message at its end counts the clients again, if the log level lets it through.
\<close>

definition v3_cleanup_locks :: "shard_layout \<Rightarrow> (nat \<Rightarrow> u32 list) \<Rightarrow> bool \<Rightarrow> relay_lock lock_action list" where
  "v3_cleanup_locks Y expired logged =
     retain_shards (v3_shards Y) V3_Client_Shard
       (\<lambda>i. concat (map (\<lambda>k. write_shard (V3_Analyzer_Shard (v3_analyzer_shard Y k))) (expired i)))
     @ len_shards (v3_shards Y) V3_Client_Shard
     @ (if logged then len_shards (v3_shards Y) V3_Client_Shard else [])"

definition v3_announce_locks :: "shard_layout \<Rightarrow> relay_lock lock_action list" where
  "v3_announce_locks Y = len_shards (v3_shards Y) V3_Client_Shard @ [Await]"

section \<open>Version 2\<close>

datatype v2_sender = Bound_Here | Newly_Bound | Bound_Elsewhere | Not_Allocated

fun v2_data_locks :: "shard_layout \<Rightarrow> i16 \<Rightarrow> i16 \<Rightarrow> v2_sender \<Rightarrow> bool \<Rightarrow> relay_lock lock_action list" where
  "v2_data_locks Y sid rid way sent =
     (let client = V2_Client_Shard (v2_client_shard Y sid);
          sender_entry = Acquire Shared client;
          drop_sender_entry = Release client;
          forward = read_shard (V2_Client_Shard (v2_client_shard Y rid)) @ (if sent then [Await] else [])
      in case way of
        Bound_Here \<Rightarrow> [sender_entry, drop_sender_entry] @ forward
      | Newly_Bound \<Rightarrow> [sender_entry, drop_sender_entry] @ write_shard client @ forward
      | Bound_Elsewhere \<Rightarrow> [sender_entry, drop_sender_entry]
      | Not_Allocated \<Rightarrow> read_shard client)"

text \<open>
  A request for ids: the attempts, with what the map answered to each, and whether they were enough.
\<close>

definition v2_attempt_locks :: "shard_layout \<Rightarrow> i16 \<Rightarrow> bool \<Rightarrow> relay_lock lock_action list" where
  "v2_attempt_locks Y client_id taken =
     (let shard = V2_Client_Shard (v2_client_shard Y client_id) in
      if client_id = 0 then []
      else read_shard shard @ (if taken then [] else write_shard shard))"

definition v2_request_locks ::
    "shard_layout \<Rightarrow> (i16 \<times> bool) list \<Rightarrow> bool \<Rightarrow> relay_lock lock_action list" where
  "v2_request_locks Y attempts enough =
     len_shards (v2_shards Y) V2_Client_Shard
     @ concat (map (\<lambda>(client_id, taken). v2_attempt_locks Y client_id taken) attempts)
     @ (if enough then len_shards (v2_shards Y) V2_Client_Shard
        else concat (map (\<lambda>(client_id, taken). write_shard (V2_Client_Shard (v2_client_shard Y client_id)))
               (filter (\<lambda>(client_id, taken). client_id \<noteq> 0 \<and> \<not> taken) attempts)))"

definition v2_status_locks :: "shard_layout \<Rightarrow> relay_lock lock_action list" where
  "v2_status_locks Y = len_shards (v2_shards Y) V2_Client_Shard"

definition v2_cleanup_locks :: "shard_layout \<Rightarrow> bool \<Rightarrow> relay_lock lock_action list" where
  "v2_cleanup_locks Y logged =
     retain_shards (v2_shards Y) V2_Client_Shard (\<lambda>i. [])
     @ len_shards (v2_shards Y) V2_Client_Shard
     @ (if logged then len_shards (v2_shards Y) V2_Client_Shard else [])"

definition v2_announce_locks :: "shard_layout \<Rightarrow> relay_lock lock_action list" where
  "v2_announce_locks Y = len_shards (v2_shards Y) V2_Client_Shard @ [Await]"

section \<open>All handlers\<close>

text \<open>
  What a task of the two tunnels can be about to do: a worker with a packet (an answer to a ping
  touches no map), a command that forces the cleanup, the steps of the two heartbeats, and the HTTP
  requests that look at the map.
\<close>

datatype relay_job =
    Answer_Ping
  | V3_Data u32 u32 v3_admission delivery
  | V3_Cleanup "nat \<Rightarrow> u32 list" bool
  | V3_Announce
  | V3_Log_Metrics
  | V2_Data i16 i16 v2_sender bool
  | V2_Request "(i16 \<times> bool) list" bool
  | V2_Status
  | V2_Cleanup bool
  | V2_Announce

fun job_locks :: "shard_layout \<Rightarrow> relay_job \<Rightarrow> relay_lock lock_action list" where
  "job_locks Y Answer_Ping = [Await]"
| "job_locks Y (V3_Data sid rid way d) = v3_data_locks Y sid rid way d"
| "job_locks Y (V3_Cleanup expired logged) = v3_cleanup_locks Y expired logged"
| "job_locks Y V3_Announce = v3_announce_locks Y"
| "job_locks Y V3_Log_Metrics = len_shards (v3_shards Y) V3_Client_Shard"
| "job_locks Y (V2_Data sid rid way sent) = v2_data_locks Y sid rid way sent"
| "job_locks Y (V2_Request attempts enough) = v2_request_locks Y attempts enough"
| "job_locks Y V2_Status = v2_status_locks Y"
| "job_locks Y (V2_Cleanup logged) = v2_cleanup_locks Y logged"
| "job_locks Y V2_Announce = v2_announce_locks Y"

text \<open>Clients before analyzers.\<close>

fun lock_rank :: "relay_lock \<Rightarrow> nat" where
  "lock_rank (V3_Client_Shard i) = 0"
| "lock_rank (V3_Analyzer_Shard i) = 1"
| "lock_rank (V2_Client_Shard i) = 0"

lemma orderly_read [simp]: "orderly rank [] (read_shard l @ p) = orderly rank [] p"
  by (simp add: read_shard_def)

lemma orderly_write [simp]:
  assumes "list_all (\<lambda>l'. rank l' < rank l) h"
  shows "orderly rank h (write_shard l @ p) = orderly rank h p"
proof -
  have "filter (\<lambda>l'. l' \<noteq> l) h = h" using assms by (auto simp: filter_id_conv list_all_iff)
  with assms show ?thesis by (simp add: write_shard_def)
qed

lemmas orderly_ends [simp] = orderly_read [where p = "[]", simplified] orderly_write [where p = "[]", simplified]

lemma orderly_reads: "orderly rank [] (concat (map (\<lambda>i. read_shard (f i)) ks) @ p) = orderly rank [] p"
  by (induction ks) simp_all

lemma orderly_len_append [simp]: "orderly rank [] (len_shards k shard @ p) = orderly rank [] p"
  unfolding len_shards_def by (rule orderly_reads)

lemma orderly_len [simp]: "orderly rank [] (len_shards k shard)"
  unfolding len_shards_def by (rule orderly_concat) (simp add: list_all_iff)

lemma orderly_writes:
  "list_all (\<lambda>k. list_all (\<lambda>l'. rank l' < rank (f k)) h) ks \<Longrightarrow>
     orderly rank h (concat (map (\<lambda>k. write_shard (f k)) ks) @ p) = orderly rank h p"
  by (induction ks) simp_all

lemma orderly_retain:
  assumes "\<And>i p. orderly rank [shard i] (inside i @ p) = orderly rank [shard i] p"
  shows "orderly rank [] (retain_shards k shard inside)"
  unfolding retain_shards_def by (rule orderly_concat) (simp add: list_all_iff assms)

text \<open>Every handler keeps to the order.\<close>

lemma v3_data_orderly: "orderly lock_rank [] (v3_data_locks Y sid rid way d)"
  by (cases way; cases d) (simp_all add: v3_data_locks_def v3_delivery_locks_def Let_def)

lemma v2_data_orderly: "orderly lock_rank [] (v2_data_locks Y sid rid way sent)"
  by (cases way) (simp_all add: Let_def)

lemma v3_cleanup_orderly: "orderly lock_rank [] (v3_cleanup_locks Y expired logged)"
  unfolding v3_cleanup_locks_def
  by (intro orderly_append orderly_retain orderly_len) (simp_all add: orderly_writes list_all_iff)

lemma v2_cleanup_orderly: "orderly lock_rank [] (v2_cleanup_locks Y logged)"
  unfolding v2_cleanup_locks_def by (intro orderly_append orderly_retain orderly_len) simp_all

lemma v2_request_orderly: "orderly lock_rank [] (v2_request_locks Y attempts enough)"
  unfolding v2_request_locks_def
  by (intro orderly_append orderly_len)
     (auto intro!: orderly_concat simp: list_all_iff v2_attempt_locks_def Let_def)

lemma job_locks_orderly: "orderly lock_rank [] (job_locks Y job)"
  by (cases job) (simp_all add: v3_data_orderly v2_data_orderly v3_cleanup_orderly v2_cleanup_orderly
      v2_request_orderly v3_announce_locks_def v2_announce_locks_def v2_status_locks_def del: v2_data_locks.simps)

interpretation relay_locks: lock_order lock_rank "job_locks Y" for Y
  by unfold_locales (rule job_locks_orderly)

section \<open>The fine steps\<close>

text \<open>
  The locks behind each fine step of the packet handler of \<open>Parallel_V3\<close>, and the sequence of them
  along any way a worker can go through the handler, whatever the others do to the state meanwhile.
\<close>

fun point_locks :: "shard_layout \<Rightarrow> worker_point \<Rightarrow> relay_lock lock_action list" where
  "point_locks Y (Look_Sender j) = read_shard (V3_Client_Shard (v3_client_shard Y (jb_sender j)))"
| "point_locks Y (Record_Received j) = write_shard (V3_Analyzer_Shard (v3_analyzer_shard Y (jb_sender j)))"
| "point_locks Y (Check_Room j) = len_shards (v3_shards Y) V3_Client_Shard"
| "point_locks Y (Insert_Client k j) = write_shard (V3_Client_Shard (v3_client_shard Y (jb_sender j)))"
| "point_locks Y (Insert_Analyzer k j) = write_shard (V3_Analyzer_Shard (v3_analyzer_shard Y (jb_sender j)))"
| "point_locks Y (Read_Count j) = len_shards (v3_shards Y) V3_Client_Shard"
| "point_locks Y (Look_Receiver j) = read_shard (V3_Client_Shard (v3_client_shard Y (jb_receiver j)))"
| "point_locks Y (Send_Packet j a ep) = [Await]"
| "point_locks Y (Record_Loss j) = write_shard (V3_Analyzer_Shard (v3_analyzer_shard Y (jb_receiver j)))"
| "point_locks Y p = []"

inductive handling ::
    "('c, 'q, 'i) relay_core \<Rightarrow> ('m, 'g, 'i) rater \<Rightarrow> nat \<Rightarrow> nat \<Rightarrow> shard_layout
       \<Rightarrow> worker_point \<Rightarrow> relay_lock lock_action list \<Rightarrow> bool"
  for R L limit w Y where
  handled: "handling R L limit w Y Idle []"
| handles:
    "p \<noteq> Idle \<Longrightarrow> handling R L limit w Y (sh_workers (advance R L limit E w p s) w) ls \<Longrightarrow>
     handling R L limit w Y p (point_locks Y p @ ls)"

inductive_cases handlingE: "handling R L limit w Y p ls"

lemma handling_idle: "handling R L limit w Y Idle ls \<longleftrightarrow> ls = []"
  by (auto elim: handlingE intro: handled)

lemma handling_delivery:
  assumes "handling R L limit w Y (Look_Receiver j) ls"
  shows "\<exists>d. ls = v3_delivery_locks Y (jb_receiver j) d"
proof -
  let ?h = "handling R L limit w Y"
  have account: "?h (Account j a) ls \<Longrightarrow> ls = []" for a ls
    by (erule handlingE) (auto simp: handling_idle)
  have loss: "?h (Record_Loss j) ls \<Longrightarrow>
      ls = write_shard (V3_Analyzer_Shard (v3_analyzer_shard Y (jb_receiver j)))" for ls
    by (erule handlingE) (auto simp: handling_idle)
  have send: "?h (Send_Packet j a ep) ls \<Longrightarrow> ls \<in> {[Await],
      Await # write_shard (V3_Analyzer_Shard (v3_analyzer_shard Y (jb_receiver j)))}" for a ep ls
    by (erule handlingE) (auto dest: account loss split: if_splits)
  from assms obtain E s ls' where ls: "ls = point_locks Y (Look_Receiver j) @ ls'"
    "?h (sh_workers (advance R L limit E w (Look_Receiver j) s) w) ls'"
    by (auto elim: handlingE)
  then have "ls' = [] \<or> ls' \<in> {[Await],
      Await # write_shard (V3_Analyzer_Shard (v3_analyzer_shard Y (jb_receiver j)))}"
    by (auto simp: handling_idle dest: send split: option.splits if_splits)
  with ls(1) show ?thesis
    by (auto simp: v3_delivery_locks_def intro: exI [of _ No_Receiver] exI [of _ Delivered] exI [of _ Lost])
qed

lemma handling_admitted:
  assumes "handling R L limit w Y (Insert_Client k j) ls"
  shows "\<exists>d. ls = write_shard (V3_Client_Shard (v3_client_shard Y (jb_sender j)))
    @ write_shard (V3_Analyzer_Shard (v3_analyzer_shard Y (jb_sender j)))
    @ (case k of New_Client \<Rightarrow> len_shards (v3_shards Y) V3_Client_Shard | Returning \<Rightarrow> [])
    @ v3_delivery_locks Y (jb_receiver j) d"
proof -
  let ?h = "handling R L limit w Y"
  have store: "?h (Store_Count j n) ls \<Longrightarrow> \<exists>d. ls = v3_delivery_locks Y (jb_receiver j) d" for n ls
    by (erule handlingE) (auto dest: handling_delivery)
  have count: "?h (Read_Count j) ls \<Longrightarrow>
      \<exists>d. ls = len_shards (v3_shards Y) V3_Client_Shard @ v3_delivery_locks Y (jb_receiver j) d" for ls
    by (erule handlingE) (auto dest: store)
  have analyzer: "?h (Insert_Analyzer k j) ls \<Longrightarrow>
      \<exists>d. ls = write_shard (V3_Analyzer_Shard (v3_analyzer_shard Y (jb_sender j)))
        @ (case k of New_Client \<Rightarrow> len_shards (v3_shards Y) V3_Client_Shard | Returning \<Rightarrow> [])
        @ v3_delivery_locks Y (jb_receiver j) d" for ls
    by (cases k; erule handlingE) (auto dest: count handling_delivery)
  from assms show ?thesis by (rule handlingE) (auto dest: analyzer)
qed

text \<open>The ways through the handler, as sequences of operations on the maps.\<close>

lemma v3_data_ways:
  fixes Y sid
  defines "look \<equiv> read_shard (V3_Client_Shard (v3_client_shard Y sid))"
    and "client \<equiv> write_shard (V3_Client_Shard (v3_client_shard Y sid))"
    and "analyzer \<equiv> write_shard (V3_Analyzer_Shard (v3_analyzer_shard Y sid))"
    and "clients \<equiv> len_shards (v3_shards Y) V3_Client_Shard"
  shows "\<exists>way d. look = v3_data_locks Y sid rid way d"
    and "\<exists>way d. look @ clients = v3_data_locks Y sid rid way d"
    and "\<exists>way d'. look @ analyzer @ v3_delivery_locks Y rid d = v3_data_locks Y sid rid way d'"
    and "\<exists>way d'. look @ client @ analyzer @ v3_delivery_locks Y rid d = v3_data_locks Y sid rid way d'"
    and "\<exists>way d'. look @ clients @ client @ analyzer @ clients @ v3_delivery_locks Y rid d =
           v3_data_locks Y sid rid way d'"
proof -
  have "look = v3_data_locks Y sid rid Known_Refused d" "look @ clients = v3_data_locks Y sid rid Full_Refused d"
    "look @ analyzer @ v3_delivery_locks Y rid d = v3_data_locks Y sid rid Same_Endpoint d"
    "look @ client @ analyzer @ v3_delivery_locks Y rid d = v3_data_locks Y sid rid Timed_Out_Admitted d"
    "look @ clients @ client @ analyzer @ clients @ v3_delivery_locks Y rid d =
       v3_data_locks Y sid rid Stranger_Admitted d" for d
    by (simp_all add: v3_data_locks_def read_shard_def Let_def look_def client_def analyzer_def clients_def)
  then show "\<exists>way d. look = v3_data_locks Y sid rid way d"
    "\<exists>way d. look @ clients = v3_data_locks Y sid rid way d"
    "\<exists>way d'. look @ analyzer @ v3_delivery_locks Y rid d = v3_data_locks Y sid rid way d'"
    "\<exists>way d'. look @ client @ analyzer @ v3_delivery_locks Y rid d = v3_data_locks Y sid rid way d'"
    "\<exists>way d'. look @ clients @ client @ analyzer @ clients @ v3_delivery_locks Y rid d =
       v3_data_locks Y sid rid way d'" by blast+
qed

text \<open>The locks of a worker that goes through the fine steps are those of one of these ways.\<close>

lemma handling_data:
  assumes "handling R L limit w Y (Look_Sender j) ls"
  shows "\<exists>way d. ls = v3_data_locks Y (jb_sender j) (jb_receiver j) way d"
proof -
  let ?h = "handling R L limit w Y" and ?data = "v3_data_locks Y (jb_sender j) (jb_receiver j)"
    and ?look = "read_shard (V3_Client_Shard (v3_client_shard Y (jb_sender j)))"
  have known: "?h (Record_Received j) ls \<Longrightarrow> \<exists>way d. ?look @ ls = ?data way d" for ls
    by (erule handlingE) (auto dest!: handling_delivery intro: v3_data_ways)
  have returning: "?h (Take_Token Returning j) ls \<Longrightarrow> \<exists>way d. ?look @ ls = ?data way d" for ls
    by (erule handlingE)
       (auto simp: Let_def handling_idle dest!: handling_admitted intro: v3_data_ways split: prod.splits if_splits)
  have stranger: "?h (Take_Token New_Client j) ls \<Longrightarrow>
      \<exists>way d. ?look @ len_shards (v3_shards Y) V3_Client_Shard @ ls = ?data way d" for ls
    by (erule handlingE)
       (auto simp: Let_def handling_idle dest!: handling_admitted intro: v3_data_ways split: prod.splits if_splits)
  have room: "?h (Check_Room j) ls \<Longrightarrow> \<exists>way d. ?look @ ls = ?data way d" for ls
    by (erule handlingE) (auto simp: handling_idle dest: stranger intro: v3_data_ways split: if_splits)
  have examine: "?h (Examine j a) ls \<Longrightarrow> \<exists>way d. ?look @ ls = ?data way d" for a ls
    by (erule handlingE)
       (auto simp: handling_idle Let_def dest: known returning intro: v3_data_ways split: option.splits if_splits)
  from assms show ?thesis
    by (rule handlingE) (auto dest: room examine split: option.splits)
qed

section \<open>Property\<close>

text \<open>
  C29: No handler waits for ever on a lock. Run the handlers of both tunnels, their heartbeats and the
  HTTP requests on any number of threads, in any order the locks of the shared maps allow, with any
  assignment of keys to shards. Then a thread that awaits a send or is done holds no lock, so that no
  guard is carried over an await; as long as any thread has something to do, some thread can go on,
  even if the locks put their writers first; and everything that has been begun can be finished.
\<close>

theorem handlers_never_deadlock:
  assumes "labelled_path (lock_step (job_locks Y) n) ls lock_start s"
  shows "(\<forall>w < n. todo s w = [] \<or> (\<exists>p. todo s w = Await # p) \<longrightarrow> held_locks s w = []) \<and>
    ((\<exists>w < n. todo s w \<noteq> []) \<longrightarrow> (\<exists>w < n. can_go n s w)) \<and>
    (\<exists>ls' s'. labelled_path (lock_step (job_locks Y) n) ls' s s' \<and>
       (\<forall>w < n. todo s' w = [] \<and> held_locks s' w = []))"
  by (rule relay_locks.never_deadlock [OF assms])

definition sample_layout :: shard_layout where
  "sample_layout = \<lparr>v3_client_shard = (\<lambda>k. unat k mod 2), v3_analyzer_shard = (\<lambda>k. unat k mod 2),
     v2_client_shard = (\<lambda>k. unat k mod 2), v3_shards = 2, v2_shards = 2\<rparr>"

text \<open>One worker is at the shard of a client, the heartbeat waits to clean it up: one of them can go on.\<close>

theorem handlers_never_deadlock_witness:
  "\<exists>s. labelled_path (lock_step (job_locks sample_layout) 2)
       [Begin 0 (V3_Data 8 9 Timed_Out_Admitted Lost), Begin 1 (V3_Cleanup (\<lambda>_. [8]) True), Go 0] lock_start s \<and>
     \<not> grantable 2 s 1 \<and> (\<exists>w < 2. can_go 2 s w)"
proof -
  let ?a = "V3_Data 8 9 Timed_Out_Admitted Lost" and ?b = "V3_Cleanup (\<lambda>_. [8]) True"
  let ?l = "job_locks sample_layout" and ?c = "V3_Client_Shard 0"
  obtain p where p: "?l ?a = Acquire Shared ?c # p" "p \<noteq> []"
    by (simp add: v3_data_locks_def sample_layout_def Let_def)
  obtain q where q: "?l ?b = Acquire Exclusive ?c # q"
    by (simp add: v3_cleanup_locks_def retain_shards_def sample_layout_def upt_rec)
  let ?s1 = "lock_start\<lparr>todo := (todo lock_start)(0 := ?l ?a)\<rparr>"
  let ?s2 = "?s1\<lparr>todo := (todo ?s1)(1 := ?l ?b)\<rparr>"
  let ?s = "?s2\<lparr>todo := (todo ?s2)(0 := p),
      held_locks := (held_locks ?s2)(0 := perform_lock (Acquire Shared ?c) (held_locks ?s2 0))\<rparr>"
  have todo: "todo ?s2 0 = Acquire Shared ?c # p" "todo ?s 1 = Acquire Exclusive ?c # q"
    using p q by (simp_all del: job_locks.simps)
  have "lock_step ?l 2 (Begin 0 ?a) lock_start ?s1" "lock_step ?l 2 (Begin 1 ?b) ?s1 ?s2"
    by (rule lock_step.begins; simp add: lock_start_def)+
  moreover have "grantable 2 ?s2 0"
    unfolding grantable_def todo(1) by (simp add: lock_start_def)
  then have "lock_step ?l 2 (Go 0) ?s2 ?s"
    by (intro lock_step.goes [OF _ _ todo(1)]) simp_all
  ultimately have run: "labelled_path (lock_step ?l 2) [Begin 0 ?a, Begin 1 ?b, Go 0] lock_start ?s"
    by (blast intro: labelled_path.intros)
  have "\<not> grantable 2 ?s 1"
    unfolding grantable_def todo(2) by (auto simp: lock_start_def intro!: exI [of _ 0])
  moreover have "todo ?s 0 \<noteq> []" using p(2) by simp
  ultimately show ?thesis
    using handlers_never_deadlock [OF run] run by (meson zero_less_numeral)
qed

end
