(* ===== verification/Process.thy ===== *)
theory Process
  imports V3_Control V2_System
begin

text \<open>
  What the program tells its operator and hears from it: the tracing subscriber and the signal
  handler of \<open>src/main.rs\<close>, the error type of \<open>src/errors.rs\<close>, and the log lines of the heartbeats.
  Environment filters, I/O errors and HTTP errors are values of the crates, with their printed forms
  as parameters.
\<close>

section \<open>Log lines\<close>

datatype log_level = Debug | Info | Warn | Error

type_synonym log_line = "log_level \<times> string"

subsection \<open>The tracing subscriber\<close>

text \<open>The options \<open>init_tracing\<close> sets on the formatting layer; what it leaves alone is \<open>None\<close>.\<close>

record fmt_layer =
  fl_json :: bool
  fl_target :: "bool option"
  fl_current_span :: "bool option"
  fl_thread_ids :: "bool option"
  fl_line_number :: "bool option"

text \<open>
  \<open>from_default_env\<close> is the filter that the variable \<open>RUST_LOG\<close> holds, if it can be parsed, and
  \<open>env_filter_new\<close> makes a filter of a level.
\<close>

definition init_tracing :: "'f option \<Rightarrow> (string \<Rightarrow> 'f) \<Rightarrow> string \<Rightarrow> string \<Rightarrow> 'f \<times> fmt_layer" where
  "init_tracing from_default_env env_filter_new level fmt =
     (case from_default_env of Some f \<Rightarrow> f | None \<Rightarrow> env_filter_new level,
      if fmt = ''json''
      then \<lparr>fl_json = True, fl_target = Some False, fl_current_span = Some True,
            fl_thread_ids = None, fl_line_number = None\<rparr>
      else \<lparr>fl_json = False, fl_target = Some False, fl_current_span = None,
            fl_thread_ids = Some True, fl_line_number = Some True\<rparr>)"

text \<open>The level of the arguments counts only when the environment has no filter of its own.\<close>

lemma init_tracing_level:
  assumes "fst (init_tracing env new level fmt) \<noteq> fst (init_tracing env new level' fmt)"
  shows "env = None" and "level \<noteq> level'"
  using assms by (auto simp: init_tracing_def split: option.splits)

subsection \<open>The heartbeats' lines\<close>

definition v3_log_metrics :: "('c, 'q, 'm) tunnel_v3 \<Rightarrow> metrics \<Rightarrow> log_line" where
  "v3_log_metrics t m =
     (Info, ''V3 Stats - Clients: '' @ nat_to_string (dm_len (v3_mappings t))
        @ '', RX: '' @ nat_to_string (unat (v3_packets_received m))
        @ '', TX: '' @ nat_to_string (unat (v3_packets_sent m))
        @ '', Dropped: '' @ nat_to_string (unat (dropped_packets m)))"

text \<open>The line of a tick, if it has one; the argument is the state after the tick.\<close>

definition v3_heartbeat_log :: "u8 \<times> ('c, 'q, 'm) v3_state \<Rightarrow> log_line option" where
  "v3_heartbeat_log s =
     (let (cleanup_counter, t, io) = s in
      if cleanup_counter mod 5 = 0 then Some (v3_log_metrics t (io_metrics io)) else None)"

text \<open>The answer to an announcement is only logged: its status with its printed form, or an error.\<close>

datatype announce_answer = Answered nat string | Failed string

definition is_success :: "nat \<Rightarrow> bool" where
  "is_success code = (200 \<le> code \<and> code < 300)"

fun v3_announce_log :: "announce_answer \<Rightarrow> log_line" where
  "v3_announce_log (Answered code shown) =
     (if is_success code then (Debug, ''V3 master announce sent'')
      else (Warn, ''V3 master announce failed: '' @ shown))"
| "v3_announce_log (Failed e) = (Warn, ''V3 master announce error: '' @ e)"

fun v2_announce_log :: "announce_answer \<Rightarrow> log_line" where
  "v2_announce_log (Answered code shown) =
     (if is_success code then (Debug, ''V2 master announce sent'')
      else (Warn, ''V2 master announce failed: '' @ shown))"
| "v2_announce_log (Failed e) = (Warn, ''V2 master announce error: '' @ e)"

text \<open>The statistics come every fifth tick, and twice in a row where the counter wraps from 255 to 0.\<close>

lemma counter_hits_five:
  "\<exists>i \<in> {1, 2, 3, 4, 5}. (c + i) mod 5 = (0 :: u8)"
proof -
  define n where "n = unat c"
  have n: "n < 256" using unsigned_less [of c] by (simp add: n_def)
  have hit: "(c + of_nat i) mod 5 = 0" if "(n + i) mod 256 mod 5 = 0" "i < 6" for i
    using that by (simp add: word_unat_eq_iff unat_mod unat_word_ariths unat_of_nat n_def)
  have "\<exists>i \<in> {1, 2, 3, 4, 5}. (n + i) mod 256 mod 5 = 0"
  proof (cases "n < 251")
    case True
    have "(n + 1) mod 5 = 0 \<or> (n + 2) mod 5 = 0 \<or> (n + 3) mod 5 = 0 \<or> (n + 4) mod 5 = 0 \<or> (n + 5) mod 5 = 0"
      by presburger
    with True show ?thesis by simp
  next
    case False
    with n have "n \<in> {251, 252, 253, 254, 255}" by auto
    then show ?thesis by auto
  qed
  with hit [of 1] hit [of 2] hit [of 3] hit [of 4] hit [of 5] show ?thesis by auto
qed

section \<open>Signals\<close>

datatype signal = Ctrl_C | Terminate

text \<open>
  \<open>shutdown_handler\<close> installs its handlers, panicking when that fails, and then waits for the first
  signal of the ones it listens to; \<open>arrivals\<close> are the signals of the process in order.
\<close>

datatype handler_result = Handler_Panic string | Received_Signal string | Waiting

definition listens :: "bool \<Rightarrow> signal \<Rightarrow> bool" where
  "listens unix sig = (case sig of Ctrl_C \<Rightarrow> True | Terminate \<Rightarrow> unix)"

definition shutdown_handler :: "bool \<Rightarrow> (signal \<Rightarrow> bool) \<Rightarrow> signal list \<Rightarrow> handler_result" where
  "shutdown_handler unix installs arrivals =
     (if \<not> installs Ctrl_C then Handler_Panic ''failed to install Ctrl+C handler''
      else if unix \<and> \<not> installs Terminate then Handler_Panic ''failed to install signal handler''
      else case find (listens unix) arrivals of
        Some Ctrl_C \<Rightarrow> Received_Signal ''Received Ctrl+C signal''
      | Some Terminate \<Rightarrow> Received_Signal ''Received terminate signal''
      | None \<Rightarrow> Waiting)"

lemma shutdown_handler_waits:
  assumes "installs Ctrl_C" and "installs Terminate"
  shows "shutdown_handler unix installs arrivals = Waiting \<longleftrightarrow> (\<forall>sig \<in> set arrivals. \<not> listens unix sig)"
  using assms find_None_iff [of "listens unix" arrivals]
  by (auto simp: shutdown_handler_def split: option.splits signal.splits)

text \<open>More signals change nothing: the first one decides.\<close>

lemma shutdown_handler_first:
  assumes "shutdown_handler unix installs arrivals = r" and "r \<noteq> Waiting"
  shows "shutdown_handler unix installs (arrivals @ later) = r"
proof -
  have "find P (xs @ ys) = (case find P xs of Some x \<Rightarrow> Some x | None \<Rightarrow> find P ys)" for P and xs ys :: "signal list"
    by (induction xs) auto
  with assms show ?thesis by (auto simp: shutdown_handler_def split: option.splits signal.splits)
qed

section \<open>Errors\<close>

text \<open>The error type of the version 3 tunnel: an I/O error, with its printed form as a parameter.\<close>

datatype 'e server_error = Io 'e

fun server_error_display :: "('e \<Rightarrow> string) \<Rightarrow> 'e server_error \<Rightarrow> string" where
  "server_error_display io_display (Io e) = ''IO error: '' @ io_display e"

text \<open>The question mark operator on an I/O result.\<close>

fun from_io :: "'e + 'a \<Rightarrow> 'e server_error + 'a" where
  "from_io (Inl e) = Inl (Io e)"
| "from_io (Inr x) = Inr x"

end
