(* ===== verification/Audit_Log.thy ===== *)
theory Audit_Log
  imports Process
begin

text \<open>
  The log lines of the tunnels' handlers (\<open>src/tunnel_v3.rs\<close>, \<open>src/tunnel_v2.rs\<close>). A line about a
  client is an entry with its fields, every other line is its text. The entries can be replayed: read
  in order, each checked against what the earlier ones say, they rebuild the table of clients. A
  service whose log replays in this way is an instance of the locale \<open>audited\<close>.
\<close>

section \<open>Printing addresses\<close>

definition ipv4_to_string :: "u8 \<Rightarrow> u8 \<Rightarrow> u8 \<Rightarrow> u8 \<Rightarrow> string" where
  "ipv4_to_string a b c d = join_with ''.'' (map (\<lambda>x. nat_to_string (unat x)) [a, b, c, d])"

text \<open>The eight segments of an IPv6 address, and one of them in hexadecimal without leading zeros.\<close>

definition segments :: "128 word \<Rightarrow> u16 list" where
  "segments w = map (\<lambda>i. ucast (drop_bit (112 - 16 * i) w)) [0..<8]"

definition hex_digit :: "nat \<Rightarrow> char" where
  "hex_digit n = (if n < 10 then char_of (48 + n) else char_of (87 + n))"

definition segment_to_string :: "u16 \<Rightarrow> string" where
  "segment_to_string w =
     (let n = unat w; ds = map (\<lambda>k. n div 16 ^ k mod 16) [3, 2, 1, 0]
      in map hex_digit (if n = 0 then [0] else dropWhile ((=) 0) ds))"

text \<open>The first longest run of zero segments: where it starts and its length.\<close>

fun longest_zeroes :: "nat \<Rightarrow> nat \<times> nat \<Rightarrow> nat \<times> nat \<Rightarrow> u16 list \<Rightarrow> nat \<times> nat" where
  "longest_zeroes i current longest [] = longest"
| "longest_zeroes i (start, len) longest (s # ss) =
     (if s = 0 then
        let current = (if len = 0 then i else start, len + 1)
        in longest_zeroes (i + 1) current (if snd longest < snd current then current else longest) ss
      else longest_zeroes (i + 1) (0, 0) longest ss)"

definition ipv6_to_string :: "128 word \<Rightarrow> string" where
  "ipv6_to_string w =
     (let ss = segments w; text = (\<lambda>ss. join_with '':'' (map segment_to_string ss)) in
      if take 6 ss = [0, 0, 0, 0, 0, 0xffff]
      then ''::ffff:'' @ ipv4_to_string (ucast (drop_bit 24 w)) (ucast (drop_bit 16 w))
             (ucast (drop_bit 8 w)) (ucast w)
      else let (start, len) = longest_zeroes 0 (0, 0) (0, 0) ss in
        if 1 < len then text (take start ss) @ ''::'' @ text (drop (start + len) ss) else text ss)"

primrec socket_addr_to_string :: "socket_addr \<Rightarrow> string" where
  "socket_addr_to_string (SocketV4 a b c d p) = ipv4_to_string a b c d @ '':'' @ nat_to_string (unat p)"
| "socket_addr_to_string (SocketV6 w p f s) =
     ''['' @ ipv6_to_string w @ (if s = 0 then [] else ''%'' @ nat_to_string (unat s)) @ '']:''
       @ nat_to_string (unat p)"

lemma socket_addr_examples:
  "socket_addr_to_string (SocketV4 10 0 255 7 50001) = ''10.0.255.7:50001''"
  "socket_addr_to_string (SocketV6 1 80 0 0) = ''[::1]:80''"
  "socket_addr_to_string (SocketV6 0x20010db8000000000001000000000ab0 80 0 3) = ''[2001:db8::1:0:0:ab0%3]:80''"
  "socket_addr_to_string (SocketV6 0xffff01020304 80 0 0) = ''[::ffff:1.2.3.4]:80''"
  by (simp_all add: ipv4_to_string_def ipv6_to_string_def segments_def segment_to_string_def hex_digit_def
      nat_to_string.simps upt_rec Let_def; code_simp)+

section \<open>Entries and their lines\<close>

datatype refusal = Rate_Limited | Server_Full

datatype 'k log_entry =
    Connected 'k socket_addr
  | Reconnected 'k socket_addr socket_addr
  | Rejected refusal 'k socket_addr
  | Disconnected 'k "socket_addr option"
  | Said log_line

primrec refusal_text :: "refusal \<Rightarrow> string" where
  "refusal_text Rate_Limited = ''rate limit''"
| "refusal_text Server_Full = ''server full''"

text \<open>The line of an entry; \<open>tunnel\<close> is \<open>V3\<close> or \<open>V2\<close>, and \<open>show_id\<close> prints an id.\<close>

primrec entry_line :: "string \<Rightarrow> ('k \<Rightarrow> string) \<Rightarrow> 'k log_entry \<Rightarrow> log_line" where
  "entry_line tunnel show_id (Connected k a) =
     (Info, tunnel @ '' client connected: ID='' @ show_id k @ '', endpoint='' @ socket_addr_to_string a)"
| "entry_line tunnel show_id (Reconnected k a old) =
     (Info, tunnel @ '' client reconnected (previous timed out): ID='' @ show_id k
        @ '', new_endpoint='' @ socket_addr_to_string a @ '', old_endpoint='' @ socket_addr_to_string old)"
| "entry_line tunnel show_id (Rejected r k a) =
     (Warn, tunnel @ '' client rejected ('' @ refusal_text r @ ''): ID='' @ show_id k
        @ '', endpoint='' @ socket_addr_to_string a)"
| "entry_line tunnel show_id (Disconnected k ep) =
     (Warn, tunnel @ '' client disconnected (timeout): ID='' @ show_id k @ '', endpoint=''
        @ (case ep of Some a \<Rightarrow> socket_addr_to_string a | None \<Rightarrow> ''never connected''))"
| "entry_line tunnel show_id (Said line) = line"

definition bool_to_string :: "bool \<Rightarrow> string" where
  "bool_to_string b = (if b then ''true'' else ''false'')"

section \<open>Replaying\<close>

text \<open>
  What an entry says about the table, and when it can be true. A client is known here by its
  endpoint: an id that was handed out and not used yet has none, and no entry either.
\<close>

fun replay :: "'k log_entry \<Rightarrow> 'k endpoint_table \<Rightarrow> 'k endpoint_table option" where
  "replay (Connected k a) table = (if table k = None then Some (table(k \<mapsto> a)) else None)"
| "replay (Reconnected k a old) table =
     (if table k = Some old \<and> a \<noteq> old then Some (table(k \<mapsto> a)) else None)"
| "replay (Rejected r k a) table = (if table k = None then Some table else None)"
| "replay (Disconnected k ep) table = (if table k = ep then Some (table(k := None)) else None)"
| "replay (Said line) table = Some table"

lemma replay_said: "\<forall>e \<in> set es. \<exists>line. e = Said line \<Longrightarrow> run_all replay es table = Some table"
  by (induction es) auto

lemma replay_disconnects:
  assumes "distinct ks" and "\<forall>k \<in> set ks. f k = table k"
  shows "run_all replay (map (\<lambda>k. Disconnected k (f k)) ks) table =
    Some (\<lambda>k. if k \<in> set ks then None else table k)"
  using assms
proof (induction ks arbitrary: table)
  case Nil
  then show ?case by simp
next
  case (Cons k ks)
  have "run_all replay (map (\<lambda>k. Disconnected k (f k)) ks) (table(k := None)) =
      Some (\<lambda>j. if j \<in> set ks then None else (table(k := None)) j)"
    by (rule Cons.IH) (use Cons.prems in auto)
  with Cons.prems show ?case by (auto simp: fun_eq_iff)
qed

text \<open>
  The order in which \<open>retain\<close> visits a map, which the map does not fix: every key once. It is an
  argument of an event, like the printed form of a failed send and the answer of the master server.
\<close>

definition visits :: "'k list \<Rightarrow> ('k, 'c) fmap \<Rightarrow> bool" where
  "visits ks m \<longleftrightarrow> distinct ks \<and> set ks = fset (fmdom m)"

record ('k, 'c) surroundings =
  visit_order :: "('k, 'c) fmap \<Rightarrow> 'k list"
  io_failure :: string
  master_answer :: announce_answer

definition surroundings_ok :: "('k, 'c) surroundings \<Rightarrow> bool" where
  "surroundings_ok C \<longleftrightarrow> (\<forall>m. visits (visit_order C m) m)"

text \<open>The lines of a cleanup that removes the expired clients.\<close>

definition expiry_log ::
    "('c, 'q, 'i) relay_core \<Rightarrow> 'i \<Rightarrow> 'k list \<Rightarrow> ('k, 'c) fmap \<Rightarrow> 'k log_entry list" where
  "expiry_log R now ks m =
     map (\<lambda>k. Disconnected k (Option.bind (fmlookup m k) (remote_ep R)))
       (filter (\<lambda>k. case fmlookup m k of Some c \<Rightarrow> is_timed_out R c now | None \<Rightarrow> False) ks)"

lemma expiry_log_replays:
  assumes "visits ks m"
  shows "run_all replay (expiry_log R now ks m) (ep_table R m) =
    Some (ep_table R (dm_retain (\<lambda>k c. \<not> is_timed_out R c now) m))"
proof -
  let ?expired = "filter (\<lambda>k. case fmlookup m k of Some c \<Rightarrow> is_timed_out R c now | None \<Rightarrow> False) ks"
  have "run_all replay (expiry_log R now ks m) (ep_table R m) =
      Some (\<lambda>k. if k \<in> set ?expired then None else ep_table R m k)"
    unfolding expiry_log_def
    by (rule replay_disconnects) (use assms in \<open>auto simp: visits_def ep_table_def\<close>)
  moreover have "(\<lambda>k. if k \<in> set ?expired then None else ep_table R m k) =
      ep_table R (dm_retain (\<lambda>k c. \<not> is_timed_out R c now) m)"
    using assms
    by (auto simp: fun_eq_iff ep_table_retain visits_def fmlookup_dom_iff ep_table_def
        split: option.splits)
  ultimately show ?thesis by simp
qed

section \<open>The contract of an audited service\<close>

text \<open>The log of a run: the entries of its events, in order.\<close>

primrec run_log ::
    "('e \<Rightarrow> 's \<Rightarrow> 's option) \<Rightarrow> ('e \<Rightarrow> 's \<Rightarrow> 'k log_entry list) \<Rightarrow> 'e list \<Rightarrow> 's \<Rightarrow> 'k log_entry list" where
  "run_log step log [] s = []"
| "run_log step log (e # es) s =
     log e s @ (case step e s of None \<Rightarrow> [] | Some s' \<Rightarrow> run_log step log es s')"

text \<open>A service whose every step leaves a log that replays from the table before to the one after.\<close>

locale audited =
  fixes step :: "'e \<Rightarrow> 's \<Rightarrow> 's option"
    and log :: "'e \<Rightarrow> 's \<Rightarrow> 'k log_entry list"
    and inv :: "'s \<Rightarrow> bool"
    and fine :: "'e \<Rightarrow> bool"
    and table :: "'s \<Rightarrow> 'k endpoint_table"
  assumes step_inv: "inv s \<Longrightarrow> step e s = Some s' \<Longrightarrow> inv s'"
    and step_replays: "inv s \<Longrightarrow> fine e \<Longrightarrow> step e s = Some s' \<Longrightarrow>
      run_all replay (log e s) (table s) = Some (table s')"
begin

lemma run_replays:
  "inv s \<Longrightarrow> \<forall>e \<in> set es. fine e \<Longrightarrow> run_all step es s = Some s' \<Longrightarrow>
     run_all replay (run_log step log es s) (table s) = Some (table s')"
proof (induction es arbitrary: s)
  case Nil
  then show ?case by simp
next
  case (Cons e es)
  then obtain s1 where s1: "step e s = Some s1" "run_all step es s1 = Some s'"
    by (auto simp: bind_eq_Some_conv)
  from Cons.IH [OF step_inv [OF Cons.prems(1) s1(1)] _ s1(2)] Cons.prems
    step_replays [OF Cons.prems(1) _ s1(1)] s1(1)
  show ?case by (simp add: run_all_append)
qed

end

end
