(* ===== verification/V3_Log.thy ===== *)
theory V3_Log
  imports Audit_Log
begin

text \<open>
  The log of the version 3 tunnel: for every function of \<open>src/tunnel_v3.rs\<close> that logs, the entries
  it writes on each of its branches, over the state it starts from; and the proof that they replay.
\<close>

section \<open>The entries of the handlers\<close>

definition v3_admit_log ::
    "('c, 'q, 'i) relay_core \<Rightarrow> ('m, 'g, 'i) rater \<Rightarrow> 'i env \<Rightarrow> u32 \<Rightarrow> socket_addr
       \<Rightarrow> ('c, 'q, 'm) tunnel_v3 \<Rightarrow> u32 log_entry list" where
  "v3_admit_log R L E sender_id remote t =
     (case fmlookup (v3_mappings t) sender_id of
        Some client \<Rightarrow>
          (case remote_ep R client of
             Some ep \<Rightarrow>
               if ep \<noteq> remote then
                 if is_timed_out R client (instant E) then
                   if fst (try_acquire L (v3_connection_limiter t) (sock_ip remote) (instant E))
                   then [Reconnected sender_id remote ep] else []
                 else []
               else []
           | None \<Rightarrow> [])
      | None \<Rightarrow>
          if dm_len (v3_mappings t) < max_clients (v3_config t) then
            if fst (try_acquire L (v3_connection_limiter t) (sock_ip remote) (instant E))
            then [Connected sender_id remote] else [Rejected Rate_Limited sender_id remote]
          else [Rejected Server_Full sender_id remote])"

definition v3_handle_data_forward_log ::
    "('c, 'q, 'i) relay_core \<Rightarrow> ('m, 'g, 'i) rater \<Rightarrow> string \<Rightarrow> 'i env \<Rightarrow> u32 \<Rightarrow> u32 \<Rightarrow> u8 list
       \<Rightarrow> socket_addr \<Rightarrow> u64 \<Rightarrow> ('c, 'q, 'm) v3_state \<Rightarrow> u32 log_entry list" where
  "v3_handle_data_forward_log R L failure E sender_id receiver_id packet remote now s =
     v3_admit_log R L E sender_id remote (fst s) @
     (let (sender_valid, t, io) = v3_admit_sender R L E sender_id packet remote now s in
      if \<not> sender_valid then []
      else case v3_forward_info R receiver_id remote t of
        None \<Rightarrow> []
      | Some receiver_ep \<Rightarrow>
          if send_succeeds E receiver_ep packet then []
          else [Said (Debug, ''Failed to forward V3 packet to ''
                  @ socket_addr_to_string receiver_ep @ '': '' @ failure)])"

definition v3_handle_ping_log ::
    "string \<Rightarrow> 'i env \<Rightarrow> u8 list \<Rightarrow> socket_addr \<Rightarrow> u32 log_entry list" where
  "v3_handle_ping_log failure E packet remote =
     (if send_succeeds E remote (take (min 12 (length packet)) packet) then []
      else [Said (Debug, ''Failed to send V3 ping response to '' @ socket_addr_to_string remote
              @ '': '' @ failure)])"

text \<open>The last line counts what the cleanup has left.\<close>

definition v3_cleanup_log ::
    "('c, 'q, 'i) relay_core \<Rightarrow> ('m, 'g, 'i) rater \<Rightarrow> ((u32, 'c) fmap \<Rightarrow> u32 list) \<Rightarrow> 'i env
       \<Rightarrow> ('c, 'q, 'm) v3_state \<Rightarrow> u32 log_entry list" where
  "v3_cleanup_log R L order E s =
     expiry_log R (instant E) (order (v3_mappings (fst s))) (v3_mappings (fst s)) @
     (let (t, io) = v3_cleanup_expired_mappings R L E s in
      [Said (Info, ''V3 cleanup: '' @ nat_to_string (dm_len (v3_mappings t)) @ '' active clients, ''
         @ nat_to_string (get_active_ip_count L (v3_connection_limiter t)) @ '' IPs tracked'')])"

definition v3_execute_command_log ::
    "('c, 'q, 'i) relay_core \<Rightarrow> ('m, 'g, 'i) rater \<Rightarrow> ((u32, 'c) fmap \<Rightarrow> u32 list) \<Rightarrow> 'i env \<Rightarrow> u8 list
       \<Rightarrow> ('c, 'q, 'm) v3_state \<Rightarrow> u32 log_entry list" where
  "v3_execute_command_log R L order E packet s =
     (let (t, io) = s in
      if saturating_sub (uptime_secs E) (v3_last_command_tick t) < COMMAND_RATE_LIMIT_SECS
         \<or> v3_maintenance_password_sha1 t = None
      then []
      else let t = t\<lparr>v3_last_command_tick := uptime_secs E\<rparr> in
        case (index packet 8, slice packet 9 29) of
          (Some command, Some password_sha1) \<Rightarrow>
            (case v3_maintenance_password_sha1 t of
               None \<Rightarrow> []
             | Some expected_sha1 \<Rightarrow>
                 if password_sha1 = expected_sha1 then
                   if command = 0 then
                     let prev = v3_maintenance_mode t
                     in [Said (Info, ''Maintenance mode toggled: '' @ bool_to_string prev @ '' -> ''
                           @ bool_to_string (\<not> prev))]
                   else if command = 1 then
                     Said (Info, ''Forcing cleanup of expired connections'')
                       # v3_cleanup_log R L order E (t, io)
                   else [Said (Debug, ''Unknown command: '' @ nat_to_string (unat command))]
                 else [])
        | _ \<Rightarrow> [])"

definition v3_on_receive_log ::
    "('c, 'q, 'i) relay_core \<Rightarrow> ('m, 'g, 'i) rater \<Rightarrow> (u32, 'c) surroundings \<Rightarrow> 'i env \<Rightarrow> u8 list
       \<Rightarrow> socket_addr \<Rightarrow> ('c, 'q, 'm) v3_state \<Rightarrow> u32 log_entry list" where
  "v3_on_receive_log R L C E packet remote s =
     (case v3_parse_packet_header packet of
        None \<Rightarrow> []
      | Some (sender_id, receiver_id) \<Rightarrow>
          let (t, io) = s; io = io_batch_update (record_v3_rx (of_nat (length packet))) io in
          if sender_id = 0 \<and> receiver_id = u32_MAX \<and> 29 \<le> length packet
          then v3_execute_command_log R L (visit_order C) E packet (t, io)
          else if \<not> v3_validate_packet R sender_id receiver_id remote then []
          else if sender_id = 0 \<and> receiver_id = 0 then
            if length packet = 50
               \<and> fst (check_and_increment L (v3_ping_limiter t) (sock_ip remote) (instant E))
            then v3_handle_ping_log (io_failure C) E packet remote
            else []
          else if v3_maintenance_mode t then []
          else v3_handle_data_forward_log R L (io_failure C) E sender_id receiver_id packet remote
                 (current_timestamp R (instant E)) (t, io))"

definition v3_receive_log ::
    "('c, 'q, 'i) relay_core \<Rightarrow> ('m, 'g, 'i) rater \<Rightarrow> (u32, 'c) surroundings \<Rightarrow> nat \<Rightarrow> 'i env \<Rightarrow> recv_result
       \<Rightarrow> u32 \<times> ('c, 'q, 'm) v3_state \<Rightarrow> u32 log_entry list" where
  "v3_receive_log R L C worker_id E r s =
     (let (receive_errors, t, io) = s in
      case r of
        Received packet addr \<Rightarrow>
          if 8 \<le> length packet \<and> length packet \<le> V3_MAX_PACKET_SIZE
          then v3_on_receive_log R L C E packet addr (t, io) else []
      | Receive_Error \<Rightarrow>
          if receive_errors + 1 > 100
          then [Said (Error, ''V3 worker '' @ nat_to_string worker_id @ '' excessive receive errors: ''
                  @ io_failure C)]
          else [])"

definition v3_heartbeat_tick_log ::
    "('c, 'q, 'i) relay_core \<Rightarrow> ('m, 'g, 'i) rater \<Rightarrow> (u32, 'c) surroundings \<Rightarrow> (string \<Rightarrow> string) \<Rightarrow> 'i env
       \<Rightarrow> u8 \<times> ('c, 'q, 'm) v3_state \<Rightarrow> u32 log_entry list" where
  "v3_heartbeat_tick_log R L C encode E s =
     (let (announced, after) = v3_heartbeat_tick R L encode E s in
      (if (fst s + 1) mod 3 = 0 then v3_cleanup_log R L (visit_order C) E (snd s) else [])
      @ (case announced of None \<Rightarrow> [] | Some url \<Rightarrow> [Said (v3_announce_log (master_answer C))])
      @ (case v3_heartbeat_log after of None \<Rightarrow> [] | Some line \<Rightarrow> [Said line]))"

text \<open>An event with what surrounds it.\<close>

fun v3_step_log ::
    "('c, 'q, 'i) relay_core \<Rightarrow> ('m, 'g, 'i) rater \<Rightarrow> (string \<Rightarrow> string) \<Rightarrow> (u32, 'c) surroundings \<times> 'i v3_event
       \<Rightarrow> ('c, 'q, 'm) v3_system \<Rightarrow> u32 log_entry list" where
  "v3_step_log R L encode (C, V3_Recv w E r) s =
     v3_receive_log R L C w E r (v3s_errors s w, v3s_tunnel s, v3s_io w s)"
| "v3_step_log R L encode (C, V3_Tick E) s =
     v3_heartbeat_tick_log R L C encode E (v3s_cleanup_counter s, v3s_tunnel s, v3s_io 0 s)"

section \<open>They replay\<close>

lemma v3_admit_log_replays:
  assumes "v3_state_ok R (t, io)"
  shows "run_all replay (v3_admit_log R L E sid src t) (v3_table R t) =
    Some (table_after (v3_verdict R L E t sid src) (v3_table R t) sid src)"
proof (cases "fmlookup (v3_mappings t) sid")
  case None
  then show ?thesis
    by (simp add: v3_admit_log_def v3_verdict_def verdict_of_def table_after_def v3_table_def)
next
  case (Some c)
  with assms obtain ep where "remote_ep R c = Some ep"
    by (auto simp: v3_state_ok_def v3_tunnel_ok_def clients_ok_def dest: fmpredD)
  with Some show ?thesis
    by (auto simp: v3_admit_log_def v3_verdict_def verdict_of_def table_after_def v3_table_def)
qed

lemma v3_forward_log_replays:
  assumes "v3_state_ok R (t, io)"
  shows "run_all replay (v3_handle_data_forward_log R L failure E sid rid p src now (t, io)) (v3_table R t) =
    Some (table_after (v3_verdict R L E t sid src) (v3_table R t) sid src)"
  by (simp add: v3_handle_data_forward_log_def run_all_append v3_admit_log_replays [OF assms]
      split: prod.split option.split)

lemma v3_cleanup_log_replays:
  assumes "visits (order (v3_mappings t)) (v3_mappings t)"
    and "v3_cleanup_expired_mappings R L E (t, io) = (t', io')"
  shows "run_all replay (v3_cleanup_log R L order E (t, io)) (v3_table R t) = Some (v3_table R t')"
proof -
  have "v3_mappings t' = dm_retain (\<lambda>k c. \<not> is_timed_out R c (instant E)) (v3_mappings t)"
    using assms(2) by (auto simp: v3_cleanup_expired_mappings_def Let_def)
  then show ?thesis
    by (simp add: v3_cleanup_log_def run_all_append v3_table_def expiry_log_replays [OF assms(1)] assms(2))
qed

lemma v3_command_log_replays:
  assumes "visits (order (v3_mappings t)) (v3_mappings t)"
    and "v3_execute_command R L E p (t, io) = Some (t', io')" and "29 \<le> length p"
  shows "run_all replay (v3_execute_command_log R L order E p (t, io)) (v3_table R t) = Some (v3_table R t')"
proof -
  let ?t = "t\<lparr>v3_last_command_tick := uptime_secs E\<rparr>"
  have cleanup: "run_all replay (v3_cleanup_log R L order E (?t, io)) (v3_table R t) = Some (v3_table R t')"
    if "v3_cleanup_expired_mappings R L E (?t, io) = (t', io')"
    using v3_cleanup_log_replays [OF _ that, of order] assms(1) by (simp add: v3_table_def)
  have same: "v3_table R (t\<lparr>v3_last_command_tick := n\<rparr>) = v3_table R t"
    "v3_table R (t\<lparr>v3_last_command_tick := n, v3_maintenance_mode := b\<rparr>) = v3_table R t" for n b
    by (simp_all add: v3_table_def)
  obtain command password where read: "index p 8 = Some command" "slice p 9 29 = Some password"
    using assms(3) by (simp add: index_def slice_def)
  show ?thesis
    using assms(2) cleanup
    by (auto simp: v3_execute_command_def v3_execute_command_log_def Let_def same read
        split: if_splits option.splits)
qed

lemma v3_on_receive_log_eq:
  assumes "8 \<le> length p"
  shows "v3_on_receive_log R L C E p src (t, io) =
    (let io = io_batch_update (record_v3_rx (of_nat (length p))) io in
     case v3_kind R p src of
       Command \<Rightarrow> v3_execute_command_log R L (visit_order C) E p (t, io)
     | Ping \<Rightarrow>
         if fst (check_and_increment L (v3_ping_limiter t) (sock_ip src) (instant E))
         then v3_handle_ping_log (io_failure C) E p src else []
     | Data sid rid \<Rightarrow>
         if v3_maintenance_mode t then []
         else v3_handle_data_forward_log R L (io_failure C) E sid rid p src
                (current_timestamp R (instant E)) (t, io)
     | _ \<Rightarrow> [])"
  using v3_parse_Some [OF assms]
  by (auto simp: v3_on_receive_log_def v3_kind_def v3_validate_packet_def Let_def)

lemma v3_on_receive_log_replays:
  assumes ok: "v3_state_ok R (t, io)" and len: "8 \<le> length p" and C: "surroundings_ok C"
    and rec: "v3_on_receive R L E p src (t, io) = Some (t', io')"
  shows "run_all replay (v3_on_receive_log R L C E p src (t, io)) (v3_table R t) = Some (v3_table R t')"
proof -
  define io1 where "io1 = io_batch_update (record_v3_rx (of_nat (length p))) io"
  note log = v3_on_receive_log_eq [OF len, of R L C E src t io, unfolded Let_def, folded io1_def]
  note run = v3_on_receive_eq [OF len, of R L E src t io, unfolded Let_def, folded io1_def]
  have ok1: "v3_state_ok R (t, io1)" using ok by (simp add: io1_def v3_state_ok_def)
  show ?thesis
  proof (cases "v3_kind R p src = Command")
    case True
    have "visits (visit_order C (v3_mappings t)) (v3_mappings t)"
      using C by (simp add: surroundings_ok_def)
    from v3_command_log_replays [where order = "visit_order C" and t = t, OF this, of R L E p io1 t' io'] v3_kind_lengths(1) [OF True] rec True
    show ?thesis by (simp add: log run)
  next
    case False
    have "v3_table R t' = v3_table_next R L E p src t"
      by (rule v3_on_receive_spec [OF ok len, of L E src]) (use rec False in auto)
    then show ?thesis
      by (cases "v3_kind R p src")
         (use False in \<open>simp_all add: log v3_table_next_def v3_forward_log_replays [OF ok1] v3_handle_ping_log_def\<close>)
  qed
qed

lemma v3_step_log_replays:
  assumes ok: "v3_ok R s" and C: "surroundings_ok C" and step: "v3_step R L encode e s = Some s'"
  shows "run_all replay (v3_step_log R L encode (C, e) s) (v3_table R (v3s_tunnel s)) =
    Some (v3_table R (v3s_tunnel s'))"
proof (cases e)
  case (V3_Recv w E r)
  note state = v3_ok_state [OF ok, of w]
  show ?thesis
  proof (cases r)
    case (Received p src)
    show ?thesis
    proof (cases "v3_packet_size_ok p")
      case True
      then have len: "8 \<le> length p" "length p \<le> V3_MAX_PACKET_SIZE"
        by (simp_all add: v3_packet_size_ok_def)
      obtain t' io' where t': "v3_on_receive R L E p src (v3s_tunnel s, v3s_io w s) = Some (t', io')"
        "v3s_tunnel s' = t'"
        by (rule v3_recv_packet [OF ok True, of L encode w E src])
           (use step V3_Recv Received in auto)
      with v3_on_receive_log_replays [OF state len(1) C t'(1)] V3_Recv Received len show ?thesis
        by (simp add: v3_receive_log_def)
    next
      case False
      with step V3_Recv Received show ?thesis
        by (auto simp: v3_step.simps v3_receive_step_def v3_receive_log_def v3_packet_size_ok_def)
    qed
  next
    case Receive_Error
    with step V3_Recv show ?thesis
      by (auto simp: v3_step.simps v3_receive_step_def v3_receive_log_def Let_def)
  qed
next
  case (V3_Tick E)
  have order: "visits (visit_order C (v3_mappings (v3s_tunnel s))) (v3_mappings (v3s_tunnel s))"
    using C by (simp add: surroundings_ok_def)
  obtain t1 io1 where cl: "v3_cleanup_expired_mappings R L E (v3s_tunnel s, v3s_io 0 s) = (t1, io1)"
    by fastforce
  from v3_cleanup_log_replays [where order = "visit_order C", OF order cl] step V3_Tick cl show ?thesis
    by (auto simp: v3_step.simps v3_heartbeat_tick_def v3_heartbeat_tick_log_def run_all_append Let_def
        split: if_splits option.splits)
qed

interpretation v3_audit: audited "\<lambda>(C, e). v3_step R L encode e" "v3_step_log R L encode" "v3_ok R"
    "\<lambda>(C, e). surroundings_ok C" "\<lambda>s. v3_table R (v3s_tunnel s)" for R L encode
proof
  fix R L encode s and e :: "(u32, 'a) surroundings \<times> 'b v3_event" and s'
  show "v3_ok R s \<Longrightarrow> (case e of (C, e) \<Rightarrow> v3_step R L encode e) s = Some s' \<Longrightarrow> v3_ok R s'"
    using v3_step_ok [of R s L encode "snd e"] by (cases e) auto
qed (auto intro: v3_step_log_replays)

section \<open>The log of a run\<close>

definition v3_log ::
    "('c, 'q, 'i) relay_core \<Rightarrow> ('m, 'g, 'i) rater \<Rightarrow> (string \<Rightarrow> string) \<Rightarrow> ((u32, 'c) surroundings \<times> 'i v3_event) list
       \<Rightarrow> ('c, 'q, 'm) v3_system \<Rightarrow> u32 log_entry list" where
  "v3_log R L encode = run_log (\<lambda>(C, e). v3_step R L encode e) (v3_step_log R L encode)"

text \<open>
  C17: The version 3 log tells who is connected. Read in order, the log of any run of the tunnel is
  consistent (an id is reported as new or as rejected only while it is unknown, as reconnected only
  with the endpoint it had, as disconnected with the endpoint it had), and what it says is at every
  moment exactly the tunnel's table of clients, whatever packets, commands, errors and timers
  there were, and in whatever order a cleanup visits the map.
\<close>

theorem v3_log_replays:
  assumes "endpoint_laws R" and "v3_active_clients m = 0"
    and "\<forall>(C, e) \<in> set es. surroundings_ok C"
    and "run_all (\<lambda>(C, e). v3_step R L encode e) es (v3_start (tunnel_v3_new L sha1 c) m) = Some s"
  shows "run_all replay (v3_log R L encode es (v3_start (tunnel_v3_new L sha1 c) m)) Map.empty =
    Some (v3_table R (v3s_tunnel s))"
proof -
  have "v3_table R (v3s_tunnel (v3_start (tunnel_v3_new L sha1 c) m)) = Map.empty"
    by (simp add: v3_table_def v3_start_def tunnel_v3_new_def)
  with v3_audit.run_replays [OF v3_start_ok [OF assms(1,2)] assms(3,4)] show ?thesis
    by (simp add: v3_log_def)
qed

definition sample_surroundings :: "(u32, 'c) surroundings" where
  "sample_surroundings = \<lparr>visit_order = (\<lambda>m. sorted_list_of_set (fset (fmdom m))),
     io_failure = ''broken pipe'', master_answer = Answered 200 ''200 OK''\<rparr>"

lemma sample_surroundings_ok: "surroundings_ok sample_surroundings"
  by (simp add: surroundings_ok_def sample_surroundings_def visits_def)

lemma sample_first_log:
  "v3_handle_data_forward_log sample_core sample_rater failure (sample_env 1) 1 2 p addr_a now
     (tunnel_v3_new sample_rater sample_sha1 sample_config, io) = [Connected 1 addr_a]"
proof -
  let ?t = "tunnel_v3_new sample_rater sample_sha1 sample_config :: (sample_client, nat, sample_manager) tunnel_v3"
  have t: "v3_mappings ?t = fmempty" "v3_config ?t = sample_config" "0 < max_clients sample_config"
    by (simp_all add: tunnel_v3_new_def)
  obtain l where acquire: "try_acquire sample_rater (v3_connection_limiter ?t) (sock_ip addr_a) 1 = (True, l)"
    by (simp add: tunnel_v3_new_def try_acquire_def connection_rate_limiter_new_def sample_rater_def
        sample_config_def)
  show "v3_handle_data_forward_log sample_core sample_rater failure (sample_env 1) 1 2 p addr_a now
      (?t, io) = [Connected 1 addr_a]"
    using t acquire
    by (simp add: v3_handle_data_forward_log_def v3_admit_log_def v3_admit_sender_def v3_forward_info_def)
qed

definition sample_logged :: "((u32, sample_client) surroundings \<times> nat v3_event) list" where
  "sample_logged = [(sample_surroundings, V3_Recv 0 (sample_env 1) (Received sample_packet addr_a))]"

definition sample_v3_start :: "(sample_client, nat, sample_manager) v3_system" where
  "sample_v3_start = v3_start (tunnel_v3_new sample_rater sample_sha1 sample_config) metrics_new"

theorem v3_log_replays_witness:
  "\<exists>s. run_all (\<lambda>(C, e). v3_step sample_core sample_rater id e) sample_logged sample_v3_start = Some s \<and>
    v3_log sample_core sample_rater id sample_logged sample_v3_start = [Connected 1 addr_a] \<and>
    v3_table sample_core (v3s_tunnel s) = [1 \<mapsto> addr_a]"
proof -
  let ?t0 = "tunnel_v3_new sample_rater sample_sha1 sample_config :: (sample_client, nat, sample_manager) tunnel_v3"
  have start: "v3s_errors sample_v3_start 0 = 0" "v3s_tunnel sample_v3_start = ?t0"
    "\<not> v3_maintenance_mode ?t0"
    by (simp_all add: sample_v3_start_def v3_start_def tunnel_v3_new_def)
  have m: "v3_active_clients metrics_new = 0" by (simp add: metrics_new_def)
  have laws: "endpoint_laws sample_core" by simp
  have "v3_ok sample_core sample_v3_start"
    unfolding sample_v3_start_def by (rule v3_start_ok [OF laws m])
  from v3_step_ok [OF this, of sample_rater id "V3_Recv 0 (sample_env 1) (Received sample_packet addr_a)"]
  obtain s where s: "run_all (\<lambda>(C, e). v3_step sample_core sample_rater id e) sample_logged sample_v3_start
      = Some s"
    by (auto simp: sample_logged_def)
  have "v3_receive_log sample_core sample_rater sample_surroundings 0 (sample_env 1)
      (Received sample_packet addr_a) (0, ?t0, v3s_io 0 sample_v3_start) = [Connected 1 addr_a]"
    using sample_kind(3) sample_first_log start(3)
    by (simp add: v3_receive_log_def v3_packet_size_ok_def v3_on_receive_log_eq Let_def)
  then have log: "v3_log sample_core sample_rater id sample_logged sample_v3_start = [Connected 1 addr_a]"
    using s start by (simp add: v3_log_def sample_logged_def split: option.split)
  have "\<forall>(C, e) \<in> set sample_logged. surroundings_ok C"
    by (simp add: sample_logged_def sample_surroundings_ok)
  from v3_log_replays [OF laws m this s [unfolded sample_v3_start_def]] log have
    "v3_table sample_core (v3s_tunnel s) = [1 \<mapsto> addr_a]" by (simp add: sample_v3_start_def)
  with s log show ?thesis by blast
qed

end
