(* ===== verification/V2_Log.thy ===== *)
theory V2_Log
  imports Audit_Log V2_Properties
begin

text \<open>
  The log of the version 2 tunnel, as \<open>V3_Log\<close> for version 3: the entries of every function of
  \<open>src/tunnel_v2.rs\<close> that logs. The ids that are handed out over HTTP are not logged; a client
  appears in the log when its first packet binds its id. What hyper reports when a connection ends is
  left out.
\<close>

section \<open>The entries of the handlers\<close>

definition v2_admit_log ::
    "('c, 'q, 'i) relay_core \<Rightarrow> 'i env \<Rightarrow> i16 \<Rightarrow> socket_addr \<Rightarrow> (i16, 'c) fmap \<Rightarrow> i16 log_entry list" where
  "v2_admit_log R E sender_id remote mappings =
     (case fmlookup mappings sender_id of
        None \<Rightarrow> []
      | Some sender \<Rightarrow>
          (case remote_ep R sender of
             None \<Rightarrow> [Connected sender_id remote]
           | Some ep \<Rightarrow>
               if ep \<noteq> remote then
                 if is_timed_out R sender (instant E) then [Reconnected sender_id remote ep] else []
               else []))"

definition v2_handle_data_forward_log ::
    "('c, 'q, 'i) relay_core \<Rightarrow> string \<Rightarrow> 'i env \<Rightarrow> i16 \<Rightarrow> i16 \<Rightarrow> u8 list \<Rightarrow> socket_addr \<Rightarrow> u64
       \<Rightarrow> ('c, 'm, 's) tunnel_v2 \<Rightarrow> i16 log_entry list" where
  "v2_handle_data_forward_log R failure E sender_id receiver_id packet remote now t =
     v2_admit_log R E sender_id remote (v2_mappings t) @
     (case v2_admit_sender R E sender_id packet remote now (v2_mappings t) of
        None \<Rightarrow> []
      | Some mappings \<Rightarrow>
          (case v2_forward_info R receiver_id remote mappings of
             None \<Rightarrow> []
           | Some receiver_ep \<Rightarrow>
               if send_succeeds E receiver_ep packet then []
               else [Said (Debug, ''V2 relay error: '' @ failure)]))"

definition v2_handle_ping_log ::
    "string \<Rightarrow> 'i env \<Rightarrow> u8 list \<Rightarrow> socket_addr \<Rightarrow> i16 log_entry list" where
  "v2_handle_ping_log failure E packet remote =
     (if send_succeeds E remote (take (min 12 (length packet)) packet) then []
      else [Said (Debug, ''V2 ping send error: '' @ failure)])"

definition v2_on_udp_receive_log ::
    "('c, 'q, 'i) relay_core \<Rightarrow> ('m, 'g, 'i) rater \<Rightarrow> (i16, 'c) surroundings \<Rightarrow> 'i env \<Rightarrow> u8 list
       \<Rightarrow> socket_addr \<Rightarrow> ('c, 'm, 's) tunnel_v2 \<Rightarrow> i16 log_entry list" where
  "v2_on_udp_receive_log R L C E packet remote t =
     (if length packet < 4 then []
      else let sender_id = u16_from_be_bytes (packet ! 0) (packet ! 1);
               receiver_id = u16_from_be_bytes (packet ! 2) (packet ! 3) in
        if \<not> v2_validate_packet R sender_id receiver_id remote then []
        else if sender_id = 0 \<and> receiver_id = 0 then
          if length packet = 50
             \<and> fst (check_and_increment L (v2_ping_limiter t) (sock_ip remote) (instant E))
          then v2_handle_ping_log (io_failure C) E packet remote
          else []
        else if v2_maintenance_mode t then []
        else v2_handle_data_forward_log R (io_failure C) E sender_id receiver_id packet remote
               (current_timestamp R (instant E)) t)"

text \<open>A receive error is logged by the first worker only.\<close>

definition v2_receive_log ::
    "('c, 'q, 'i) relay_core \<Rightarrow> ('m, 'g, 'i) rater \<Rightarrow> (i16, 'c) surroundings \<Rightarrow> nat \<Rightarrow> 'i env \<Rightarrow> recv_result
       \<Rightarrow> ('c, 'm, 's) tunnel_v2 \<Rightarrow> i16 log_entry list" where
  "v2_receive_log R L C worker_id E r t =
     (case r of
        Received packet addr \<Rightarrow>
          if 4 \<le> length packet \<and> length packet \<le> V2_MAX_PACKET_SIZE
          then v2_on_udp_receive_log R L C E packet addr t else []
      | Receive_Error \<Rightarrow>
          if worker_id = 0 then [Said (Warn, ''V2 UDP receive error: '' @ io_failure C)] else [])"

definition v2_cleanup_log ::
    "('c, 'q, 'i) relay_core \<Rightarrow> ('m, 'g, 'i) rater \<Rightarrow> ((i16, 'c) fmap \<Rightarrow> i16 list) \<Rightarrow> 'i env
       \<Rightarrow> ('c, 'm, 's) v2_http_state \<Rightarrow> i16 log_entry list" where
  "v2_cleanup_log R L order E s =
     expiry_log R (instant E) (order (v2_mappings (fst s))) (v2_mappings (fst s)) @
     [Said (Info, ''V2 cleanup: ''
        @ nat_to_string (dm_len (v2_mappings (fst (v2_cleanup_expired_mappings R L E s))))
        @ '' active clients'')]"

definition v2_heartbeat_tick_log ::
    "('c, 'q, 'i) relay_core \<Rightarrow> ('m, 'g, 'i) rater \<Rightarrow> (i16, 'c) surroundings \<Rightarrow> (string \<Rightarrow> string) \<Rightarrow> 'i env
       \<Rightarrow> ('c, 'm, 's) v2_http_state \<Rightarrow> i16 log_entry list" where
  "v2_heartbeat_tick_log R L C encode E s =
     (let dropped = v2_dropped_connections (fst s) in
      v2_cleanup_log R L (visit_order C) E s
      @ (case fst (v2_heartbeat_tick R L encode E s) of
           None \<Rightarrow> [] | Some url \<Rightarrow> [Said (v2_announce_log (master_answer C))])
      @ (if 0 < dropped
         then [Said (Warn, ''Dropped '' @ nat_to_string (unat dropped)
                 @ '' V2 HTTP connections due to overload'')]
         else []))"

definition v2_handle_maintenance_log :: "string \<Rightarrow> ('c, 'm, 's) tunnel_v2 \<Rightarrow> i16 log_entry list" where
  "v2_handle_maintenance_log p t =
     (if maintenance_password (v2_config t) = [] then []
      else let parts = split_on (CHR ''/'') p in
        if 3 \<le> length parts \<and> parts ! 2 = maintenance_password (v2_config t) then
          let prev = v2_maintenance_mode t in
          [Said (Info, ''V2 maintenance mode toggled: '' @ bool_to_string prev @ '' -> ''
             @ bool_to_string (\<not> prev))]
        else [])"

definition v2_handle_http_request_log ::
    "('m, 'g, 'i) rater \<Rightarrow> 'i env \<Rightarrow> http_request \<Rightarrow> socket_addr \<Rightarrow> ('c, 'm, 's) tunnel_v2
       \<Rightarrow> i16 log_entry list" where
  "v2_handle_http_request_log L E req remote t =
     (if \<not> fst (check_and_increment L (v2_request_limiter t) (sock_ip remote) (instant E)) then []
      else if req_method req = GET \<and> path req = ''/status'' then []
      else if req_method req = GET \<and> path req = ''/request'' then []
      else if req_method req = GET \<and> starts_with (path req) ''/maintenance/''
      then v2_handle_maintenance_log (path req) t
      else [])"

text \<open>An event with what surrounds it.\<close>

fun v2_step_log ::
    "('c, 'q, 'i) relay_core \<Rightarrow> ('m, 'g, 'i) rater \<Rightarrow> (string \<Rightarrow> string) \<Rightarrow> (i16, 'c) surroundings \<times> 'i v2_event
       \<Rightarrow> ('c, 'm, 's) v2_system \<Rightarrow> i16 log_entry list" where
  "v2_step_log R L encode (C, V2_Recv w E r) s = v2_receive_log R L C w E r (v2s_tunnel s)"
| "v2_step_log R L encode (C, V2_Tick E) s =
     v2_heartbeat_tick_log R L C encode E (v2s_tunnel s, v2s_metrics s)"
| "v2_step_log R L encode (C, V2_Accept k a) s = []"
| "v2_step_log R L encode (C, V2_Accept_Error) s =
     (if v2s_listening s then [Said (Error, ''V2 HTTP server error: '' @ io_failure C)] else [])"
| "v2_step_log R L encode (C, V2_Http k E draw req) s =
     (case fmlookup (v2s_conns s) k of
        Some (a, False) \<Rightarrow> v2_handle_http_request_log L E req a (v2s_tunnel s)
      | _ \<Rightarrow> [])"
| "v2_step_log R L encode (C, V2_Close k) s = []"

section \<open>They replay\<close>

lemma v2_admit_log_replays:
  "run_all replay (v2_admit_log R E sid src (v2_mappings t)) (v2_table R t) =
     Some (table_after (v2_verdict R E t sid src) (v2_table R t) sid src)"
  by (auto simp: v2_admit_log_def v2_verdict_def v2_verdict_of_def v2_allocated_iff table_after_def
      v2_table_def split: option.splits)

lemma v2_forward_log_replays:
  "run_all replay (v2_handle_data_forward_log R failure E sid rid p src now t) (v2_table R t) =
     Some (table_after (v2_verdict R E t sid src) (v2_table R t) sid src)"
  by (simp add: v2_handle_data_forward_log_def run_all_append v2_admit_log_replays split: option.split)

lemma v2_on_udp_receive_log_replays:
  assumes "4 \<le> length p"
  shows "run_all replay (v2_on_udp_receive_log R L C E p src t) (v2_table R t) =
    Some (v2_table_next R E p src t)"
  using assms
  by (auto simp: v2_on_udp_receive_log_def v2_table_next_def v2_kind_def v2_validate_packet_def Let_def
      v2_forward_log_replays v2_handle_ping_log_def)

lemma v2_table_reserve:
  assumes "endpoint_laws R" and "\<forall>i \<in> set ids. fmlookup m i = None" and "distinct ids"
  shows "ep_table R (reserve R now ids m) = ep_table R m"
  using assms(2,3)
proof (induction ids arbitrary: m)
  case Nil
  then show ?case by simp
next
  case (Cons i ids)
  have "ep_table R (reserve R now ids (fmupd i (client_new R V2_TIMEOUT_SECONDS now) m)) =
      ep_table R (fmupd i (client_new R V2_TIMEOUT_SECONDS now) m)"
    by (rule Cons.IH) (use Cons.prems in auto)
  with Cons.prems show ?case
    by (auto simp: fun_eq_iff ep_table_def endpoint_lawsD(1) [OF assms(1)])
qed

text \<open>Requests hand out ids, which have no endpoint yet.\<close>

lemma v2_handle_http_request_table:
  assumes laws: "endpoint_laws R" and "v2_handle_http_request R L E draw req a (t, m) = (resp, t', m')"
  shows "v2_table R t' = v2_table R t"
proof -
  have free: "ep_table R (reserve R now (take n (free_ids draw k ms)) ms) = ep_table R ms" for now n k ms
    by (rule v2_table_reserve [OF laws]) (auto simp: free_ids_props(2) dest: in_set_takeD)
  have request: "v2_handle_request R E draw q (t1, m1) = (r, t2, m2) \<Longrightarrow> v2_table R t2 = v2_table R t1"
    for q t1 m1 r t2 m2
    unfolding v2_handle_request_eq
    by (auto simp: v2_request_spec_def v2_table_def Let_def free split: if_splits)
  from assms(2) show ?thesis
    by (auto simp: v2_handle_http_request_def v2_handle_maintenance_def v2_table_def Let_def
        dest!: request split: if_splits prod.splits)
qed

lemma v2_http_log_said: "\<forall>e \<in> set (v2_handle_http_request_log L E req a t). \<exists>line. e = Said line"
  by (auto simp: v2_handle_http_request_log_def v2_handle_maintenance_log_def Let_def)

lemma v2_step_log_replays:
  assumes ok: "v2_ok R S avail s" and C: "surroundings_ok C" and step: "v2_step R L S encode e s = Some s'"
  shows "run_all replay (v2_step_log R L encode (C, e) s) (v2_table R (v2s_tunnel s)) =
    Some (v2_table R (v2s_tunnel s'))"
proof (cases e)
  case (V2_Recv w E r)
  show ?thesis
  proof (cases r)
    case (Received p src)
    from v2_step_table(1) [OF ok step [unfolded V2_Recv Received]]
    show ?thesis
      by (simp add: V2_Recv Received v2_receive_log_def v2_packet_size_ok_def v2_on_udp_receive_log_replays)
  next
    case Receive_Error
    with step V2_Recv show ?thesis
      by (auto simp: v2_step.simps v2_receive_step_def v2_receive_log_def v2s_put_def)
  qed
next
  case (V2_Tick E)
  have order: "visits (visit_order C (v2_mappings (v2s_tunnel s))) (v2_mappings (v2s_tunnel s))"
    using C by (simp add: surroundings_ok_def)
  have "v2_table R (v2s_tunnel s') =
      ep_table R (dm_retain (\<lambda>k c. \<not> is_timed_out R c (instant E)) (v2_mappings (v2s_tunnel s)))"
    using v2_step_tick(1) [OF step [unfolded V2_Tick]] by (simp add: v2_table_def)
  then show ?thesis
    by (auto simp: V2_Tick v2_heartbeat_tick_log_def v2_cleanup_log_def run_all_append v2_table_def Let_def
        expiry_log_replays [OF order]
        split: option.splits)
next
  case (V2_Accept k a)
  with step show ?thesis
    by (auto simp: v2_step.simps v2_accept_def v2_table_def Let_def split: option.splits if_splits)
next
  case V2_Accept_Error
  with step show ?thesis by (auto simp: v2_step.simps)
next
  case (V2_Http k E draw req)
  from ok have laws: "endpoint_laws R" by (simp add: v2_ok_def)
  show ?thesis
  proof (cases "\<exists>a. fmlookup (v2s_conns s) k = Some (a, False)")
    case True
    then obtain a where a: "fmlookup (v2s_conns s) k = Some (a, False)" by blast
    obtain resp t m where r: "v2_handle_http_request R L E draw req a (v2s_tunnel s, v2s_metrics s) = (resp, t, m)"
      by (cases "v2_handle_http_request R L E draw req a (v2s_tunnel s, v2s_metrics s)")
    from step V2_Http a r v2_handle_http_request_table [OF laws r] replay_said [OF v2_http_log_said]
    show ?thesis by (auto simp: v2_step.simps Let_def)
  next
    case False
    then have "v2_step_log R L encode (C, e) s = []" "v2s_tunnel s' = v2s_tunnel s"
      using step V2_Http by (auto simp: v2_step.simps split: option.splits bool.splits)
    then show ?thesis by simp
  qed
next
  case (V2_Close k)
  with step show ?thesis
    by (auto simp: v2_step.simps v2_connection_done_def v2_table_def split: if_splits)
qed

interpretation v2_audit: audited "\<lambda>(C, e). v2_step R L S encode e" "v2_step_log R L encode"
    "v2_ok R S avail" "\<lambda>(C, e). surroundings_ok C" "\<lambda>s. v2_table R (v2s_tunnel s)" for R L S encode avail
proof
  fix R L S encode avail s s' and e :: "(i16, 'a) surroundings \<times> 'b v2_event"
  show "v2_ok R S avail s \<Longrightarrow> (case e of (C, e) \<Rightarrow> v2_step R L S encode e) s = Some s' \<Longrightarrow> v2_ok R S avail s'"
    using v2_step_ok [of R S avail s L encode "snd e"] by (cases e) auto
qed (auto intro: v2_step_log_replays)

section \<open>The log of a run\<close>

definition v2_log ::
    "('c, 'q, 'i) relay_core \<Rightarrow> ('m, 'g, 'i) rater \<Rightarrow> 's semaphore \<Rightarrow> (string \<Rightarrow> string)
       \<Rightarrow> ((i16, 'c) surroundings \<times> 'i v2_event) list \<Rightarrow> ('c, 'm, 's) v2_system \<Rightarrow> i16 log_entry list" where
  "v2_log R L S encode = run_log (\<lambda>(C, e). v2_step R L S encode e) (v2_step_log R L encode)"

text \<open>
  C18: The version 2 log tells who is bound. Read in order, the log of any run is consistent, and what
  it says is at every moment exactly the table of the ids that have an endpoint, with their
  endpoints, whatever packets, HTTP requests, errors and timers there were.
\<close>

theorem v2_log_replays:
  assumes "endpoint_laws R" and "semaphore_laws S avail" and "v2_active_clients m = 0"
    and "\<forall>(C, e) \<in> set es. surroundings_ok C"
    and "run_all (\<lambda>(C, e). v2_step R L S encode e) es (v2_start (tunnel_v2_new L S c) m) = Some s"
  shows "run_all replay (v2_log R L S encode es (v2_start (tunnel_v2_new L S c) m)) Map.empty =
    Some (v2_table R (v2s_tunnel s))"
proof -
  have "v2_table R (v2s_tunnel (v2_start (tunnel_v2_new L S c) m)) = Map.empty"
    by (simp add: v2_table_def v2_start_def tunnel_v2_new_def)
  with v2_audit.run_replays [OF v2_start_ok [OF assms(1-3)] assms(4,5)] show ?thesis
    by (simp add: v2_log_def)
qed

definition sample_v2_surroundings :: "(i16, sample_client) surroundings" where
  "sample_v2_surroundings = \<lparr>visit_order = (\<lambda>m. sorted_list_of_set (fset (fmdom m))),
     io_failure = ''broken pipe'', master_answer = Failed ''timeout''\<rparr>"

lemma sample_v2_surroundings_ok: "surroundings_ok sample_v2_surroundings"
  by (simp add: surroundings_ok_def sample_v2_surroundings_def visits_def)

text \<open>Two ids are requested, one is bound, the accept loop ends, and the clients time out.\<close>

definition sample_v2_logged :: "((i16, sample_client) surroundings \<times> nat v2_event) list" where
  "sample_v2_logged = map (Pair sample_v2_surroundings)
     [V2_Accept 1 v2_addr_a,
      V2_Http 1 (sample_env 1) (\<lambda>n. of_nat n) \<lparr>req_method = GET, path = ''/request'', query = Some ''clients=2''\<rparr>,
      V2_Recv 0 (sample_env 2) (Received (v2_packet 1 2 [3]) v2_addr_a),
      V2_Accept_Error, V2_Tick (sample_env 60)]"

lemma run_with_surroundings:
  "run_all (\<lambda>(C, e). step e) (map (Pair C) es) s = run_all step es s"
  by (induction es arbitrary: s) (auto intro: Option.bind_cong)

theorem v2_log_replays_witness:
  "\<exists>s. run_all (\<lambda>(C, e). v2_step sample_core sample_rater sample_semaphore id e) sample_v2_logged
      (v2_start (tunnel_v2_new sample_rater sample_semaphore sample_config) metrics_new) = Some s \<and>
    run_all replay (v2_log sample_core sample_rater sample_semaphore id sample_v2_logged
      (v2_start (tunnel_v2_new sample_rater sample_semaphore sample_config) metrics_new)) Map.empty =
        Some (v2_table sample_core (v2s_tunnel s))"
proof -
  have m: "v2_active_clients metrics_new = 0" by (simp add: metrics_new_def)
  have laws: "endpoint_laws sample_core" "semaphore_laws sample_semaphore id" by simp_all
  obtain s where s: "run_all (\<lambda>(C, e). v2_step sample_core sample_rater sample_semaphore id e) sample_v2_logged
      (v2_start (tunnel_v2_new sample_rater sample_semaphore sample_config) metrics_new) = Some s"
    unfolding sample_v2_logged_def run_with_surroundings
    using v2.run_ok [OF v2_start_ok [OF laws m, of sample_rater sample_config]] by blast
  have "\<forall>(C, e) \<in> set sample_v2_logged. surroundings_ok C"
    by (simp add: sample_v2_logged_def sample_v2_surroundings_ok)
  from v2_log_replays [OF laws m this s] s show ?thesis by blast
qed

end
