(* ===== verification/Service_Log.thy ===== *)
theory Service_Log
  imports Lifecycle Audit_Log
begin

text \<open>
  The log of \<open>src/main.rs\<close> around the services, and the one of the STUN services. The step relation of
  the process gets an executable form whose events carry what is logged: the error a service returned
  with, and the signal.
\<close>

section \<open>The process\<close>

datatype main_event =
    Returns nat "string option"
  | Wakes nat
  | Health_Wakes
  | Signalled signal
  | All_Ended
  | Drain_Timeout

text \<open>An event happens when \<open>Some\<close>; a service that is not serving cannot end again.\<close>

fun main_perform :: "'w watch \<Rightarrow> main_event \<Rightarrow> 'w process \<Rightarrow> 'w process option" where
  "main_perform W (Returns i err) p =
     (if phase p \<noteq> Finished \<and> i < length (tasks p) \<and> snd (tasks p ! i) = Serving
      then Some (p\<lparr>tasks := (tasks p)[i := (fst (tasks p ! i), Returned)]\<rparr>) else None)"
| "main_perform W (Wakes i) p =
     (if phase p \<noteq> Finished \<and> i < length (tasks p) \<and> snd (tasks p ! i) = Serving
         \<and> recv_completes W (coordinator p)
      then Some (p\<lparr>tasks := (tasks p)[i := (fst (tasks p ! i), Woken)]\<rparr>) else None)"
| "main_perform W Health_Wakes p =
     (if phase p \<noteq> Finished \<and> health_alive p \<and> recv_completes W (coordinator p)
      then Some (p\<lparr>health_alive := False\<rparr>) else None)"
| "main_perform W (Signalled sig) p =
     (if phase p = Running
      then Some (p\<lparr>phase := Draining, coordinator := shutdown W (coordinator p)\<rparr>) else None)"
| "main_perform W All_Ended p =
     (if phase p = Draining \<and> list_all (\<lambda>t. snd t \<noteq> Serving) (tasks p)
      then Some (p\<lparr>phase := Finished, health_alive := False\<rparr>) else None)"
| "main_perform W Drain_Timeout p =
     (if phase p = Draining then Some (p\<lparr>phase := Finished, health_alive := False\<rparr>) else None)"

lemma main_perform_sound: "main_perform W e p = Some p' \<Longrightarrow> main_step W p p'"
proof (cases e)
  case (Returns i err)
  then show "main_perform W e p = Some p' \<Longrightarrow> main_step W p p'"
    using main_step.service_returns [of p i "fst (tasks p ! i)" W]
    by (cases "tasks p ! i") (auto split: if_splits)
next
  case (Wakes i)
  then show "main_perform W e p = Some p' \<Longrightarrow> main_step W p p'"
    using main_step.service_wakes [of p i "fst (tasks p ! i)" W]
    by (cases "tasks p ! i") (auto split: if_splits)
qed (auto simp: list_all_iff intro: main_step.intros split: if_splits)

lemma main_perform_complete:
  assumes "main_step W p p'"
  shows "\<exists>e. main_perform W e p = Some p'"
  using assms
proof (cases rule: main_step.cases)
  case (service_returns i s)
  then show ?thesis by (intro exI [of _ "Returns i None"]) simp
next
  case (service_wakes i s)
  then show ?thesis by (intro exI [of _ "Wakes i"]) simp
next
  case health_wakes
  then show ?thesis by (intro exI [of _ Health_Wakes]) simp
next
  case signal
  then show ?thesis by (intro exI [of _ "Signalled Ctrl_C"]) simp
next
  case drained
  then show ?thesis by (intro exI [of _ All_Ended]) (simp add: list_all_iff)
next
  case timed_out
  then show ?thesis by (intro exI [of _ Drain_Timeout]) simp
qed

section \<open>Its log\<close>

primrec service_name :: "service \<Rightarrow> string" where
  "service_name (Stun_Service port) = ''P2P '' @ nat_to_string (unat port)"
| "service_name (V3_Tunnel_Service port) = ''Tunnel V3''"
| "service_name (V2_Tunnel_Service port) = ''Tunnel V2''"

definition async_main_log :: "server_config \<Rightarrow> log_line list" where
  "async_main_log c =
     [(Info, ''Starting CnCNet Server v2.0.0'')]
     @ (if no_p2p c then [] else [(Info, ''Starting P2P services on ports 8054 and 3478'')])
     @ [(Info, ''Starting Tunnel V3 on port '' @ nat_to_string (unat (tunnel_port c))),
        (Info, ''Starting Tunnel V2 on port '' @ nat_to_string (unat (tunnel_v2_port c)))]"

primrec signal_text :: "signal \<Rightarrow> string" where
  "signal_text Ctrl_C = ''Received Ctrl+C signal''"
| "signal_text Terminate = ''Received terminate signal''"

definition all_stopped_line :: log_line where
  "all_stopped_line = (Info, ''All services stopped successfully'')"

definition not_stopped_line :: log_line where
  "not_stopped_line = (Warn, ''Some services did not stop within timeout'')"

definition complete_line :: log_line where
  "complete_line = (Info, ''Shutdown complete'')"

text \<open>A service that returns without an error is not logged.\<close>

fun main_log :: "main_event \<Rightarrow> 'w process \<Rightarrow> log_line list" where
  "main_log (Returns i err) p =
     (case err of None \<Rightarrow> []
      | Some e \<Rightarrow> [(Error, service_name (fst (tasks p ! i)) @ '' error: '' @ e)])"
| "main_log (Wakes i) p = [(Info, service_name (fst (tasks p ! i)) @ '' shutting down'')]"
| "main_log Health_Wakes p = [(Info, ''Health server shutting down'')]"
| "main_log (Signalled sig) p = [(Info, signal_text sig), (Info, ''Shutting down gracefully...'')]"
| "main_log All_Ended p = [all_stopped_line, complete_line]"
| "main_log Drain_Timeout p = [not_stopped_line, complete_line]"

primrec main_run_log :: "'w watch \<Rightarrow> main_event list \<Rightarrow> 'w process \<Rightarrow> log_line list" where
  "main_run_log W [] p = []"
| "main_run_log W (e # es) p =
     main_log e p @ (case main_perform W e p of None \<Rightarrow> [] | Some p' \<Rightarrow> main_run_log W es p')"

text \<open>
  The last two lines tell how the process ended: when it has finished, they report either that all
  services stopped, and then all have, or that some did not.
\<close>

lemma finished_performs_nothing: "phase p = Finished \<Longrightarrow> main_perform W e p = None"
  by (cases e) auto

lemma main_log_ending:
  assumes "run_all (main_perform W) es p = Some p'" and "phase p \<noteq> Finished" and "phase p' = Finished"
  shows "\<exists>before line. main_run_log W es p = before @ [line, complete_line] \<and>
    (line = all_stopped_line \<and> (\<forall>t \<in> set (tasks p'). snd t \<noteq> Serving) \<or> line = not_stopped_line)"
  using assms
proof (induction es arbitrary: p)
  case Nil
  then show ?case by simp
next
  case (Cons e es)
  then obtain q where q: "main_perform W e p = Some q" "run_all (main_perform W) es q = Some p'"
    by (auto simp: bind_eq_Some_conv)
  show ?case
  proof (cases "phase q = Finished")
    case True
    then have "es = []"
      using q(2) by (cases es) (simp_all add: finished_performs_nothing)
    with True q Cons.prems(2) show ?thesis
      by (cases e) (auto simp: list_all_iff split: if_splits)
  next
    case False
    from Cons.IH [OF q(2) False Cons.prems(3)] obtain before line where
      "main_run_log W es q = before @ [line, complete_line]"
      "line = all_stopped_line \<and> (\<forall>t \<in> set (tasks p'). snd t \<noteq> Serving) \<or> line = not_stopped_line"
      by blast
    with q(1) show ?thesis
      by (intro exI [of _ "main_log e p @ before"] exI [of _ line]) simp
  qed
qed

section \<open>The STUN services\<close>

definition p2p_on_receive_log ::
    "('c, 'q, 'i) relay_core \<Rightarrow> ('m, 'g, 'i) rater \<Rightarrow> string \<Rightarrow> 'i env \<Rightarrow> u8 list \<Rightarrow> socket_addr
       \<Rightarrow> 'm p2p_state \<Rightarrow> log_line list" where
  "p2p_on_receive_log R L failure E packet remote s =
     (let (buf, p, io) = s in
      if \<not> validate_address R remote
         \<or> \<not> fst (check_and_increment L (p2p_limiter p) (sock_ip remote) (instant E))
      then []
      else case (index packet 0, index packet 1) of
        (Some b0, Some b1) \<Rightarrow>
          if u16_from_be_bytes b0 b1 \<noteq> STUN_ID \<or> send_succeeds E remote (fill_reply remote buf) then []
          else [(Error, ''P2P send error: '' @ failure)]
      | _ \<Rightarrow> [])"

definition p2p_receive_log ::
    "('c, 'q, 'i) relay_core \<Rightarrow> ('m, 'g, 'i) rater \<Rightarrow> string \<Rightarrow> 'i env \<Rightarrow> recv_result
       \<Rightarrow> 'm p2p_state \<Rightarrow> log_line list" where
  "p2p_receive_log R L failure E r s =
     (case r of
        Received packet remote \<Rightarrow>
          if length packet = 48 then p2p_on_receive_log R L failure E packet remote s else []
      | Receive_Error \<Rightarrow>
          (case s of (buf, p, io) \<Rightarrow>
             [(Error, ''P2P UDP receive error on port '' @ nat_to_string (unat (p2p_port p)) @ '': '' @ failure)]))"

end
