(* ===== verification/Spec2Isabelle.thy ===== *)
theory Spec2Isabelle
  imports Deployment Sockets Registration Admission_Race Allocation_Race Parallel_Relay Scrape_Race
    Locking V3_Log V2_Log Service_Log
begin

text \<open>
  A verification library for the CnCNet tunnel server, the Rust program under \<open>src/src/\<close>.

  The program. The server relays UDP packets between game clients that cannot reach each other.
  A client of the version 3 tunnel (\<open>tunnel_v3.rs\<close>) chooses its own 32-bit id and is registered by
  its first packet; a client of the version 2 tunnel (\<open>tunnel_v2.rs\<close>) gets a 16-bit id over HTTP
  and is bound to an address by its first packet. Both keep a concurrent map from ids to clients,
  answer pings, clean up clients that have been silent for thirty seconds, and announce themselves
  to a master server. Two STUN services (\<open>peer_to_peer.rs\<close>) tell a client its public address. All
  share the counters of \<open>metrics.rs\<close>, which a health server (\<open>health.rs\<close>) exports; \<open>config.rs\<close>
  validates the arguments, \<open>rate_limiter.rs\<close> wraps the rater crate, \<open>shutdown.rs\<close> coordinates the
  end, and \<open>main.rs\<close> puts the parts together.

  The theories, in the order in which they build on each other.

  \<^item> \<open>Prelude\<close>: fixed width words and byte orders, addresses, checked indexing and slicing (a panic
    is \<open>None\<close>), the operations of a concurrent map with their locale \<open>client_map\<close>, and runs of
    partial steps.
  \<^item> \<open>Rust_Strings\<close>: splitting, trimming, printing and parsing as the standard library does it.
  \<^item> \<open>Libraries\<close>: the crates as parameters. \<open>relay_core\<close> is udp-relay-core (the client record, the
    timeout, the address check, the analyzer), \<open>rater\<close> the token buckets, \<open>semaphore\<close> and \<open>watch\<close>
    are tokio's. The laws that are assumed of them are definitions of this theory, and each has a
    concrete instance for the examples.
  \<^item> \<open>Http\<close>, \<open>Config\<close>, \<open>Metrics\<close>, \<open>Registration\<close>, \<open>Rate_Limiter\<close>, \<open>Shutdown\<close>, \<open>Health\<close>, \<open>Announce\<close>: the
    files of these names, with the registration of the Prometheus objects and the query of the
    announcement in theories of their own.
  \<^item> \<open>Udp_Service\<close>: what the services have in common: the environment of one event (the instant and
    which sends succeed), the worker's input and output, the abstract endpoint table with its
    \<open>verdict\<close> on a data packet, and three locales. \<open>fallible_service\<close> is the contract of a service
    that panics only of events that are said to be fatal, keeps its invariant and answers a packet
    with at most one datagram no longer than it; \<open>udp_service\<close> is that of one to which no event is
    fatal; \<open>relay\<close> is the contract of a tunnel that only sends echoes and the packets it received.
  \<^item> \<open>Peer_To_Peer\<close>: \<open>on_receive\<close>, \<open>receive_loop\<close> and the reset timer of a STUN service.
  \<^item> \<open>Tunnel_V3\<close> has one definition for each function of \<open>TunnelV3\<close>; \<open>V3_Service\<close> proves what the
    packet handler does and \<open>V3_System\<close> composes the workers and the heartbeat to a step function;
    \<open>V3_Properties\<close> and \<open>V3_Control\<close> hold the properties.
  \<^item> \<open>Tunnel_V2\<close>, \<open>V2_Allocation\<close>, \<open>V2_Service\<close>, \<open>V2_System\<close> and \<open>V2_Properties\<close> do the same for
    \<open>TunnelV2\<close>, with the HTTP side and the allocation of ids.
  \<^item> \<open>Server\<close>: all services side by side over one \<open>Metrics\<close>, in any order of whole handler calls, as
    an instance of \<open>fallible_service\<close>: the failed bind of the health port, which \<open>health.rs\<close> unwraps,
    is fatal, and nothing else is.
  \<^item> \<open>Lifecycle\<close>: \<open>async_main\<close> as a step relation: the tasks, the signal, the drain, its timeout.
  \<^item> \<open>Deployment\<close> puts the two together: a step of the process decides which of the services can still
    take a step. A service whose task has ended may still work until its workers have stopped;
    connections go on until the process ends; a panic aborts the process. Every history is a run of \<open>Server\<close> and of \<open>Lifecycle\<close>.
  \<^item> \<open>Sockets\<close>: what the services bind, and when their sockets get in each other's way.
  \<^item> \<open>Process\<close>: the tracing subscriber, the signal handler, the error type and the log lines of the
    heartbeats.
  \<^item> \<open>Audit_Log\<close>: what the tunnels log about their clients, as entries that can be replayed, with the
    locale \<open>audited\<close> of a service whose log replays to its table. \<open>V3_Log\<close> and \<open>V2_Log\<close> have the
    entries of every handler, \<open>Service_Log\<close> the lines of \<open>main.rs\<close> and of the STUN services.
  \<^item> \<open>Interleaving\<close>: histories of labelled steps, the store of client objects behind a map of
    addresses, and three locales: \<open>promised_room\<close> for a limit that is checked before it is used,
    \<open>wait_free\<close> for threads whose jobs are bounded whatever the others do, and \<open>relaying\<close> for relays that send nothing of their own.
  \<^item> \<open>Parallel_V3\<close> cuts \<open>handle_data_forward\<close> and the cleanup of the version 3 tunnel into their
    operations on the shared maps, the limiter, the counters and the client objects behind their
    \<open>Arc\<close>s (\<open>advance\<close>, \<open>parallel_step\<close>), for any number of workers. \<open>Parallel_Refinement\<close> shows that
    a worker alone computes what the handler computes; \<open>Admission_Race\<close> shows what every
    interleaving keeps and what it breaks.
  \<^item> \<open>Parallel_V2\<close>, \<open>Parallel_V2_Refinement\<close> and \<open>Allocation_Race\<close> do the same for
    \<open>handle_request\<close>, \<open>handle_data_forward\<close> and the cleanup of the version 2 tunnel.
    \<open>Parallel_Relay\<close> shows for both tunnels that every interleaving only relays.
  \<^item> \<open>Locking\<close>: the shard locks under the operations on the maps. What each handler does to them is a
    program (\<open>job_locks\<close>); the locale \<open>lock_order\<close> shows that programs that take their locks in an
    order never deadlock, and \<open>handling_data\<close> that the fine steps of a packet stand for these programs.
  \<^item> \<open>Scrape_Race\<close> cuts \<open>update_prometheus\<close> into fine steps: its loads, swaps and calls, for any number of
    overlapping scrapes while the server counts.

  How the code is rendered. A struct is a record with the fields that are read, an atomic integer
  is a word of its width, a \<open>DashMap\<close> is a finite map, a socket is the list of datagrams sent so
  far. A handler takes the tunnel and the worker's \<open>io\<close> and returns them updated; the one that
  slices the packet returns an option, so that a panic would be visible. One event (a packet
  received by some worker, a receive error, a tick, an HTTP connection accepted, served or closed,
  a failed accept, a scrape, the outcome of the health server's bind) is one step of a step function
  on the state of a service, and a run is a list of events. The instant and the success of sends are chosen freely for every event; random ids are a
  stream that is an argument of the event.

  What is shown. Every service runs without a panic from its start on any list of whole handler
  calls and keeps its invariant, and so does the server as a whole, unless the health port cannot be
  bound, which makes it panic: the number of clients stays within the limit, the
  gauges agree with the maps, the worker batches stay small enough that no count is lost, the
  number of open HTTP connections agrees with the permits. Both tunnels refine the endpoint table,
  from which follow the absence of hijacking and of amplification, and that a session between two
  clients comes about. The allocation loop equals a reference that takes the first free distinct
  draws; a failed allocation leaves no trace. Commands, maintenance requests, rate limits and
  heartbeats are characterised on all their branches. The bytes of headers, STUN replies,
  allocation responses and announcements are read back. Metrics lose no count between a worker's
  batch and the scraped total. A shutdown reaches every service and always ends, and all of the above
  holds through it. One failed accept ends the health server's service of new connections for good
  while the open ones are served on, and a server all of whose services have failed still
  calls itself ready. The logs of both tunnels, read in order, are consistent and say at every
  moment who is connected.

  Bounds. The allocation loop makes at most 1000 attempts, which is its own limit in the code; its
  definition recurses on the attempts that are left. The loops over workers and over events are
  lists. The heartbeat's counter has eight bits and wraps at 256, where the distance between two
  cleanups can be shorter but not longer than three ticks. The life of the process has a measure,
  and so has the way of a packet or a request through the fine steps (ten and 1021 steps), so no
  fuel is needed anywhere.

  Atomicity. In \<open>V3_System\<close>, \<open>V2_System\<close> and \<open>Server\<close> a handler is one step, although in the code it
  runs on several threads over maps that are locked one operation at a time. The parallel theories
  drop this. A handler that runs alone, in the middle of whatever the other threads have begun, is
  the atomic one, and so is a serial history of them (\<open>serial_history\<close>): the atomic theories describe
  the histories in which handlers do not overlap. When they overlap, the store stays well formed,
  no handler waits for ever on a lock, nothing is forged, amplified or sent to a stranger, and the
  client limits are passed by a bounded number at most; but they can be passed, a live client can be
  displaced, one id can be handed out twice, and a gauge can be left wrong. Overlapping scrapes lose no count, but
  can add counts twice. The limits and gauges of the atomic theories are thus those of handlers that
  do not overlap, and so are the logs. In the parallel theories \<open>mappings.len()\<close> is one atomic read,
  although it locks the shards one by one.

  Not modelled: the constant lines with which workers announce themselves in the log; the locks
  inside the rater and prometheus crates; the parsing of requests and the life of a connection in hyper; the HTTP client of the announcement, of which only the address
  and what is logged of the answer are here; the sizes of socket buffers; the parsing of the command
  line and the environment by clap; the memory orderings of the atomic operations, which are taken
  to be sequentially consistent. The crates are parameters, as their sources are not here.
\<close>

end
